(* ===== verification/Prelude.thy ===== *)
theory Prelude
  imports Main "HOL-Library.Char_ord" "HOL-Library.List_Lexorder"
begin

text \<open>
  Shared vocabulary of the development.

  \<^item> C data: bytes are characters, a C string is the list of its characters before the terminating
    zero, a fixed-size array is a list of that length.  \<open>strncpy_k\<close>, \<open>strncmp_k\<close> and \<open>strlen_k\<close>
    follow the loops of \<open>lib/string.c\<close>; the error numbers are those of \<open>asm-generic/errno-base.h\<close>.
  \<^item> Memory faults: an operation that C leaves undefined (a null dereference, an access outside an
    object, the use of an uninitialised byte) or a call of \<open>panic\<close> is a value of type \<open>fault\<close> on the left of a sum.
  \<^item> Ordered maps: the daemon keeps its tables in ordered maps from strings, which iterate in key
    order; they are association lists sorted by key, described to their clients by the locale
    \<open>ordered_map\<close>.
\<close>

named_theorems cstr_simps \<open>computation rules of the C string functions\<close>
named_theorems omap_simps \<open>laws of the ordered maps\<close>
named_theorems wf_intros \<open>preservation of the components' well-formedness invariants\<close>

section \<open>Errors and faults\<close>

datatype fault = NullDeref | OutOfBounds | Uninitialised | UseAfterFree | Panic

definition EFAULT :: int where "EFAULT = 14"
definition ENOMEM :: int where "ENOMEM = 12"
definition EACCES :: int where "EACCES = 13"
definition EINTR :: int where "EINTR = 4"
definition ETIME :: int where "ETIME = 62"
definition EINVAL :: int where "EINVAL = 22"

lemmas errno_defs = EFAULT_def ENOMEM_def EACCES_def EINTR_def ETIME_def EINVAL_def

fun bind_fault :: "'e + 'a \<Rightarrow> ('a \<Rightarrow> 'e + 'b) \<Rightarrow> 'e + 'b" where
  "bind_fault (Inl e) f = Inl e"
| "bind_fault (Inr a) f = f a"

lemma bind_fault_Inr_iff:
  "bind_fault m f = Inr b \<longleftrightarrow> (\<exists>a. m = Inr a \<and> f a = Inr b)"
  by (cases m) auto

lemma bind_fault_assoc:
  "bind_fault (bind_fault m f) g = bind_fault m (\<lambda>a. bind_fault (f a) g)"
  by (cases m) auto

section \<open>C strings\<close>

abbreviation NUL :: char where "NUL \<equiv> CHR 0x00"

text \<open>The characters of an array before its first zero byte.\<close>

definition cstring :: "char list \<Rightarrow> string" where
  "cstring b = takeWhile (\<lambda>c. c \<noteq> NUL) b"

definition terminated :: "char list \<Rightarrow> bool" where
  "terminated b = (NUL \<in> set b)"

text \<open>The end of a source list stands for its terminating zero.\<close>

fun strncpy_k :: "char list \<Rightarrow> nat \<Rightarrow> char list" where
  "strncpy_k src 0 = []"
| "strncpy_k [] (Suc n) = NUL # strncpy_k [] n"
| "strncpy_k (c # src) (Suc n) =
     (if c \<noteq> NUL then c # strncpy_k src n else NUL # strncpy_k (c # src) n)"

fun strncmp_k :: "char list \<Rightarrow> char list \<Rightarrow> nat \<Rightarrow> int" where
  "strncmp_k cs ct 0 = 0"
| "strncmp_k cs ct (Suc n) =
     (let c1 = (case cs of [] \<Rightarrow> NUL | c # _ \<Rightarrow> c); c2 = (case ct of [] \<Rightarrow> NUL | c # _ \<Rightarrow> c)
      in if c1 \<noteq> c2 then (if (of_char c1 :: nat) < of_char c2 then - 1 else 1)
         else if c1 = NUL then 0
         else strncmp_k (tl cs) (tl ct) n)"

definition strlen_k :: "char list \<Rightarrow> nat" where
  "strlen_k b = length (cstring b)"

lemma cstring_simps [cstr_simps, simp]:
  "cstring [] = []"
  "cstring (c # b) = (if c = NUL then [] else c # cstring b)"
  by (simp_all add: cstring_def)

lemma cstring_no_NUL [simp]: "NUL \<notin> set (cstring b)"
  by (auto simp: cstring_def dest: set_takeWhileD)

lemma cstring_id: "NUL \<notin> set b \<Longrightarrow> cstring b = b"
  by (induction b) auto

lemma cstring_idem [simp]: "cstring (cstring b) = cstring b"
  by (simp add: cstring_id)

lemma cstring_append_NUL [simp]: "cstring (b @ NUL # r) = cstring b"
  by (induction b) auto

lemma cstring_append: "NUL \<notin> set a \<Longrightarrow> cstring (a @ b) = a @ cstring b"
  by (induction a) auto

lemma length_strncpy_k [simp]: "length (strncpy_k src n) = n"
  by (induction src n rule: strncpy_k.induct) auto

lemma strncpy_k_NUL: "strncpy_k [] n = replicate n NUL" "strncpy_k (NUL # r) n = replicate n NUL"
  by (induction n) auto

lemma cstring_replicate_NUL [simp]: "cstring (replicate n NUL) = []"
  by (cases n) auto

lemma cstring_strncpy_k: "cstring (strncpy_k src n) = take n (cstring src)"
  by (induction src n rule: strncpy_k.induct) (auto simp: strncpy_k_NUL)

lemma strncpy_k_fits: "length (cstring src) \<le> n \<Longrightarrow>
    strncpy_k src n = cstring src @ replicate (n - length (cstring src)) NUL"
  by (induction src n rule: strncpy_k.induct) (auto simp: strncpy_k_NUL)

lemma strncpy_k_exact: "NUL \<notin> set src \<Longrightarrow> strncpy_k src (length src) = src"
  by (induction src) auto

lemma strncpy_k_self: "length b = n \<Longrightarrow> cstring (strncpy_k b n) = cstring b"
proof -
  assume "length b = n"
  moreover have "length (cstring b) \<le> length b"
    by (simp add: cstring_def length_takeWhile_le)
  ultimately show ?thesis
    by (simp add: cstring_strncpy_k)
qed

lemma terminated_strncpy_k: "terminated (strncpy_k src n) \<longleftrightarrow> length (cstring src) < n"
proof (induction src n rule: strncpy_k.induct)
  case (2 n)
  show ?case by (simp add: terminated_def)
qed (auto simp: terminated_def strncpy_k_NUL)

lemma strncmp_k_eq_0_iff:
  "strncmp_k cs ct n = 0 \<longleftrightarrow> take n (cstring cs) = take n (cstring ct)"
proof (induction n arbitrary: cs ct)
  case (Suc n)
  then show ?case by (cases cs; cases ct) auto
qed simp

section \<open>Decimal numbers\<close>

fun digits_of :: "nat \<Rightarrow> string" where
  "digits_of n = (if n < 10 then [char_of (48 + n)] else digits_of (n div 10) @ [char_of (48 + n mod 10)])"

declare digits_of.simps [simp del]

definition show_int :: "int \<Rightarrow> string" where
  "show_int i = (if i < 0 then CHR ''-'' # digits_of (nat (- i)) else digits_of (nat i))"

definition digit_val :: "char \<Rightarrow> nat option" where
  "digit_val c = (let n = of_char c :: nat in if 48 \<le> n \<and> n \<le> 57 then Some (n - 48) else None)"

fun digits_value :: "string \<Rightarrow> nat \<Rightarrow> nat option" where
  "digits_value [] n = Some n"
| "digits_value (c # s) n = (case digit_val c of None \<Rightarrow> None | Some d \<Rightarrow> digits_value s (10 * n + d))"

definition parse_int :: "string \<Rightarrow> int option" where
  "parse_int s =
     (case s of
        [] \<Rightarrow> None
      | c # cs \<Rightarrow>
          if c = CHR ''-'' then (if cs = [] then None else map_option (\<lambda>n. - int n) (digits_value cs 0))
          else map_option int (digits_value s 0))"

lemma digit_val_char: "n < 10 \<Longrightarrow> digit_val (char_of (48 + n)) = Some n"
  by (simp add: digit_val_def of_char_of)

lemma of_char_digit: "d < 10 \<Longrightarrow> of_char (char_of (48 + d) :: char) = (48 + d :: nat)"
  by (simp add: of_char_of)

lemma digits_of_range: "c \<in> set (digits_of n) \<Longrightarrow> 48 \<le> (of_char c :: nat)"
proof (induction n rule: digits_of.induct)
  case (1 n)
  then show ?case
    by (cases "n < 10") (auto simp: digits_of.simps [of n] of_char_of)
qed

lemma digits_of_nonempty: "digits_of n \<noteq> []"
  by (simp add: digits_of.simps [of n])

lemma digits_of_no_minus: "\<exists>c rest. digits_of n = c # rest \<and> c \<noteq> CHR ''-''"
proof -
  obtain c rest where c: "digits_of n = c # rest"
    using digits_of_nonempty by (cases "digits_of n") auto
  then have "48 \<le> (of_char c :: nat)"
    by (intro digits_of_range [of c n]) simp
  then have "c \<noteq> CHR ''-''" by auto
  with c show ?thesis by blast
qed

lemma show_int_no_NUL: "NUL \<notin> set (show_int i)"
proof -
  have "NUL \<notin> set (digits_of n)" for n
    using digits_of_range [of NUL n] by auto
  then show ?thesis by (auto simp: show_int_def)
qed

lemma digits_value_append:
  "digits_value (digits_of n @ s) m = digits_value s (m * 10 ^ length (digits_of n) + n)"
proof (induction n arbitrary: m s rule: digits_of.induct)
  case (1 n)
  show ?case
  proof (cases "n < 10")
    case True
    then show ?thesis
      by (simp add: digits_of.simps [of n] digit_val_char mult.commute)
  next
    case False
    then show ?thesis
      using 1 [OF False, where m = m]
      by (simp add: digits_of.simps [of n] digit_val_char) (simp add: mult.left_commute add.commute)
  qed
qed

lemma parse_show_int: "parse_int (show_int i) = Some i"
proof -
  have dv: "digits_value (digits_of n) 0 = Some n" for n
    using digits_value_append [of n "[]" 0] by simp
  obtain c rest where "digits_of (nat i) = c # rest" "c \<noteq> CHR ''-''"
    using digits_of_no_minus by blast
  then show ?thesis
    using dv [of "nat i"] dv [of "nat (- i)"] digits_of_nonempty [of "nat (- i)"]
    by (simp add: parse_int_def show_int_def)
qed

lemma digits_of_digit: "c \<in> set (digits_of n) \<Longrightarrow> digit_val c \<noteq> None"
proof (induction n rule: digits_of.induct)
  case (1 n)
  then show ?case
    by (cases "n < 10") (auto simp: digits_of.simps [of n] digit_val_char)
qed

section \<open>Ordered maps\<close>

type_synonym ('k, 'v) omap = "('k \<times> 'v) list"

abbreviation ofind :: "('k, 'v) omap \<Rightarrow> 'k \<Rightarrow> 'v option" where
  "ofind \<equiv> map_of"

fun oinsert :: "'k::linorder \<Rightarrow> 'v \<Rightarrow> ('k, 'v) omap \<Rightarrow> ('k, 'v) omap" where
  "oinsert k v [] = [(k, v)]"
| "oinsert k v ((k', v') # m) =
     (if k < k' then (k, v) # (k', v') # m
      else if k = k' then (k, v) # m
      else (k', v') # oinsert k v m)"

fun oremove :: "'k \<Rightarrow> ('k, 'v) omap \<Rightarrow> ('k, 'v) omap" where
  "oremove k [] = []"
| "oremove k ((k', v') # m) = (if k = k' then m else (k', v') # oremove k m)"

definition okeys :: "('k, 'v) omap \<Rightarrow> 'k list" where
  "okeys m = map fst m"

definition ovals :: "('k, 'v) omap \<Rightarrow> 'v list" where
  "ovals m = map snd m"

definition osorted :: "('k::linorder, 'v) omap \<Rightarrow> bool" where
  "osorted m = sorted_wrt (<) (okeys m)"

definition ocontains :: "('k, 'v) omap \<Rightarrow> 'k \<Rightarrow> bool" where
  "ocontains m k = (ofind m k \<noteq> None)"

text \<open>The constant lookup with a default, and the mutable index operator, which first inserts the
  default when the key is absent.\<close>

definition ovalue :: "'v \<Rightarrow> ('k, 'v) omap \<Rightarrow> 'k \<Rightarrow> 'v" where
  "ovalue d m k = (case ofind m k of None \<Rightarrow> d | Some v \<Rightarrow> v)"

definition oindex :: "'v \<Rightarrow> 'k::linorder \<Rightarrow> ('k, 'v) omap \<Rightarrow> 'v \<times> ('k, 'v) omap" where
  "oindex d k m = (case ofind m k of None \<Rightarrow> (d, oinsert k d m) | Some v \<Rightarrow> (v, m))"

lemma okeys_simps [simp]: "okeys [] = []" "okeys (p # m) = fst p # okeys m"
  by (simp_all add: okeys_def)

lemma length_okeys [simp]: "length (okeys m) = length m"
  by (simp add: okeys_def)

lemma ovals_simps [simp]: "ovals [] = []" "ovals (p # m) = snd p # ovals m"
  by (simp_all add: ovals_def)

lemma osorted_simps [simp]:
  "osorted []" "osorted (p # m) \<longleftrightarrow> (\<forall>k \<in> set (okeys m). fst p < k) \<and> osorted m"
  by (simp_all add: osorted_def)

lemma set_okeys: "set (okeys m) = dom (ofind m)"
  by (simp add: okeys_def dom_map_of_conv_image_fst)

lemma okeys_oinsert: "set (okeys (oinsert k v m)) = insert k (set (okeys m))"
  by (induction k v m rule: oinsert.induct) auto

lemma okeys_oremove_subset: "set (okeys (oremove k m)) \<subseteq> set (okeys m)"
  by (induction k m rule: oremove.induct) auto

lemma osorted_oinsert [wf_intros]: "osorted m \<Longrightarrow> osorted (oinsert k v m)"
  by (induction k v m rule: oinsert.induct) (auto simp: okeys_oinsert)

lemma osorted_oremove [wf_intros]: "osorted m \<Longrightarrow> osorted (oremove k m)"
  using okeys_oremove_subset by (induction k m rule: oremove.induct) fastforce+

lemma osorted_distinct: "osorted m \<Longrightarrow> distinct (okeys m)"
  by (induction m) auto

lemma ofind_oinsert [simp]: "ofind (oinsert k v m) = (ofind m)(k \<mapsto> v)"
  by (induction k v m rule: oinsert.induct) (auto simp: fun_upd_twist)

lemma ofind_notin_okeys: "k \<notin> set (okeys m) \<Longrightarrow> ofind m k = None"
  by (simp add: set_okeys domIff)

lemma ofind_oremove: "osorted m \<Longrightarrow> ofind (oremove k m) = (ofind m)(k := None)"
proof (induction k m rule: oremove.induct)
  case (2 k k' v' m)
  then have "k = k' \<Longrightarrow> ofind m k' = None"
    by (intro ofind_notin_okeys) auto
  with 2 show ?case
    by (auto simp: fun_eq_iff)
qed simp

locale ordered_map =
  fixes look :: "'m \<Rightarrow> 'k::linorder \<Rightarrow> 'v option"
    and ins :: "'k \<Rightarrow> 'v \<Rightarrow> 'm \<Rightarrow> 'm"
    and del :: "'k \<Rightarrow> 'm \<Rightarrow> 'm"
    and entries :: "'m \<Rightarrow> ('k \<times> 'v) list"
    and inv :: "'m \<Rightarrow> bool"
  assumes look_ins: "inv m \<Longrightarrow> look (ins k v m) = (look m)(k \<mapsto> v)"
    and look_del: "inv m \<Longrightarrow> look (del k m) = (look m)(k := None)"
    and inv_ins: "inv m \<Longrightarrow> inv (ins k v m)"
    and inv_del: "inv m \<Longrightarrow> inv (del k m)"
    and entries_sorted: "inv m \<Longrightarrow> sorted_wrt (<) (map fst (entries m))"
    and entries_look: "inv m \<Longrightarrow> map_of (entries m) = look m"
begin

lemma entries_distinct: "inv m \<Longrightarrow> distinct (map fst (entries m))"
  using entries_sorted strict_sorted_iff by blast

lemma entry_iff: "inv m \<Longrightarrow> (k, v) \<in> set (entries m) \<longleftrightarrow> look m k = Some v"
  using entries_distinct entries_look by (metis map_of_eq_Some_iff)

lemma key_iff: "inv m \<Longrightarrow> k \<in> fst ` set (entries m) \<longleftrightarrow> look m k \<noteq> None"
  using entry_iff by force

lemma extensional:
  assumes "inv m" "inv m'" "look m = look m'"
  shows "entries m = entries m'"
proof (rule map_sorted_distinct_set_unique [where f = fst])
  show "inj_on fst (set (entries m) \<union> set (entries m'))"
    using assms entry_iff by (auto simp: inj_on_def)
  show "sorted (map fst (entries m))" "distinct (map fst (entries m))"
    "sorted (map fst (entries m'))" "distinct (map fst (entries m'))"
    using assms entries_sorted strict_sorted_iff by blast+
  show "set (entries m) = set (entries m')"
    using assms entry_iff by auto
qed

lemma ins_ins: "inv m \<Longrightarrow> entries (ins k v (ins k w m)) = entries (ins k v m)"
  by (intro extensional inv_ins) (auto simp: look_ins inv_ins)

lemma ins_commute: "inv m \<Longrightarrow> k \<noteq> k' \<Longrightarrow>
    entries (ins k v (ins k' v' m)) = entries (ins k' v' (ins k v m))"
  by (intro extensional inv_ins) (auto simp: look_ins inv_ins fun_upd_twist)

lemma del_ins: "inv m \<Longrightarrow> look m k = None \<Longrightarrow> entries (del k (ins k v m)) = entries m"
  by (intro extensional inv_ins inv_del) (auto simp: look_ins look_del inv_ins)

lemma ins_same: "inv m \<Longrightarrow> look m k = Some v \<Longrightarrow> entries (ins k v m) = entries m"
  by (intro extensional inv_ins) (auto simp: look_ins)

lemma del_absent: "inv m \<Longrightarrow> look m k = None \<Longrightarrow> entries (del k m) = entries m"
  by (intro extensional inv_del) (auto simp: look_del)

end

interpretation om: ordered_map ofind oinsert oremove "\<lambda>m. m" osorted
proof unfold_locales
  show "osorted m \<Longrightarrow> sorted_wrt (<) (map fst m)" for m :: "('a, 'b) omap"
    by (simp add: osorted_def okeys_def)
qed (auto simp: ofind_oremove intro: osorted_oinsert osorted_oremove)

lemmas omap_laws [omap_simps] = om.look_ins om.look_del om.inv_ins om.inv_del om.key_iff

lemma in_okeys_iff: "k \<in> set (okeys m) \<longleftrightarrow> ocontains m k"
  by (auto simp: ocontains_def set_okeys)

lemma ovals_iff: "osorted m \<Longrightarrow> v \<in> set (ovals m) \<longleftrightarrow> (\<exists>k. ofind m k = Some v)"
  using om.entry_iff by (force simp: ovals_def image_iff)

lemma ocontains_oinsert [simp]: "ocontains (oinsert k v m) k' \<longleftrightarrow> k = k' \<or> ocontains m k'"
  by (auto simp: ocontains_def)

lemma ocontains_oremove [simp]:
  "osorted m \<Longrightarrow> ocontains (oremove k m) k' \<longleftrightarrow> k \<noteq> k' \<and> ocontains m k'"
  by (auto simp: ocontains_def ofind_oremove)

lemma oindex_present: "ocontains m k \<Longrightarrow> oindex d k m = (ovalue d m k, m)"
  by (auto simp: oindex_def ocontains_def ovalue_def)

lemma oindex_value: "fst (oindex d k m) = ovalue d m k"
  by (auto simp: oindex_def ovalue_def split: option.split)

lemma ofind_oindex: "ofind (snd (oindex d k m)) k' = (if k' = k then Some (ovalue d m k) else ofind m k')"
  by (auto simp: oindex_def ovalue_def split: option.split)

lemma ovalue_absent: "\<not> ocontains m k \<Longrightarrow> ovalue d m k = d"
  by (auto simp: ocontains_def ovalue_def split: option.splits)

lemma oinsert_snoc: "\<forall>k' \<in> set (okeys m). k' < k \<Longrightarrow> oinsert k v m = m @ [(k, v)]"
  by (induction m) auto

lemma osorted_oindex [wf_intros]: "osorted m \<Longrightarrow> osorted (snd (oindex d k m))"
  by (auto simp: oindex_def osorted_oinsert split: option.split)

end
