(* ===== verification/Text_Functions.thy ===== *)
theory Text_Functions
  imports Prelude
begin

text \<open>
  The operations on strings that the daemon and its library use: substring search, replacement of
  all occurrences, splitting at a separator, joining, and comparison without regard to case.  They are
  the operations of the string class of the code's framework on texts of single-byte characters; case
  is that of the ASCII letters.  What the framework does beyond plain text (regular expressions,
  number parsing, file names) is collected in the record \<open>framework\<close>, which the definitions that need
  it take as an argument.
\<close>

record framework =
  rx_valid :: "string \<Rightarrow> bool"
  rx_match :: "string \<Rightarrow> string \<Rightarrow> bool"
  is_absolute :: "string \<Rightarrow> bool"
  to_int :: "string \<Rightarrow> int option"
  of_int_str :: "int \<Rightarrow> string"

text \<open>The values of the type \<open>int\<close> of the machine.\<close>

definition c_int :: "int \<Rightarrow> bool" where
  "c_int i \<longleftrightarrow> - (2 ^ 31) \<le> i \<and> i < 2 ^ 31"

text \<open>Documented behaviour of the number conversions: a printed number is read back if it is a value of the
  type \<open>int\<close>, and its text is a nonempty sequence of digits, possibly after a minus sign.\<close>

definition numbers_ok :: "framework \<Rightarrow> bool" where
  "numbers_ok F =
     (\<forall>i. (c_int i \<longrightarrow> to_int F (of_int_str F i) = Some i) \<and> of_int_str F i \<noteq> [] \<and>
          (\<forall>c \<in> set (of_int_str F i). c = CHR ''-'' \<or> digit_val c \<noteq> None))"

fun str_contains :: "string \<Rightarrow> string \<Rightarrow> bool" where
  "str_contains pat [] = (pat = [])"
| "str_contains pat (c # s) = (take (length pat) (c # s) = pat \<or> str_contains pat s)"

function str_replace :: "string \<Rightarrow> string \<Rightarrow> string \<Rightarrow> string" where
  "str_replace pat rep [] = []"
| "str_replace pat rep (c # s) =
     (if pat \<noteq> [] \<and> take (length pat) (c # s) = pat
      then rep @ str_replace pat rep (drop (length pat) (c # s))
      else c # str_replace pat rep s)"
  by pat_completeness auto
termination
  by (relation "measure (\<lambda>(pat, rep, s). length s)") auto

text \<open>The text before the first occurrence of a character.\<close>

definition str_before :: "char \<Rightarrow> string \<Rightarrow> string" where
  "str_before c s = takeWhile (\<lambda>d. d \<noteq> c) s"

fun str_split :: "char \<Rightarrow> string \<Rightarrow> string list" where
  "str_split sep [] = [[]]"
| "str_split sep (c # s) =
     (if c = sep then [] # str_split sep s
      else (c # hd (str_split sep s)) # tl (str_split sep s))"

fun str_join :: "string \<Rightarrow> string list \<Rightarrow> string" where
  "str_join sep [] = []"
| "str_join sep [s] = s"
| "str_join sep (s # t # ss) = s @ sep @ str_join sep (t # ss)"

text \<open>The classes of \<open>ctype.h\<close> in the C locale.\<close>

definition isalpha :: "char \<Rightarrow> bool" where
  "isalpha c = (let n = of_char c :: nat in 65 \<le> n \<and> n \<le> 90 \<or> 97 \<le> n \<and> n \<le> 122)"

definition isalnum :: "char \<Rightarrow> bool" where
  "isalnum c = (let n = of_char c :: nat in 48 \<le> n \<and> n \<le> 57 \<or> isalpha c)"

definition char_lower :: "char \<Rightarrow> char" where
  "char_lower c = (let n = of_char c :: nat in if 65 \<le> n \<and> n \<le> 90 then char_of (n + 32) else c)"

definition str_lower :: "string \<Rightarrow> string" where
  "str_lower s = map char_lower s"

definition str_iequal :: "string \<Rightarrow> string \<Rightarrow> bool" where
  "str_iequal a b = (str_lower a = str_lower b)"

text \<open>A framework for the examples: patterns are literal, numbers are decimal and outside the type \<open>int\<close> not
  read, and a path is absolute if it starts with a slash.\<close>

definition simple_framework :: framework where
  "simple_framework = \<lparr>rx_valid = (\<lambda>r. True), rx_match = (=),
     is_absolute = (\<lambda>p. p \<noteq> [] \<and> hd p = CHR ''/''), 
     to_int = (\<lambda>s. case parse_int s of None \<Rightarrow> None | Some i \<Rightarrow> if c_int i then Some i else None), of_int_str = show_int\<rparr>"

section \<open>Lemmas\<close>

lemma show_int_chars: "c \<in> set (show_int i) \<Longrightarrow> c = CHR ''-'' \<or> digit_val c \<noteq> None"
  using digits_of_digit by (auto simp: show_int_def split: if_splits)

lemma show_int_nonempty: "show_int i \<noteq> []"
  by (simp add: show_int_def digits_of_nonempty)

lemma simple_framework_numbers: "numbers_ok simple_framework"
  using show_int_chars by (simp add: numbers_ok_def simple_framework_def parse_show_int show_int_nonempty)

lemma str_split_not_Nil [simp]: "str_split sep s \<noteq> []"
  by (cases s) auto

lemma str_split_append:
  "sep \<notin> set a \<Longrightarrow> str_split sep (a @ b) = (a @ hd (str_split sep b)) # tl (str_split sep b)"
  by (induction a) auto

lemma str_split_no_sep: "sep \<notin> set a \<Longrightarrow> str_split sep a = [a]"
  using str_split_append [of sep a "[]"] by simp

lemma str_split_sep: "sep \<notin> set a \<Longrightarrow> str_split sep (a @ sep # b) = a # str_split sep b"
  by (simp add: str_split_append)

lemma str_split_join:
  "ss \<noteq> [] \<Longrightarrow> \<forall>s \<in> set ss. sep \<notin> set s \<Longrightarrow> str_split sep (str_join [sep] ss) = ss"
  by (induction "[sep]" ss rule: str_join.induct) (simp_all add: str_split_no_sep str_split_sep)

lemma str_contains_Cons_single: "str_contains [d] (c # s) \<longleftrightarrow> d = c \<or> str_contains [d] s"
  by auto

lemma str_contains_single: "str_contains [d] s \<longleftrightarrow> d \<in> set s"
  by (induction s) auto

lemma str_replace_absent: "\<not> str_contains pat s \<Longrightarrow> str_replace pat rep s = s"
  by (induction pat rep s rule: str_replace.induct) auto

lemma str_replace_single:
  "str_replace [d] rep s = concat (map (\<lambda>c. if c = d then rep else [c]) s)"
  by (induction "[d]" rep s rule: str_replace.induct) auto

lemma str_contains_iff: "str_contains pat s \<longleftrightarrow> (\<exists>a b. s = a @ pat @ b)"
proof (induction s)
  case (Cons c s)
  have "take (length pat) (c # s) = pat \<longleftrightarrow> (\<exists>b. c # s = pat @ b)"
    by (metis append_eq_conv_conj append_take_drop_id)
  with Cons show ?case
    by (auto simp: Cons_eq_append_conv)
qed auto

end
