(* ===== verification/Xmlsp.thy ===== *)
theory Xmlsp
  imports Text_Functions
begin

text \<open>
  The stream parser of \<open>xmlsp.cpp\<close>, with which the daemon reads the contexts that applications send, and
  \<open>xmlcontext2map.cpp\<close>, which turns a context into a map of its parameters.

  The parser is a state machine over characters.  Its virtual functions are called in order with the
  events \<open>xml_event\<close>; the parser ignores what they return, except for the beginning and the end of a
  document, where every class that is used returns \<open>true\<close>.  Popping the empty stack of tags, which
  C++ leaves undefined, is the fault \<open>OutOfBounds\<close>.  Characters are bytes, and \<open>isalnum\<close> is that of the C locale.
\<close>

section \<open>Parser\<close>

datatype status =
    M_TOP | M_TEXT | M_ENTITY | M_OPEN_TAG | M_CLOSE_TAG | M_START_TAG | M_ATTR_LVALUE | M_ATTR_EQUAL
  | M_ATTR_RVALUE | M_IN_TAG | M_SINGLE_TAG | M_COMMENT | M_COMMENT_DOCTYPE | M_COMMENT_START | M_DOCTYPE
  | M_PROCESSING | M_CDATA

datatype xml_error =
    E_TAG_NOT_CLOSED | E_UNEXPECTED_CDATA | E_UNEXPECTED_CHAR | E_INVALID_ENTITY | E_UNKNOWN_ELEMENT
  | E_BLOCK_NOT_CLOSED | E_TAG_NOT_FINISHED | E_MULTIPL_ROOT | E_TAG_MISMATCH | E_INTERNAL

datatype xml_event =
    DocumentBegin
  | TagOpen string "(string, string) omap"
  | TagClose string
  | Cdata string
  | Comment string
  | Processing string
  | Doctype string
  | DocumentEnd
  | XmlError xml_error int int

record parser =
  entities :: "(string, string) omap"
  current_line :: int
  current_col :: int
  status_new_line :: bool
  status_had_root :: bool
  tag_stack :: "string list"
  attributes_temp :: "(string, string) omap"
  status_parse :: status
  status_stack :: status
  last_char :: char
  before_last_char :: char
  text_buffer1 :: string
  text_buffer2 :: string
  current_tag :: string
  entity_buffer :: string
  skip_whitespaces :: bool
  events :: "xml_event list"

type_synonym parse_step = "fault + bool \<times> parser"

definition Parser :: parser where
  "Parser =
     \<lparr>entities = oinsert ''quot'' [CHR 0x22] (oinsert ''apos'' [CHR 0x27] (oinsert ''amp'' ''&''
        (oinsert ''gt'' ''>'' (oinsert ''lt'' ''<'' [])))),
      current_line = 1, current_col = 0, status_new_line = False, status_had_root = False, tag_stack = [],
      attributes_temp = [], status_parse = M_TOP, status_stack = M_TOP, last_char = NUL, before_last_char = NUL,
      text_buffer1 = [], text_buffer2 = [], current_tag = [], entity_buffer = [], skip_whitespaces = False,
      events = []\<rparr>"

definition call :: "xml_event \<Rightarrow> parser \<Rightarrow> parser" where
  "call e p = p\<lparr>events := events p @ [e]\<rparr>"

definition report :: "xml_error \<Rightarrow> parser \<Rightarrow> parse_step" where
  "report e p = Inr (False, call (XmlError e (current_line p) (current_col p)) p)"

definition continue :: "parser \<Rightarrow> parse_step" where
  "continue p = Inr (True, p)"

definition begin_document :: "parser \<Rightarrow> parser" where
  "begin_document p =
     (call DocumentBegin p)\<lparr>attributes_temp := [], tag_stack := [], last_char := NUL, before_last_char := NUL,
        text_buffer1 := [], text_buffer2 := [], current_tag := [], entity_buffer := [], status_parse := M_TOP,
        current_line := 1, current_col := 0, status_new_line := False, status_had_root := False\<rparr>"

definition IS_SPACE :: "char \<Rightarrow> bool" where
  "IS_SPACE c = (c = CHR '' '' \<or> c = CHR 0x0A \<or> c = CHR 0x09)"

definition IS_LABEL :: "char \<Rightarrow> bool" where
  "IS_LABEL c =
     (isalnum c \<or> c = CHR ''-'' \<or> c = CHR ''_'' \<or> c = CHR ''.'' \<or> c = CHR '':'')"

definition append1 :: "char \<Rightarrow> parser \<Rightarrow> parser" where
  "append1 c p = p\<lparr>text_buffer1 := text_buffer1 p @ [c]\<rparr>"

text \<open>\<open>std::string::substr(0, size() - n)\<close>: the difference is unsigned, so a shorter string stays whole.\<close>

definition chop :: "nat \<Rightarrow> string \<Rightarrow> string" where
  "chop n s = (if n \<le> length s then take (length s - n) s else s)"

definition check_whitespaces :: "parser \<Rightarrow> string \<Rightarrow> bool" where
  "check_whitespaces p cdata =
     (\<not> skip_whitespaces p \<or>
      (\<exists>c \<in> set cdata. c \<noteq> CHR '' '' \<and> c \<noteq> CHR 0x09 \<and> c \<noteq> CHR 0x0D \<and> c \<noteq> CHR 0x0A))"

text \<open>A tag is opened: the tag is pushed and reported, and the attributes are cleared.\<close>

definition open_tag :: "parser \<Rightarrow> parser" where
  "open_tag p =
     (call (TagOpen (current_tag p) (attributes_temp p)) (p\<lparr>tag_stack := current_tag p # tag_stack p\<rparr>))
       \<lparr>text_buffer1 := [], status_parse := M_TEXT, attributes_temp := []\<rparr>"

definition step_top :: "char \<Rightarrow> parser \<Rightarrow> parse_step" where
  "step_top c p =
     (if c = CHR ''<'' then continue (p\<lparr>status_parse := M_START_TAG\<rparr>)
      else if \<not> IS_SPACE c then report E_UNEXPECTED_CDATA p
      else continue p)"

definition step_start_tag :: "char \<Rightarrow> parser \<Rightarrow> parse_step" where
  "step_start_tag c p =
     (if c = CHR ''?'' \<and> tag_stack p = [] then continue (p\<lparr>status_parse := M_PROCESSING\<rparr>)
      else if c = CHR ''!'' then continue (p\<lparr>status_parse := M_COMMENT_DOCTYPE\<rparr>)
      else if c = CHR ''/'' then continue (p\<lparr>status_parse := M_CLOSE_TAG\<rparr>)
      else if IS_LABEL c then
        if tag_stack p = [] \<and> status_had_root p then report E_MULTIPL_ROOT p
        else continue (p\<lparr>status_parse := M_OPEN_TAG, text_buffer1 := [c]\<rparr>)
      else report E_UNEXPECTED_CHAR p)"

definition step_open_tag :: "char \<Rightarrow> parser \<Rightarrow> parse_step" where
  "step_open_tag c p =
     (if IS_LABEL c then continue (append1 c p)
      else if IS_SPACE c then
        continue (p\<lparr>current_tag := text_buffer1 p, text_buffer1 := [], status_parse := M_IN_TAG\<rparr>)
      else if c = CHR ''/'' then continue (p\<lparr>current_tag := text_buffer1 p, status_parse := M_SINGLE_TAG\<rparr>)
      else if c = CHR ''>'' then
        continue (open_tag (if attributes_temp p = [] then p\<lparr>current_tag := text_buffer1 p\<rparr> else p))
      else report E_UNEXPECTED_CHAR p)"

definition step_single_tag :: "char \<Rightarrow> parser \<Rightarrow> parse_step" where
  "step_single_tag c p =
     (if c = CHR ''>'' then
        let p = call (TagClose (current_tag p)) (call (TagOpen (current_tag p) (attributes_temp p)) p);
            p = p\<lparr>attributes_temp := [], text_buffer1 := []\<rparr>
        in case tag_stack p of
             t # ts \<Rightarrow> continue (p\<lparr>status_parse := M_TEXT, current_tag := t\<rparr>)
           | [] \<Rightarrow> continue (p\<lparr>status_parse := M_TOP, status_had_root := True\<rparr>)
      else report E_UNEXPECTED_CHAR p)"

definition step_processing :: "char \<Rightarrow> parser \<Rightarrow> parse_step" where
  "step_processing c p =
     (if c = CHR ''>'' \<and> last_char p = CHR ''?'' then
        continue ((call (Processing (chop 1 (text_buffer1 p))) p)\<lparr>status_parse := M_TOP, text_buffer1 := []\<rparr>)
      else continue (append1 c p))"

definition step_comment_doctype :: "char \<Rightarrow> parser \<Rightarrow> parse_step" where
  "step_comment_doctype c p =
     (if c = CHR ''-'' then continue (p\<lparr>status_parse := M_COMMENT_START\<rparr>)
      else if c = CHR ''['' then continue (p\<lparr>status_parse := M_DOCTYPE, text_buffer1 := ''[''\<rparr>)
      else if tag_stack p = [] \<and> \<not> status_had_root p then
        continue (p\<lparr>status_parse := M_DOCTYPE, text_buffer1 := [c]\<rparr>)
      else report E_UNEXPECTED_CHAR p)"

definition step_doctype :: "char \<Rightarrow> parser \<Rightarrow> parse_step" where
  "step_doctype c p =
     (if c = CHR ''>'' then
        if length (text_buffer1 p) < 8 then report E_UNKNOWN_ELEMENT p
        else continue ((call (Doctype (text_buffer1 p)) p)\<lparr>status_parse := M_TOP, text_buffer1 := []\<rparr>)
      else
        let p = append1 c p in
        if length (text_buffer1 p) = 7 then
          if text_buffer1 p = ''[CDATA['' then continue (p\<lparr>text_buffer1 := [], status_parse := M_CDATA\<rparr>)
          else if text_buffer1 p \<noteq> ''DOCTYPE'' then report E_UNKNOWN_ELEMENT p
          else continue p
        else continue p)"

definition step_comment_start :: "char \<Rightarrow> parser \<Rightarrow> parse_step" where
  "step_comment_start c p =
     (if c = CHR ''-'' then continue (p\<lparr>status_parse := M_COMMENT\<rparr>) else report E_UNEXPECTED_CHAR p)"

definition step_comment :: "char \<Rightarrow> parser \<Rightarrow> parse_step" where
  "step_comment c p =
     (if c = CHR ''>'' \<and> before_last_char p = CHR ''-'' \<and> last_char p = CHR ''-'' then
        continue ((call (Comment (chop 2 (text_buffer1 p))) p)
          \<lparr>text_buffer1 := [], status_parse := (if tag_stack p \<noteq> [] then M_TEXT else M_TOP)\<rparr>)
      else continue (append1 c p))"

definition step_in_tag :: "char \<Rightarrow> parser \<Rightarrow> parse_step" where
  "step_in_tag c p =
     (if IS_LABEL c then continue (p\<lparr>status_parse := M_ATTR_LVALUE, text_buffer1 := [c]\<rparr>)
      else if IS_SPACE c then continue p
      else if c = CHR ''>'' then continue (open_tag p)
      else if c = CHR ''/'' then continue (p\<lparr>status_parse := M_SINGLE_TAG\<rparr>)
      else report E_UNEXPECTED_CHAR p)"

definition step_attr_lvalue :: "char \<Rightarrow> parser \<Rightarrow> parse_step" where
  "step_attr_lvalue c p =
     (if IS_LABEL c then continue (append1 c p)
      else if c = CHR ''='' then
        continue (p\<lparr>text_buffer2 := text_buffer1 p, text_buffer1 := [], status_parse := M_ATTR_EQUAL\<rparr>)
      else report E_UNEXPECTED_CHAR p)"

definition step_attr_equal :: "char \<Rightarrow> parser \<Rightarrow> parse_step" where
  "step_attr_equal c p =
     (if c = CHR 0x22 then continue (p\<lparr>status_parse := M_ATTR_RVALUE\<rparr>) else report E_UNEXPECTED_CHAR p)"

definition step_attr_rvalue :: "char \<Rightarrow> parser \<Rightarrow> parse_step" where
  "step_attr_rvalue c p =
     (if c = CHR 0x22 then
        continue (p\<lparr>attributes_temp := oinsert (text_buffer2 p) (text_buffer1 p) (attributes_temp p),
          text_buffer1 := [], status_parse := M_IN_TAG\<rparr>)
      else if c = CHR ''&'' then
        continue (p\<lparr>entity_buffer := [], status_stack := status_parse p, status_parse := M_ENTITY\<rparr>)
      else continue (append1 c p))"

text \<open>\<open>strtol\<close> with base 16, on a text that starts with the letter \<open>x\<close> and so with neither white space,
  a sign nor a zero: the value of the hexadecimal digits at its beginning.\<close>

definition hex_digit :: "char \<Rightarrow> nat option" where
  "hex_digit c =
     (let n = of_char c :: nat in
      if 48 \<le> n \<and> n \<le> 57 then Some (n - 48)
      else if 97 \<le> n \<and> n \<le> 102 then Some (n - 87)
      else if 65 \<le> n \<and> n \<le> 70 then Some (n - 55)
      else None)"

fun hex_prefix :: "string \<Rightarrow> nat \<Rightarrow> nat" where
  "hex_prefix [] n = n"
| "hex_prefix (c # s) n = (case hex_digit c of None \<Rightarrow> n | Some d \<Rightarrow> hex_prefix s (16 * n + d))"

fun dec_prefix :: "string \<Rightarrow> nat \<Rightarrow> nat" where
  "dec_prefix [] n = n"
| "dec_prefix (c # s) n = (case digit_val c of None \<Rightarrow> n | Some d \<Rightarrow> dec_prefix s (10 * n + d))"

text \<open>\<open>atoi\<close>, which reads a \<open>long\<close> of 64 bits; only the lowest byte of the result is used.\<close>

definition atoi :: "string \<Rightarrow> int" where
  "atoi s =
     (let s = dropWhile (\<lambda>c. c = CHR '' '' \<or> CHR 0x09 \<le> c \<and> c \<le> CHR 0x0D) s;
          v = (case s of
                 [] \<Rightarrow> 0
               | c # cs \<Rightarrow>
                   if c = CHR ''-'' then - int (dec_prefix cs 0)
                   else if c = CHR ''+'' then int (dec_prefix cs 0)
                   else int (dec_prefix s 0))
      in max (- (2 ^ 63)) (min (2 ^ 63 - 1) v))"

definition byte :: "int \<Rightarrow> char" where
  "byte v = char_of (nat (v mod 256))"

definition step_entity :: "char \<Rightarrow> parser \<Rightarrow> parse_step" where
  "step_entity c p =
     (if c = CHR '';'' then
        let add = (\<lambda>s p. continue (p\<lparr>text_buffer1 := text_buffer1 p @ s, entity_buffer := [], status_parse := status_stack p\<rparr>)) in
        case entity_buffer p of
          [] \<Rightarrow> report E_INVALID_ENTITY p
        | e # es \<Rightarrow>
            if e = CHR ''#'' then
              let p = p\<lparr>entity_buffer := es\<rparr> in
              case es of
                [] \<Rightarrow> report E_INVALID_ENTITY p
              | x # xs \<Rightarrow>
                  if x = CHR ''x'' then
                    if length es \<noteq> 2 then report E_INVALID_ENTITY p
                    else add [byte (int (hex_prefix es 0))] p
                  else add [byte (atoi es)] p
            else
              let (tmp2, ents) = oindex [] (entity_buffer p) (entities p);
                  p = p\<lparr>entities := ents\<rparr>
              in if tmp2 = [] then report E_INVALID_ENTITY p else add tmp2 p
      else continue (p\<lparr>entity_buffer := entity_buffer p @ [c]\<rparr>))"

definition step_cdata :: "char \<Rightarrow> parser \<Rightarrow> parse_step" where
  "step_cdata c p =
     (if c = CHR ''>'' \<and> before_last_char p = CHR '']'' \<and> last_char p = CHR '']'' then
        continue ((call (Cdata (chop 2 (text_buffer1 p))) p)\<lparr>status_parse := M_TEXT, text_buffer1 := []\<rparr>)
      else continue (append1 c p))"

definition step_close_tag :: "char \<Rightarrow> parser \<Rightarrow> parse_step" where
  "step_close_tag c p =
     (if IS_LABEL c then continue (append1 c p)
      else if c = CHR ''>'' then
        if text_buffer1 p \<noteq> current_tag p then report E_TAG_MISMATCH p
        else
          let p = call (TagClose (current_tag p)) p in
          case tag_stack p of
            [] \<Rightarrow> Inl OutOfBounds
          | _ # ts \<Rightarrow>
              let p = p\<lparr>tag_stack := ts, text_buffer1 := []\<rparr> in
              (case ts of
                 [] \<Rightarrow> continue (p\<lparr>status_parse := M_TOP\<rparr>)
               | t # _ \<Rightarrow> continue (p\<lparr>status_parse := M_TEXT, current_tag := t\<rparr>))
      else report E_UNEXPECTED_CHAR p)"

definition step_text :: "char \<Rightarrow> parser \<Rightarrow> parse_step" where
  "step_text c p =
     (if c = CHR ''&'' then continue (p\<lparr>status_stack := status_parse p, status_parse := M_ENTITY\<rparr>)
      else if c = CHR ''<'' then
        let p = p\<lparr>status_parse := M_START_TAG\<rparr> in
        if text_buffer1 p \<noteq> [] then
          continue ((if check_whitespaces p (text_buffer1 p) then call (Cdata (text_buffer1 p)) p else p)\<lparr>text_buffer1 := []\<rparr>)
        else continue p
      else if c = CHR ''>'' then report E_UNEXPECTED_CHAR p
      else continue (append1 c p))"

fun step_status :: "status \<Rightarrow> char \<Rightarrow> parser \<Rightarrow> parse_step" where
  "step_status M_TOP = step_top"
| "step_status M_START_TAG = step_start_tag"
| "step_status M_OPEN_TAG = step_open_tag"
| "step_status M_SINGLE_TAG = step_single_tag"
| "step_status M_PROCESSING = step_processing"
| "step_status M_COMMENT_DOCTYPE = step_comment_doctype"
| "step_status M_DOCTYPE = step_doctype"
| "step_status M_COMMENT_START = step_comment_start"
| "step_status M_COMMENT = step_comment"
| "step_status M_IN_TAG = step_in_tag"
| "step_status M_ATTR_LVALUE = step_attr_lvalue"
| "step_status M_ATTR_EQUAL = step_attr_equal"
| "step_status M_ATTR_RVALUE = step_attr_rvalue"
| "step_status M_ENTITY = step_entity"
| "step_status M_CDATA = step_cdata"
| "step_status M_CLOSE_TAG = step_close_tag"
| "step_status M_TEXT = step_text"

text \<open>The normalization of newlines: \<open>None\<close> if the character is skipped.\<close>

definition newline :: "char \<Rightarrow> parser \<Rightarrow> char option \<times> parser" where
  "newline c p =
     (if c = CHR 0x0A \<and> status_new_line p then (None, p\<lparr>status_new_line := False\<rparr>)
      else if status_new_line p then (Some c, p\<lparr>status_new_line := False\<rparr>)
      else if c = CHR 0x0A then (Some c, p\<lparr>current_line := current_line p + 1, current_col := 0\<rparr>)
      else if c = CHR 0x0D then
        (Some (CHR 0x0A), p\<lparr>status_new_line := True, current_line := current_line p + 1, current_col := 0\<rparr>)
      else (Some c, p\<lparr>current_col := current_col p + 1\<rparr>))"

definition parse_char :: "char \<Rightarrow> parser \<Rightarrow> parse_step" where
  "parse_char c0 p =
     (case newline c0 p of
        (None, p) \<Rightarrow> continue p
      | (Some c, p) \<Rightarrow>
          bind_fault (step_status (status_parse p) c p)
            (\<lambda>(ok, p). if ok then continue (p\<lparr>before_last_char := last_char p, last_char := c\<rparr>) else Inr (False, p)))"

fun parse_chunk :: "string \<Rightarrow> parser \<Rightarrow> parse_step" where
  "parse_chunk [] p = continue p"
| "parse_chunk (c # cs) p =
     bind_fault (parse_char c p) (\<lambda>(ok, p). if ok then parse_chunk cs p else Inr (False, p))"

definition end_error :: "status \<Rightarrow> xml_error" where
  "end_error s =
     (if s \<in> {M_CDATA, M_COMMENT, M_COMMENT_DOCTYPE, M_COMMENT_START} then E_BLOCK_NOT_CLOSED
      else if s \<in> {M_OPEN_TAG, M_CLOSE_TAG, M_SINGLE_TAG, M_ATTR_LVALUE, M_ATTR_EQUAL, M_ATTR_RVALUE, M_START_TAG, M_IN_TAG}
        then E_TAG_NOT_FINISHED
      else if s = M_TEXT then E_TAG_NOT_CLOSED
      else if s = M_ENTITY then E_INVALID_ENTITY
      else E_INTERNAL)"

definition end_document :: "parser \<Rightarrow> parse_step" where
  "end_document p =
     (if status_parse p \<noteq> M_TOP then report (end_error (status_parse p)) p
      else continue (call DocumentEnd p))"

definition parse :: "string \<Rightarrow> parser \<Rightarrow> parse_step" where
  "parse xml p =
     bind_fault (parse_chunk xml (begin_document p)) (\<lambda>(ok, p). if ok then end_document p else Inr (False, p))"

section \<open>Contexts\<close>

definition on_event :: "xml_event \<Rightarrow> (string, string) omap \<Rightarrow> (string, string) omap" where
  "on_event e st =
     (case e of
        DocumentBegin \<Rightarrow> []
      | TagOpen tag_name attributes \<Rightarrow>
          if tag_name = ''parameter'' then
            if ovalue [] attributes ''name'' \<noteq> [] \<and> ovalue [] attributes ''value'' \<noteq> []
            then oinsert (ovalue [] attributes ''name'') (ovalue [] attributes ''value'') st
            else st
          else st
      | _ \<Rightarrow> st)"

text \<open>\<open>XMLContext2Map::parse\<close> and then \<open>context\<close>: the result and the map, for a parser that starts afresh.\<close>

definition parse_context :: "string \<Rightarrow> fault + bool \<times> (string, string) omap" where
  "parse_context xml = bind_fault (parse xml Parser) (\<lambda>(ok, p). Inr (ok, fold on_event (events p) []))"

section \<open>Tags are nested\<close>

text \<open>The tags that are open after a sequence of events; \<open>None\<close> if a tag was closed that was not the
  innermost open one.\<close>

definition nest1 :: "xml_event \<Rightarrow> string list option \<Rightarrow> string list option" where
  "nest1 e st =
     (case e of
        DocumentBegin \<Rightarrow> Some []
      | TagOpen t attrs \<Rightarrow> map_option (\<lambda>ts. t # ts) st
      | TagClose t \<Rightarrow> (case st of Some (u # us) \<Rightarrow> if u = t then Some us else None | _ \<Rightarrow> None)
      | _ \<Rightarrow> st)"

definition open_tags :: "xml_event list \<Rightarrow> string list option" where
  "open_tags evs = fold nest1 evs (Some [])"

lemma open_tags_call [simp]: "open_tags (events (call e p)) = nest1 e (open_tags (events p))"
  by (simp add: open_tags_def call_def)

definition top_ok :: "parser \<Rightarrow> bool" where
  "top_ok p = (tag_stack p = [] \<or> current_tag p = hd (tag_stack p))"

definition status_ok :: "parser \<Rightarrow> bool" where
  "status_ok p =
     (case status_parse p of
        M_TOP \<Rightarrow> tag_stack p = []
      | M_PROCESSING \<Rightarrow> tag_stack p = []
      | M_DOCTYPE \<Rightarrow> top_ok p \<and> (tag_stack p = [] \<or> take 1 (text_buffer1 p) = ''['' \<and> length (text_buffer1 p) < 7)
      | M_ENTITY \<Rightarrow> status_stack p = M_ATTR_RVALUE \<or> status_stack p = M_TEXT \<and> top_ok p
      | M_OPEN_TAG \<Rightarrow> True
      | M_IN_TAG \<Rightarrow> True
      | M_ATTR_LVALUE \<Rightarrow> True
      | M_ATTR_EQUAL \<Rightarrow> True
      | M_ATTR_RVALUE \<Rightarrow> True
      | M_SINGLE_TAG \<Rightarrow> True
      | _ \<Rightarrow> top_ok p)"

definition nested :: "parser \<Rightarrow> bool" where
  "nested p = (open_tags (events p) = Some (tag_stack p) \<and> status_ok p)"

lemmas step_defs = step_top_def step_start_tag_def step_open_tag_def step_single_tag_def step_processing_def
  step_comment_doctype_def step_doctype_def step_comment_start_def step_comment_def step_in_tag_def
  step_attr_lvalue_def step_attr_equal_def step_attr_rvalue_def step_entity_def step_cdata_def step_close_tag_def
  step_text_def

lemmas parser_simps = continue_def report_def append1_def open_tag_def Let_def

lemma call_fields [simp]:
  "tag_stack (call e p) = tag_stack p" "status_parse (call e p) = status_parse p" "current_tag (call e p) = current_tag p"
  "text_buffer1 (call e p) = text_buffer1 p" "status_stack (call e p) = status_stack p" "attributes_temp (call e p) = attributes_temp p"
  by (simp_all add: call_def)

lemma nested_step:
  assumes "nested p" "status_parse p = s" "step_status s c p = Inr (True, q)"
  shows "nested q"
proof -
  have "open_tags (events p) = Some (tag_stack p)" "status_ok p" using assms(1) by (simp_all add: nested_def)
  then show ?thesis
    using assms(2,3)
    by (cases s)
      (auto simp: nested_def status_ok_def step_defs parser_simps top_ok_def nest1_def take_Suc hd_append
        split: if_splits list.splits prod.splits)
qed

lemma step_fault:
  "step_status s c p = Inl f \<Longrightarrow> s = M_CLOSE_TAG \<and> tag_stack p = [] \<and> f = OutOfBounds"
  by (cases s) (auto simp: step_defs parser_simps split: if_splits list.splits prod.splits)

lemma nested_position [simp]:
  "nested (p\<lparr>status_new_line := b\<rparr>) = nested p" "nested (p\<lparr>current_line := l\<rparr>) = nested p"
  "nested (p\<lparr>current_col := l\<rparr>) = nested p" "nested (p\<lparr>last_char := c\<rparr>) = nested p"
  "nested (p\<lparr>before_last_char := c\<rparr>) = nested p"
  by (simp_all add: nested_def status_ok_def top_ok_def cong: status.case_cong)

lemma newline_nested: "newline c p = (x, q) \<Longrightarrow> nested q = nested p"
  by (auto simp: newline_def split: if_splits)

lemma parse_char_nested:
  assumes "nested p" "parse_char c p = Inr (True, q)"
  shows "nested q"
proof -
  obtain x p1 where n: "newline c p = (x, p1)" by fastforce
  with assms(1) have p1: "nested p1" using newline_nested by blast
  show ?thesis
  proof (cases x)
    case None
    with n assms(2) p1 show ?thesis by (simp add: parse_char_def continue_def)
  next
    case (Some d)
    from n assms(2) Some obtain q1 where q1: "step_status (status_parse p1) d p1 = Inr (True, q1)"
      "q = q1\<lparr>before_last_char := last_char q1, last_char := d\<rparr>"
      by (auto simp: parse_char_def bind_fault_Inr_iff continue_def split: if_splits)
    from nested_step [OF p1 refl q1(1)] q1(2) show ?thesis by simp
  qed
qed

lemma parse_chunk_nested:
  "nested p \<Longrightarrow> parse_chunk cs p = Inr (True, q) \<Longrightarrow> nested q"
proof (induction cs arbitrary: p)
  case (Cons c cs)
  then show ?case using parse_char_nested by (auto simp: bind_fault_Inr_iff split: if_splits)
qed (simp add: continue_def)

lemma begin_nested: "nested (begin_document p)"
  by (simp add: nested_def status_ok_def begin_document_def nest1_def)

lemma parse_chunk_append:
  "parse_chunk (xs @ ys) p = bind_fault (parse_chunk xs p) (\<lambda>(ok, p). if ok then parse_chunk ys p else Inr (False, p))"
proof (induction xs arbitrary: p)
  case Nil
  show ?case by (simp add: continue_def)
next
  case (Cons c cs)
  show ?case
    by (cases "parse_char c p") (auto simp: Cons)
qed

text \<open>
  In every document that the parser accepts, whatever state earlier documents have left it in, the tags
  that are opened and closed are properly nested, and all of them are closed at the end.
\<close>

theorem accepted_documents_nest:
  assumes "parse xml p = Inr (True, q)"
  shows "open_tags (events q) = Some []"
proof -
  from assms obtain p1 where p1: "parse_chunk xml (begin_document p) = Inr (True, p1)" "end_document p1 = Inr (True, q)"
    by (auto simp: parse_def bind_fault_Inr_iff split: if_splits)
  have "nested p1" using begin_nested p1(1) by (rule parse_chunk_nested)
  with p1(2) show ?thesis
    by (auto simp: end_document_def nested_def status_ok_def continue_def report_def nest1_def split: if_splits)
qed

text \<open>
  A closing tag at the beginning of a document that names nothing makes the parser pop its empty
  stack of tags, whatever follows it and whatever was parsed before.
\<close>

theorem close_tag_underflow: "parse (''</>'' @ rest) p = Inl OutOfBounds"
  by (simp add: parse_def parse_char_def newline_def begin_document_def call_def continue_def step_top_def
      step_start_tag_def step_close_tag_def IS_LABEL_def isalnum_def isalpha_def)

text \<open>
  Only a root element that is written as a single tag counts as the root of a document: a second
  root element after one that has a closing tag is accepted.
\<close>

theorem second_root_accepted:
  "map_sum id fst (parse ''<a></a><b></b>'' Parser) = Inr True \<and>
   map_sum id fst (parse ''<a/><b></b>'' Parser) = Inr False"
  by code_simp

theorem accepted_documents_nest_witness:
  "map_sum id (\<lambda>(ok, q). (ok, open_tags (events q))) (parse ''<a><b/>x</a>'' Parser) = Inr (True, Some [])"
proof -
  obtain q where q: "parse ''<a><b/>x</a>'' Parser = Inr (True, q)"
  proof -
    have "map_sum id fst (parse ''<a><b/>x</a>'' Parser) = Inr True" by code_simp
    then show thesis using that by (cases "parse ''<a><b/>x</a>'' Parser") (auto simp: prod_eq_iff)
  qed
  from accepted_documents_nest [OF q] show ?thesis by (simp add: q)
qed

end
