(* ===== verification/Program_Data.thy ===== *)
theory Program_Data
  imports Text_Functions
begin

text \<open>
  The data the transition rules are about: domains (\<open>domain.cpp\<close>), variable types (\<open>variabletypes.cpp\<close>),
  the actions and variables of programs (\<open>programaction.cpp\<close>, \<open>programvariable.cpp\<close>) and programs
  (\<open>program.cpp\<close>).

  An object is a record of its members; the getters are the selectors, and the setters that only
  assign a member are record updates.  The null string and the empty string compare equal in the
  code and are both the empty list.  The static table of the values assigned to variables is passed
  explicitly.
\<close>

section \<open>Domains\<close>

record domain =
  dom_name :: string
  dom_display_name :: string
  dom_icon_path :: string
  dom_description :: string
  dom_confidentiality :: int
  dom_reliability :: int

definition ConfidentialityMin :: int where "ConfidentialityMin = 0"
definition ConfidentialityDefault :: int where "ConfidentialityDefault = ConfidentialityMin"
definition ConfidentialityMax :: int where "ConfidentialityMax = 100"
definition ReliabilityMin :: int where "ReliabilityMin = 0"
definition ReliabilityDefault :: int where "ReliabilityDefault = ReliabilityMin"
definition ReliabilityMax :: int where "ReliabilityMax = 1024"

definition Domain0 :: domain where
  "Domain0 = \<lparr>dom_name = [], dom_display_name = [], dom_icon_path = [], dom_description = [],
     dom_confidentiality = ConfidentialityDefault, dom_reliability = ReliabilityDefault\<rparr>"

definition Domain :: "string \<Rightarrow> string \<Rightarrow> string \<Rightarrow> string \<Rightarrow> int \<Rightarrow> int \<Rightarrow> domain" where
  "Domain name display_name icon_path description confidentiality reliability =
     \<lparr>dom_name = name, dom_display_name = display_name, dom_icon_path = icon_path,
      dom_description = description, dom_confidentiality = confidentiality, dom_reliability = reliability\<rparr>"

definition domain_eq :: "domain \<Rightarrow> domain \<Rightarrow> bool" where
  "domain_eq a b = (dom_name a = dom_name b \<and> dom_display_name a = dom_display_name b \<and>
     dom_icon_path a = dom_icon_path b \<and> dom_description a = dom_description b \<and>
     dom_confidentiality a = dom_confidentiality b \<and> dom_reliability a = dom_reliability b)"

lemma domain_eq_iff [simp]: "domain_eq a b \<longleftrightarrow> a = b"
  by (auto simp: domain_eq_def intro: domain.equality)

section \<open>Variable types\<close>

datatype vartype = TInvalid | TRegExp | TString | TStringList | TInt | TBoolean

definition vartype_toString :: "vartype \<Rightarrow> string" where
  "vartype_toString t =
     (case t of TRegExp \<Rightarrow> ''regexp'' | TString \<Rightarrow> ''string'' | TStringList \<Rightarrow> ''string_list''
      | TInt \<Rightarrow> ''int'' | TBoolean \<Rightarrow> ''boolean'' | TInvalid \<Rightarrow> ''invalid'')"

definition vartype_toStringForDisplay :: "vartype \<Rightarrow> string" where
  "vartype_toStringForDisplay t =
     (case t of TRegExp \<Rightarrow> ''RegExp'' | TString \<Rightarrow> ''String'' | TStringList \<Rightarrow> ''List''
      | TInt \<Rightarrow> ''Integer'' | TBoolean \<Rightarrow> ''Boolean'' | TInvalid \<Rightarrow> ''invalid'')"

definition vartype_fromString :: "string \<Rightarrow> vartype" where
  "vartype_fromString type =
     (let t = str_lower type in
      if t = ''regexp'' then TRegExp
      else if t = ''string'' then TString
      else if t = ''string_list'' then TStringList
      else if t = ''int'' then TInt
      else if t = ''boolean'' then TBoolean
      else TInvalid)"

section \<open>Actions and variables\<close>

record program_action =
  pa_name :: string
  pa_display_name :: string
  pa_description :: string

definition ProgramAction0 :: program_action where
  "ProgramAction0 = \<lparr>pa_name = [], pa_display_name = [], pa_description = []\<rparr>"

record program_variable =
  pv_name :: string
  pv_action :: string
  pv_description :: string
  pv_type :: vartype
  pv_int_min :: string
  pv_int_max :: string
  pv_string_validation :: string
  pv_string_list :: "string list"

definition ProgramVariable0 :: program_variable where
  "ProgramVariable0 = \<lparr>pv_name = [], pv_action = [], pv_description = [], pv_type = TInvalid,
     pv_int_min = [], pv_int_max = [], pv_string_validation = [], pv_string_list = []\<rparr>"

definition ProgramVariable :: "string \<Rightarrow> string \<Rightarrow> string \<Rightarrow> program_variable" where
  "ProgramVariable name action description =
     ProgramVariable0\<lparr>pv_name := name, pv_action := action, pv_description := description,
       pv_type := TRegExp\<rparr>"

definition setType :: "string \<Rightarrow> program_variable \<Rightarrow> bool \<times> program_variable" where
  "setType type v =
     (let v = v\<lparr>pv_type := vartype_fromString type\<rparr> in (pv_type v \<noteq> TInvalid, v))"

definition intRange :: "program_variable \<Rightarrow> string" where
  "intRange v =
     (if pv_int_min v \<noteq> [] \<or> pv_int_max v \<noteq> [] then pv_int_min v @ '':'' @ pv_int_max v else [])"

definition setIntMinimum :: "framework \<Rightarrow> int \<Rightarrow> program_variable \<Rightarrow> program_variable" where
  "setIntMinimum F mn v = v\<lparr>pv_int_min := of_int_str F mn\<rparr>"

definition setIntMaximum :: "framework \<Rightarrow> int \<Rightarrow> program_variable \<Rightarrow> program_variable" where
  "setIntMaximum F mx v = v\<lparr>pv_int_max := of_int_str F mx\<rparr>"

definition setIntRange :: "framework \<Rightarrow> int \<Rightarrow> int \<Rightarrow> program_variable \<Rightarrow> program_variable" where
  "setIntRange F mn mx v = setIntMaximum F mx (setIntMinimum F mn v)"

definition setIntRangeFromString ::
    "framework \<Rightarrow> string \<Rightarrow> program_variable \<Rightarrow> bool \<times> program_variable" where
  "setIntRangeFromString F rng v =
     (if rng \<noteq> [] \<and> hd rng = CHR '':'' then
        (case to_int F (tl rng) of
           None \<Rightarrow> (False, v)
         | Some mx \<Rightarrow> (True, setIntMaximum F mx v))
      else if rng \<noteq> [] \<and> last rng = CHR '':'' then
        (case to_int F (butlast rng) of
           None \<Rightarrow> (False, v)
         | Some mn \<Rightarrow> (True, setIntMinimum F mn v))
      else
        (case str_split (CHR '':'') rng of
           [minStr, maxStr] \<Rightarrow>
             (case to_int F maxStr of
                None \<Rightarrow> (False, v)
              | Some mx \<Rightarrow>
                  let v = setIntMaximum F mx v in
                  (case to_int F minStr of
                     None \<Rightarrow> (False, v)
                   | Some mn \<Rightarrow> (True, setIntMinimum F mn v)))
         | _ \<Rightarrow> (False, v)))"

definition INT_MIN :: int where "INT_MIN = - 2147483648"
definition INT_MAX :: int where "INT_MAX = 2147483647"

definition intMinimum :: "framework \<Rightarrow> program_variable \<Rightarrow> int" where
  "intMinimum F v = (case to_int F (pv_int_min v) of None \<Rightarrow> INT_MIN | Some tmp \<Rightarrow> tmp)"

definition intMaximum :: "framework \<Rightarrow> program_variable \<Rightarrow> int" where
  "intMaximum F v = (case to_int F (pv_int_max v) of None \<Rightarrow> INT_MAX | Some tmp \<Rightarrow> tmp)"

definition stringListAsString :: "program_variable \<Rightarrow> string" where
  "stringListAsString v = '';'' @ str_join '';'' (pv_string_list v) @ '';''"

definition setStringListFromString :: "string \<Rightarrow> program_variable \<Rightarrow> program_variable" where
  "setStringListFromString list v =
     (let l = (if length list > 2 \<and> hd list \<noteq> last list then [list]
               else if length list > 2 then str_split (hd list) (take (length list - 2) (drop 1 list))
               else [])
      in v\<lparr>pv_string_list := l\<rparr>)"

definition validate_int :: "framework \<Rightarrow> program_variable \<Rightarrow> int \<Rightarrow> bool" where
  "validate_int F v value =
     (if pv_type v = TInt then
        if pv_int_min v \<noteq> [] \<and> (case to_int F (pv_int_min v) of None \<Rightarrow> True | Some tmp \<Rightarrow> value < tmp)
        then False
        else if pv_int_max v \<noteq> [] \<and> (case to_int F (pv_int_max v) of None \<Rightarrow> True | Some tmp \<Rightarrow> value > tmp)
        then False
        else True
      else False)"

definition validate :: "framework \<Rightarrow> program_variable \<Rightarrow> string \<Rightarrow> bool" where
  "validate F v value =
     (case pv_type v of
        TRegExp \<Rightarrow> rx_valid F value \<and>
          (pv_string_validation v = [] \<or> rx_match F (pv_string_validation v) value)
      | TString \<Rightarrow> pv_string_validation v = [] \<or> rx_match F (pv_string_validation v) value
      | TStringList \<Rightarrow> value \<in> set (pv_string_list v)
      | TInt \<Rightarrow> (case to_int F value of None \<Rightarrow> False | Some value_i \<Rightarrow> validate_int F v value_i)
      | TBoolean \<Rightarrow> True
      | TInvalid \<Rightarrow> False)"

definition pvar_eq :: "program_variable \<Rightarrow> program_variable \<Rightarrow> bool" where
  "pvar_eq a b = (pv_name a = pv_name b \<and> pv_action a = pv_action b \<and>
     pv_description a = pv_description b \<and> pv_type a = pv_type b \<and> pv_int_min a = pv_int_min b \<and>
     pv_int_max a = pv_int_max b \<and> pv_string_validation a = pv_string_validation b \<and>
     pv_string_list a = pv_string_list b)"

lemma pvar_eq_iff [simp]: "pvar_eq a b \<longleftrightarrow> a = b"
  by (auto simp: pvar_eq_def intro: program_variable.equality)

text \<open>The values assigned to a variable anywhere in the rules, by its name and type.\<close>

type_synonym assigned = "string \<times> vartype \<Rightarrow> string list"

definition assignedValues :: "assigned \<Rightarrow> string \<Rightarrow> vartype \<Rightarrow> string list" where
  "assignedValues a name type = a (name, type)"

definition addAssignedValue :: "string \<Rightarrow> vartype \<Rightarrow> string \<Rightarrow> assigned \<Rightarrow> assigned" where
  "addAssignedValue name type value a =
     (let l = assignedValues a name type
      in a((name, type) := if value \<notin> set l then l @ [value] else l))"

definition clearAssignedValues :: assigned where
  "clearAssignedValues = (\<lambda>_. [])"

section \<open>Programs\<close>

text \<open>\<open>var_map\<close> is a multimap ordered by key, the most recently inserted value of a key first.\<close>

record program =
  app_name :: string
  prog_display_name :: string
  prog_icon_path :: string
  full_path :: string
  prog_description :: string
  prog_actions :: "(string, program_action) omap"
  prog_variables :: "(string, (string, program_variable) omap) omap"
  var_map :: "(string \<times> program_variable) list"

fun mm_insert :: "'k::linorder \<Rightarrow> 'v \<Rightarrow> ('k \<times> 'v) list \<Rightarrow> ('k \<times> 'v) list" where
  "mm_insert k v [] = [(k, v)]"
| "mm_insert k v ((k', v') # m) = (if k \<le> k' then (k, v) # (k', v') # m else (k', v') # mm_insert k v m)"

definition mm_values :: "'k \<Rightarrow> ('k \<times> 'v) list \<Rightarrow> 'v list" where
  "mm_values k m = map snd (filter (\<lambda>p. fst p = k) m)"

definition Program :: "string \<Rightarrow> string \<Rightarrow> string \<Rightarrow> string \<Rightarrow> string \<Rightarrow> program" where
  "Program name display_name icon path description =
     \<lparr>app_name = name, prog_display_name = display_name, prog_icon_path = icon, full_path = path,
      prog_description = description, prog_actions = [], prog_variables = [], var_map = []\<rparr>"

definition Program0 :: program where
  "Program0 = Program [] [] [] [] []"

definition program_isValid :: "framework \<Rightarrow> program \<Rightarrow> bool" where
  "program_isValid F p = (app_name p \<noteq> [] \<and> is_absolute F (full_path p))"

fun setVariables_loop :: "program_variable list \<Rightarrow> program \<Rightarrow> program" where
  "setVariables_loop [] p = p"
| "setVariables_loop (var # vars) p =
     setVariables_loop vars
       (p\<lparr>var_map := mm_insert (pv_name var) var (var_map p),
          prog_variables :=
            (if ocontains (prog_variables p) (pv_action var)
             then oinsert (pv_action var)
                    (oinsert (pv_name var) var (ovalue [] (prog_variables p) (pv_action var)))
                    (prog_variables p)
             else oinsert (pv_action var) (oinsert (pv_name var) var []) (prog_variables p))\<rparr>)"

definition setActionsAndVariables ::
    "(string, program_action) omap \<Rightarrow> program_variable list \<Rightarrow> program \<Rightarrow> program" where
  "setActionsAndVariables actions variables p =
     setVariables_loop variables (p\<lparr>prog_variables := [], var_map := [], prog_actions := actions\<rparr>)"

definition actions_list :: "program \<Rightarrow> program_action list" where
  "actions_list p = ovals (prog_actions p)"

definition actionNames :: "program \<Rightarrow> string list" where
  "actionNames p = okeys (prog_actions p)"

definition variables_list :: "program \<Rightarrow> string \<Rightarrow> program_variable list" where
  "variables_list p action =
     (if ocontains (prog_actions p) action then ovals (ovalue [] (prog_variables p) action)
      else map snd (var_map p))"

definition variableNames :: "program \<Rightarrow> string \<Rightarrow> string list" where
  "variableNames p action =
     (if ocontains (prog_actions p) action then okeys (ovalue [] (prog_variables p) action)
      else map fst (var_map p))"

definition getActionByName :: "program \<Rightarrow> string \<Rightarrow> program_action" where
  "getActionByName p name = ovalue ProgramAction0 (prog_actions p) name"

definition getVariableByName :: "program \<Rightarrow> string \<Rightarrow> string \<Rightarrow> program_variable" where
  "getVariableByName p name action =
     (let vars = mm_values name (var_map p) in
      if vars = [] then ProgramVariable0
      else if action \<noteq> [] then
        (case find (\<lambda>v. pv_action v = action) vars of None \<Rightarrow> ProgramVariable0 | Some v \<Rightarrow> v)
      else hd vars)"

definition program_eq :: "program \<Rightarrow> program \<Rightarrow> bool" where
  "program_eq a b = (app_name a = app_name b \<and> prog_display_name a = prog_display_name b \<and>
     prog_icon_path a = prog_icon_path b \<and> full_path a = full_path b \<and>
     prog_description a = prog_description b)"

section \<open>Lemmas\<close>

lemma mm_insert_set: "set (mm_insert k v m) = insert (k, v) (set m)"
  by (induction k v m rule: mm_insert.induct) auto

lemma mm_insert_sorted: "sorted (map fst m) \<Longrightarrow> sorted (map fst (mm_insert k v m))"
  by (induction k v m rule: mm_insert.induct) (auto simp: mm_insert_set)

lemma mm_values_insert: "sorted (map fst m) \<Longrightarrow>
    mm_values k (mm_insert k' v m) = (if k = k' then v # mm_values k m else mm_values k m)"
  by (induction k' v m rule: mm_insert.induct) (auto simp: mm_values_def filter_empty_conv)

lemma setVariables_loop_var_map:
  "sorted (map fst (var_map p)) \<Longrightarrow>
     sorted (map fst (var_map (setVariables_loop vars p))) \<and>
     mm_values n (var_map (setVariables_loop vars p)) =
       rev (filter (\<lambda>v. pv_name v = n) vars) @ mm_values n (var_map p)"
proof (induction vars arbitrary: p)
  case (Cons v vars)
  then show ?case
    by (simp add: Cons.IH mm_insert_sorted mm_values_insert)
qed simp

lemma find_rev: "find P (rev xs) = (if filter P xs = [] then None else Some (last (filter P xs)))"
  by (induction xs rule: rev_induct) auto

lemma colon_not_in_number: "numbers_ok F \<Longrightarrow> CHR '':'' \<notin> set (of_int_str F i)"
proof
  assume "numbers_ok F" "CHR '':'' \<in> set (of_int_str F i)"
  then have "CHR '':'' = CHR ''-'' \<or> digit_val (CHR '':'') \<noteq> None"
    unfolding numbers_ok_def by blast
  then show False by (simp add: digit_val_def)
qed

lemma vartype_roundtrip [simp]: "vartype_fromString (vartype_toString t) = t"
  by (cases t) (simp_all add: vartype_fromString_def vartype_toString_def str_lower_def char_lower_def Let_def)

text \<open>Parsing the text that \<open>intRange\<close> gives for a variable whose bounds were set (one of them or both)
  sets exactly these bounds.\<close>

lemma setIntRange_intRange:
  assumes "numbers_ok F" "intRange v \<noteq> []"
    and lo: "pv_int_min v = [] \<or> (\<exists>i. c_int i \<and> pv_int_min v = of_int_str F i)"
    and hi: "pv_int_max v = [] \<or> (\<exists>i. c_int i \<and> pv_int_max v = of_int_str F i)"
    and w: "pv_int_min w = []" "pv_int_max w = []"
  shows "setIntRangeFromString F (intRange v) w =
    (True, w\<lparr>pv_int_min := pv_int_min v, pv_int_max := pv_int_max v\<rparr>)"
proof -
  have num: "c_int i \<Longrightarrow> to_int F (of_int_str F i) = Some i" "of_int_str F i \<noteq> []" for i
    using assms(1) by (simp_all add: numbers_ok_def)
  have colon: "CHR '':'' \<notin> set (of_int_str F i)" for i
    using assms(1) by (rule colon_not_in_number)
  have same: "w\<lparr>pv_int_min := []\<rparr> = w" "w\<lparr>pv_int_max := []\<rparr> = w"
    using w by (metis program_variable.surjective program_variable.update_convs(5),
        metis program_variable.surjective program_variable.update_convs(6))
  consider (max) hi where "pv_int_min v = []" "pv_int_max v = of_int_str F hi" "c_int hi"
    | (min) lo where "pv_int_min v = of_int_str F lo" "pv_int_max v = []" "c_int lo"
    | (both) lo hi where "pv_int_min v = of_int_str F lo" "pv_int_max v = of_int_str F hi" "c_int lo" "c_int hi"
    using assms(2) lo hi by (auto simp: intRange_def)
  then show ?thesis
  proof cases
    case max
    then show ?thesis
      using num same by (simp add: intRange_def setIntRangeFromString_def setIntMaximum_def)
  next
    case (min lo)
    have "hd (of_int_str F lo) \<noteq> CHR '':''"
      using num colon by (metis hd_in_set)
    moreover have "w\<lparr>pv_int_min := x, pv_int_max := []\<rparr> = w\<lparr>pv_int_min := x\<rparr>" for x
      using w by (intro program_variable.equality) simp_all
    ultimately show ?thesis
      using min num by (simp add: intRange_def setIntRangeFromString_def setIntMinimum_def)
  next
    case (both lo hi)
    have "hd (of_int_str F lo) \<noteq> CHR '':''" "last (of_int_str F hi) \<noteq> CHR '':''"
      using num colon by (metis hd_in_set, metis last_in_set)
    moreover have "str_split (CHR '':'') (of_int_str F lo @ '':'' @ of_int_str F hi) =
        [of_int_str F lo, of_int_str F hi]"
      using colon by (simp add: str_split_sep str_split_no_sep)
    moreover have "w\<lparr>pv_int_max := y, pv_int_min := x\<rparr> = w\<lparr>pv_int_min := x, pv_int_max := y\<rparr>" for x y
      by (rule program_variable.equality) simp_all
    ultimately show ?thesis
      using both num
      by (simp add: intRange_def setIntRangeFromString_def setIntMinimum_def setIntMaximum_def)
  qed
qed

text \<open>Parsing the text that \<open>stringListAsString\<close> gives restores the list, provided no element contains the
  separator and the list is not the one-element list of the empty string (whose text is that of the
  empty list).\<close>

lemma setStringList_stringListAsString:
  assumes "\<forall>s \<in> set (pv_string_list v). CHR '';'' \<notin> set s" "pv_string_list v \<noteq> [[]]"
  shows "setStringListFromString (stringListAsString v) w = w\<lparr>pv_string_list := pv_string_list v\<rparr>"
proof (cases "pv_string_list v")
  case Nil
  then show ?thesis
    by (simp add: stringListAsString_def setStringListFromString_def)
next
  case (Cons s ss)
  let ?j = "str_join '';'' (pv_string_list v)"
  have "?j \<noteq> []"
    using Cons assms(2) by (cases ss) auto
  moreover have "str_split (CHR '';'') ?j = pv_string_list v"
    using assms(1) Cons by (intro str_split_join) auto
  ultimately show ?thesis
    by (simp add: stringListAsString_def setStringListFromString_def)
qed

section \<open>Properties\<close>

text \<open>Validation of integers.  A value passes \<open>validate\<close> for an integer variable whose bounds are set
  exactly if it is a number within \<open>intMinimum\<close> and \<open>intMaximum\<close>.\<close>

theorem validate_int_range:
  assumes "numbers_ok F" "c_int lo" "c_int hi"
  shows "validate F (setIntRange F lo hi (ProgramVariable0\<lparr>pv_type := TInt\<rparr>)) value \<longleftrightarrow>
           (\<exists>i. to_int F value = Some i \<and>
              intMinimum F (setIntRange F lo hi (ProgramVariable0\<lparr>pv_type := TInt\<rparr>)) \<le> i \<and>
              i \<le> intMaximum F (setIntRange F lo hi (ProgramVariable0\<lparr>pv_type := TInt\<rparr>)))"
  using assms(1) [unfolded numbers_ok_def, rule_format] assms(2,3)
  by (auto simp: validate_def validate_int_def intMinimum_def intMaximum_def setIntRange_def
      setIntMinimum_def setIntMaximum_def split: option.split)

theorem validate_int_range_witness:
  "validate simple_framework
     (setIntRange simple_framework (- 2) 50 (ProgramVariable0\<lparr>pv_type := TInt\<rparr>)) (show_int 42)"
  by (subst validate_int_range [OF simple_framework_numbers])
    (simp_all add: c_int_def simple_framework_def intMinimum_def intMaximum_def setIntRange_def
      setIntMinimum_def setIntMaximum_def parse_show_int)

text \<open>What \<open>getVariableByName\<close> finds after \<open>setActionsAndVariables\<close>: without an action, the last
  variable of that name in the list; with an action, the last one of that name and action; an
  invalid variable when there is none.\<close>

theorem variable_lookup:
  "getVariableByName (setActionsAndVariables acts vars p) name action =
     (let vs = filter (\<lambda>v. pv_name v = name \<and> (action = [] \<or> pv_action v = action)) vars
      in if vs = [] then ProgramVariable0 else last vs)"
proof -
  let ?vs = "filter (\<lambda>v. pv_name v = name) vars"
  have vars: "mm_values name (var_map (setActionsAndVariables acts vars p)) = rev ?vs"
    using setVariables_loop_var_map
      [of "p\<lparr>prog_variables := [], var_map := [], prog_actions := acts\<rparr>" vars name]
    by (simp add: setActionsAndVariables_def mm_values_def)
  show ?thesis
  proof (cases "action = []")
    case True
    then show ?thesis
      by (simp add: getVariableByName_def vars hd_rev Let_def)
  next
    case False
    then show ?thesis
      by (auto simp: getVariableByName_def vars find_rev Let_def conj_commute filter_empty_conv)
  qed
qed

end
