(* ===== verification/Dom_Tree.thy ===== *)
theory Dom_Tree
  imports Program_Data
begin

text \<open>
  XML documents.  The sources read and write their files through the document classes of Qt; the tree
  and the functions on it that are used are modelled here, and \<open>xml_common.h\<close> gives the names.  The
  conversion between a tree and the text of a file is the parameter \<open>xml\<close>, with its documented
  behaviour \<open>xml_ok\<close>: what was written is read back, except that text nodes of white space are dropped.
\<close>

datatype dnode = Element string "(string \<times> string) list" "dnode list" | TextNode string

fun is_element :: "dnode \<Rightarrow> bool" where
  "is_element (Element t as ks) = True"
| "is_element (TextNode s) = False"

fun tagName :: "dnode \<Rightarrow> string" where
  "tagName (Element t as ks) = t"
| "tagName (TextNode s) = []"

fun childNodes :: "dnode \<Rightarrow> dnode list" where
  "childNodes (Element t as ks) = ks"
| "childNodes (TextNode s) = []"

fun dom_attribute :: "dnode \<Rightarrow> string \<Rightarrow> string \<Rightarrow> string" where
  "dom_attribute (Element t as ks) name dflt = (case map_of as name of None \<Rightarrow> dflt | Some v \<Rightarrow> v)"
| "dom_attribute (TextNode s) name dflt = dflt"

abbreviation attribute :: "dnode \<Rightarrow> string \<Rightarrow> string" where
  "attribute e name \<equiv> dom_attribute e name []"

fun dom_text :: "dnode \<Rightarrow> string" where
  "dom_text (Element t as ks) = concat (map dom_text ks)"
| "dom_text (TextNode s) = s"

definition hasChildNodes :: "dnode \<Rightarrow> bool" where
  "hasChildNodes e = (childNodes e \<noteq> [])"

text \<open>The elements that \<open>firstChildElement\<close> and then \<open>nextSiblingElement\<close> give, with or without a tag.\<close>

definition child_elements :: "dnode \<Rightarrow> dnode list" where
  "child_elements e = filter is_element (childNodes e)"

definition children_named :: "string \<Rightarrow> dnode \<Rightarrow> dnode list" where
  "children_named t e = filter (\<lambda>k. is_element k \<and> tagName k = t) (childNodes e)"

definition firstChildElement :: "string \<Rightarrow> dnode \<Rightarrow> dnode option" where
  "firstChildElement t e = (case children_named t e of [] \<Rightarrow> None | k # ks \<Rightarrow> Some k)"

section \<open>Names\<close>

abbreviation TRANSITIONS_XML_ROOT :: string where "TRANSITIONS_XML_ROOT \<equiv> ''PIGA_Transitions''"
abbreviation RULE_TAG :: string where "RULE_TAG \<equiv> ''rule''"
abbreviation RULE_MATCHING_TAG :: string where "RULE_MATCHING_TAG \<equiv> ''matching''"
abbreviation RULE_MRULE_TAG :: string where "RULE_MRULE_TAG \<equiv> ''mrule''"
abbreviation RULE_TRANSITIONS_TAG :: string where "RULE_TRANSITIONS_TAG \<equiv> ''transitions''"
abbreviation RULE_TRANSIT_TAG :: string where "RULE_TRANSIT_TAG \<equiv> ''transit''"
abbreviation RULE_APP_NAME_TAG :: string where "RULE_APP_NAME_TAG \<equiv> ''app_name''"
abbreviation RULE_TRANSIT_TO_TAG :: string where "RULE_TRANSIT_TO_TAG \<equiv> ''to_domain''"
abbreviation RULE_TRANSIT_FROM_TAG :: string where "RULE_TRANSIT_FROM_TAG \<equiv> ''from_domain''"
abbreviation RULE_DISPLAY_NAME_TAG :: string where "RULE_DISPLAY_NAME_TAG \<equiv> ''display_name''"
abbreviation RULE_PROMPT_TAG :: string where "RULE_PROMPT_TAG \<equiv> ''prompt''"
abbreviation RULE_NOTIFY_TAG :: string where "RULE_NOTIFY_TAG \<equiv> ''notify''"
abbreviation LOOP_TAG :: string where "LOOP_TAG \<equiv> ''loop''"
abbreviation LOOP_DOMAINS_TAG :: string where "LOOP_DOMAINS_TAG \<equiv> ''domains''"
abbreviation LOOP_DOMAIN_TAG :: string where "LOOP_DOMAIN_TAG \<equiv> ''loop_domain''"
abbreviation LOOP_DOMAIN_NAME_TAG :: string where "LOOP_DOMAIN_NAME_TAG \<equiv> ''name''"
abbreviation PROGRAM_TAG :: string where "PROGRAM_TAG \<equiv> ''program''"
abbreviation NAME_TAG :: string where "NAME_TAG \<equiv> ''name''"
abbreviation DISPLAY_NAME_TAG :: string where "DISPLAY_NAME_TAG \<equiv> ''display_name''"
abbreviation ICON_TAG :: string where "ICON_TAG \<equiv> ''icon''"
abbreviation CONFIDENTIALITY_TAG :: string where "CONFIDENTIALITY_TAG \<equiv> ''confidentiality''"
abbreviation RELIABILITY_TAG :: string where "RELIABILITY_TAG \<equiv> ''reliability''"
abbreviation FULLPATH_TAG :: string where "FULLPATH_TAG \<equiv> ''full_path''"
abbreviation DESCRIPTION_TAG :: string where "DESCRIPTION_TAG \<equiv> ''description''"
abbreviation NOKILL_ROOT_TAG :: string where "NOKILL_ROOT_TAG \<equiv> ''nokill''"
abbreviation NOKILL_PROGRAM_TAG :: string where "NOKILL_PROGRAM_TAG \<equiv> ''nokill_program''"
abbreviation ACTIONS_TAG :: string where "ACTIONS_TAG \<equiv> ''actions''"
abbreviation ACTION_TAG :: string where "ACTION_TAG \<equiv> ''action''"
abbreviation VARIABLES_TAG :: string where "VARIABLES_TAG \<equiv> ''variables''"
abbreviation VARIABLE_TAG :: string where "VARIABLE_TAG \<equiv> ''variable''"
abbreviation VARIABLE_TYPE_TAG :: string where "VARIABLE_TYPE_TAG \<equiv> ''type''"
abbreviation VARIABLE_STRING_VALIDATION_TAG :: string where "VARIABLE_STRING_VALIDATION_TAG \<equiv> ''validation''"
abbreviation VARIABLE_INT_RANGE_TAG :: string where "VARIABLE_INT_RANGE_TAG \<equiv> ''range''"
abbreviation VARIABLE_STRING_LIST_TAG :: string where "VARIABLE_STRING_LIST_TAG \<equiv> ''list''"
abbreviation DOMAIN_TAG :: string where "DOMAIN_TAG \<equiv> ''domain''"
abbreviation DEFAULT_TAG :: string where "DEFAULT_TAG \<equiv> ''default''"
abbreviation ALLOW_TAG :: string where "ALLOW_TAG \<equiv> ''allow''"
abbreviation DENY_TAG :: string where "DENY_TAG \<equiv> ''deny''"
abbreviation RULE_TRUE :: string where "RULE_TRUE \<equiv> ''true''"
abbreviation RULE_FALSE :: string where "RULE_FALSE \<equiv> ''false''"
abbreviation RULE_DEFAULT_NOTIFY :: string where "RULE_DEFAULT_NOTIFY \<equiv> RULE_FALSE"
abbreviation RULE_DEFAULT_PROMPT :: string where "RULE_DEFAULT_PROMPT \<equiv> RULE_TRUE"

section \<open>Text of documents\<close>

definition blank :: "string \<Rightarrow> bool" where
  "blank s = (\<forall>c \<in> set s. c \<in> set '' \<newline>'' \<or> c = CHR 0x09 \<or> c = CHR 0x0D)"

fun blank_text :: "dnode \<Rightarrow> bool" where
  "blank_text (Element t as ks) = False"
| "blank_text (TextNode s) = blank s"

fun dom_norm :: "dnode \<Rightarrow> dnode" where
  "dom_norm (Element t as ks) = Element t as (map dom_norm (filter (\<lambda>k. \<not> blank_text k) ks))"
| "dom_norm (TextNode s) = TextNode s"

text \<open>Names of elements and attributes, and characters, that can be written.\<close>

definition name_start :: "char \<Rightarrow> bool" where
  "name_start c = (isalpha c \<or> c = CHR ''_'')"

definition name_char :: "char \<Rightarrow> bool" where
  "name_char c = (isalnum c \<or> c = CHR ''_'' \<or> c = CHR ''-'' \<or> c = CHR ''.'')"

definition xml_name :: "string \<Rightarrow> bool" where
  "xml_name s = (s \<noteq> [] \<and> name_start (hd s) \<and> (\<forall>c \<in> set s. name_char c))"

definition plain_string :: "string \<Rightarrow> bool" where
  "plain_string s = (\<forall>c \<in> set s. CHR '' '' \<le> c \<and> c \<le> CHR 0x7E)"

fun dom_writable :: "dnode \<Rightarrow> bool" where
  "dom_writable (Element t as ks) =
     (xml_name t \<and> list_all (\<lambda>(n, v). xml_name n \<and> plain_string v) as \<and> distinct (map fst as) \<and>
      list_all dom_writable ks)"
| "dom_writable (TextNode s) = plain_string s"

record 'doc xml =
  to_text :: "dnode \<Rightarrow> 'doc"
  of_text :: "'doc \<Rightarrow> dnode option"

definition xml_ok :: "'doc xml \<Rightarrow> bool" where
  "xml_ok X = (\<forall>t as ks. dom_writable (Element t as ks) \<longrightarrow>
     of_text X (to_text X (Element t as ks)) = Some (dom_norm (Element t as ks)))"

text \<open>Documents kept as trees, for the examples.\<close>

definition tree_xml :: "dnode xml" where
  "tree_xml = \<lparr>to_text = dom_norm, of_text = Some\<rparr>"

lemma tree_xml_ok: "xml_ok tree_xml"
  by (simp add: xml_ok_def tree_xml_def)

section \<open>Lemmas\<close>

lemma is_element_norm [simp]: "is_element (dom_norm e) = is_element e" "tagName (dom_norm e) = tagName e"
  "dom_attribute (dom_norm e) n d = dom_attribute e n d"
  by (cases e; simp)+

lemma filter_map_norm:
  assumes "\<And>k. blank_text k \<Longrightarrow> \<not> P k" "\<And>k. P (dom_norm k) = P k"
  shows "filter P (map dom_norm (filter (\<lambda>k. \<not> blank_text k) ks)) = map dom_norm (filter P ks)"
  using assms by (induction ks) auto

lemma blank_text_not_element: "blank_text k \<Longrightarrow> \<not> is_element k"
  by (cases k) simp_all

lemma children_norm [simp]:
  "child_elements (dom_norm e) = map dom_norm (child_elements e)"
  "children_named t (dom_norm e) = map dom_norm (children_named t e)"
  using filter_map_norm [of is_element] filter_map_norm [of "\<lambda>k. is_element k \<and> tagName k = t"]
  by (cases e; simp add: child_elements_def children_named_def blank_text_not_element)+

lemma firstChildElement_norm [simp]:
  "firstChildElement t (dom_norm e) = map_option dom_norm (firstChildElement t e)"
  by (simp add: firstChildElement_def split: list.split)

text \<open>A text that survives: empty, or not only white space.\<close>

definition solid :: "string \<Rightarrow> bool" where
  "solid s = (s = [] \<or> \<not> blank s)"

lemma text_norm: "solid s \<Longrightarrow> dom_text (dom_norm (Element t as [TextNode s])) = s"
  by (auto simp: solid_def)

end
