(* ===== verification/Xml_Reading.thy ===== *)
theory Xml_Reading
  imports Xmlsp Dom_Tree
begin

text \<open>
  What the stream parser reports for a document.  The parser handles one character after the other; the
  predicate \<open>runs\<close> says what a piece of text does to its state, and the pieces are put together to
  elements, texts and whole documents.
\<close>

section \<open>Pieces of text\<close>

text \<open>Parser states up to the position in the text, the last characters and the saved state.\<close>

definition at :: "int \<Rightarrow> int \<Rightarrow> char \<Rightarrow> char \<Rightarrow> status \<Rightarrow> parser \<Rightarrow> parser" where
  "at l k x y s p =
     p\<lparr>current_line := l, current_col := k, last_char := x, before_last_char := y, status_stack := s\<rparr>"

definition runs :: "parser \<Rightarrow> string \<Rightarrow> parser \<Rightarrow> bool" where
  "runs p cs q =
     (\<forall>l k x y s. \<exists>l' k' x' y' s'. parse_chunk cs (at l k x y s p) = Inr (True, at l' k' x' y' s' q))"

lemma runsI:
  assumes "\<And>l k x y s. \<exists>l' k' x' y' s'. parse_chunk cs (at l k x y s p) = Inr (True, at l' k' x' y' s' q)"
  shows "runs p cs q"
  using assms by (simp add: runs_def)

lemma runs_Nil: "runs p [] p"
  by (rule runsI) (simp add: continue_def, blast)

lemma runs_append:
  assumes "runs p xs q" "runs q ys r"
  shows "runs p (xs @ ys) r"
proof (rule runsI)
  fix l k x y s
  obtain l1 k1 x1 y1 s1 where "parse_chunk xs (at l k x y s p) = Inr (True, at l1 k1 x1 y1 s1 q)"
    using assms(1) unfolding runs_def by blast
  moreover obtain l2 k2 x2 y2 s2 where "parse_chunk ys (at l1 k1 x1 y1 s1 q) = Inr (True, at l2 k2 x2 y2 s2 r)"
    using assms(2) unfolding runs_def by blast
  ultimately show "\<exists>l' k' x' y' s'. parse_chunk (xs @ ys) (at l k x y s p) = Inr (True, at l' k' x' y' s' r)"
    by (simp add: parse_chunk_append) blast
qed

text \<open>One character that is not a carriage return, in a state that does not use the last characters.\<close>

lemma parse_char_at:
  assumes "\<not> status_new_line p" "c \<noteq> CHR 0x0D"
    "\<And>l k. step_status (status_parse p) c (at l k x y s p) = Inr (True, at l k x y s' q)"
  shows "\<exists>l' k'. parse_char c (at l k x y s p) = Inr (True, at l' k' c x s' q)"
proof -
  have "newline c (at l k x y s p) =
      (Some c, at (if c = CHR 0x0A then l + 1 else l) (if c = CHR 0x0A then 0 else k + 1) x y s p)"
    using assms(1,2) by (simp add: newline_def at_def)
  then obtain l1 k1 where n: "newline c (at l k x y s p) = (Some c, at l1 k1 x y s p)" by blast
  have "status_parse (at l1 k1 x y s p) = status_parse p" by (simp add: at_def)
  then have "parse_char c (at l k x y s p) = Inr (True, (at l1 k1 x y s' q)\<lparr>before_last_char := last_char (at l1 k1 x y s' q), last_char := c\<rparr>)"
    using assms(3) by (simp add: parse_char_def n continue_def)
  moreover have "(at l1 k1 x y s' q)\<lparr>before_last_char := last_char (at l1 k1 x y s' q), last_char := c\<rparr> = at l1 k1 c x s' q"
    by (simp add: at_def)
  ultimately show ?thesis by metis
qed

lemma runs_step:
  assumes "\<not> status_new_line p" "c \<noteq> CHR 0x0D"
    "\<And>l k x y s. step_status (status_parse p) c (at l k x y s p) = Inr (True, at l k x y s q)"
  shows "runs p [c] q"
proof (rule runsI)
  fix l k x y s
  obtain l' k' where "parse_char c (at l k x y s p) = Inr (True, at l' k' c x s q)"
    using parse_char_at [OF assms] by blast
  then have "parse_chunk [c] (at l k x y s p) = Inr (True, at l' k' c x s q)" by (simp add: continue_def)
  then show "\<exists>l' k' x' y' s'. parse_chunk [c] (at l k x y s p) = Inr (True, at l' k' x' y' s' q)" by blast
qed

lemma runs_Cons:
  assumes "\<not> status_new_line p" "c \<noteq> CHR 0x0D"
    "\<And>l k x y s. step_status (status_parse p) c (at l k x y s p) = Inr (True, at l k x y s q)" "runs q cs r"
  shows "runs p (c # cs) r"
  using runs_append [OF runs_step [OF assms(1,2,3)] assms(4)] by simp

text \<open>Texts that are collected in the buffer.\<close>

lemma runs_collect:
  assumes "\<not> status_new_line p" "CHR 0x0D \<notin> set xs"
    "\<And>c q. c \<in> set xs \<Longrightarrow> status_parse q = status_parse p \<Longrightarrow> step_status (status_parse p) c q = Inr (True, append1 c q)"
  shows "runs p xs (p\<lparr>text_buffer1 := text_buffer1 p @ xs\<rparr>)"
  using assms
proof (induction xs arbitrary: p)
  case Nil
  show ?case using runs_Nil [of p] by simp
next
  case (Cons c xs)
  have "runs (append1 c p) xs (p\<lparr>text_buffer1 := text_buffer1 p @ c # xs\<rparr>)"
    using Cons.IH [of "append1 c p"] Cons.prems by (simp add: append1_def)
  moreover have "step_status (status_parse p) c (at l k x y s p) = Inr (True, at l k x y s (append1 c p))" for l k x y s
    using Cons.prems(3) [of c "at l k x y s p"] by (simp add: at_def append1_def)
  ultimately show ?case
    using Cons.prems(1,2) by (intro runs_Cons [of p c "append1 c p"]) auto
qed

lemma runs_name:
  assumes "\<not> status_new_line p" "status_parse p = M_ATTR_RVALUE" "set xs \<inter> {CHR 0x0D, CHR 0x22, CHR ''&''} = {}"
  shows "runs p xs (p\<lparr>text_buffer1 := text_buffer1 p @ xs\<rparr>)"
  using assms by (intro runs_collect) (auto simp: step_attr_rvalue_def continue_def)

lemma runs_entity:
  assumes "\<not> status_new_line p" "status_parse p \<in> {M_ATTR_RVALUE, M_TEXT}" "entities p = entities Parser" "entity_buffer p = []"
    "CHR '';'' \<notin> set e" "CHR 0x0D \<notin> set e" "CHR 0x0A \<notin> set e" "e \<noteq> []" "hd e \<noteq> CHR ''#''"
    "ofind (entities Parser) e = Some t" "t \<noteq> []"
  shows "runs p (CHR ''&'' # e @ '';'') (p\<lparr>text_buffer1 := text_buffer1 p @ t\<rparr>)"
proof (rule runsI)
  fix l k x y s
  have collect: "\<exists>k' x' y'. parse_chunk es (at l k x y (status_parse p) (p\<lparr>status_parse := M_ENTITY, entity_buffer := b\<rparr>)) =
      Inr (True, at l k' x' y' (status_parse p) (p\<lparr>status_parse := M_ENTITY, entity_buffer := b @ es\<rparr>))"
    if "set es \<subseteq> set e" for es b k x y
    using that
  proof (induction es arbitrary: b k x y)
    case Nil
    show ?case by (simp add: continue_def) blast
  next
    case (Cons c es)
    then have "c \<noteq> CHR '';''" "c \<noteq> CHR 0x0D" "c \<noteq> CHR 0x0A" using assms(5,6,7) by auto
    then have "parse_char c (at l k x y (status_parse p) (p\<lparr>status_parse := M_ENTITY, entity_buffer := b\<rparr>)) =
        Inr (True, at l (k + 1) c x (status_parse p) (p\<lparr>status_parse := M_ENTITY, entity_buffer := b @ [c]\<rparr>))"
      using assms(1) by (simp add: parse_char_def newline_def step_entity_def continue_def at_def)
    with Cons.IH [of "k + 1" c x "b @ [c]"] Cons.prems show ?case by simp
  qed
  have 1: "parse_char CHR ''&'' (at l k x y s p) =
      Inr (True, at l (k + 1) CHR ''&'' x (status_parse p) (p\<lparr>status_parse := M_ENTITY, entity_buffer := []\<rparr>))"
    using assms(1,2,4)
    by (auto simp: parse_char_def newline_def step_attr_rvalue_def step_text_def continue_def at_def intro!: parser.equality)
  obtain k' x' y' where 2: "parse_chunk e (at l (k + 1) CHR ''&'' x (status_parse p) (p\<lparr>status_parse := M_ENTITY, entity_buffer := []\<rparr>)) =
      Inr (True, at l k' x' y' (status_parse p) (p\<lparr>status_parse := M_ENTITY, entity_buffer := e\<rparr>))"
    using collect [of e "k + 1" "CHR ''&''" x "[]"] by (simp only: append_Nil) blast
  obtain e0 es where e: "e = e0 # es" "e0 \<noteq> CHR ''#''" using assms(8,9) by (cases e) auto
  have "oindex [] e (entities p) = (t, entities p)"
    using assms(3,10) by (simp add: oindex_def)
  then have 3: "parse_char CHR '';'' (at l k' x' y' (status_parse p) (p\<lparr>status_parse := M_ENTITY, entity_buffer := e\<rparr>)) =
      Inr (True, at l (k' + 1) CHR '';'' x' (status_parse p) (p\<lparr>text_buffer1 := text_buffer1 p @ t\<rparr>))"
    using assms(1,11) e
    by (simp add: parse_char_def newline_def step_entity_def continue_def at_def Let_def)
      (rule parser.equality; simp add: assms(2,4))
  have "parse_chunk (CHR ''&'' # e @ '';'') (at l k x y s p) =
      Inr (True, at l (k' + 1) CHR '';'' x' (status_parse p) (p\<lparr>text_buffer1 := text_buffer1 p @ t\<rparr>))"
    by (simp add: 1 parse_chunk_append 2 3 continue_def)
  then show "\<exists>l' k' x' y' s'. parse_chunk (CHR ''&'' # e @ '';'') (at l k x y s p) =
      Inr (True, at l' k' x' y' s' (p\<lparr>text_buffer1 := text_buffer1 p @ t\<rparr>))" by blast
qed

lemma std_entities:
  "ofind (entities Parser) ''amp'' = Some ''&''" "ofind (entities Parser) ''gt'' = Some ''>''"
  "ofind (entities Parser) ''quot'' = Some [CHR 0x22]" "ofind (entities Parser) ''lt'' = Some ''<''"
  by (simp_all add: Parser_def)

section \<open>Documents\<close>

text \<open>A document as text: special characters are written as entities.  Names are made of the characters the
  parser accepts in them, and two texts do not follow each other.\<close>

definition esc :: "char \<Rightarrow> string" where
  "esc c = (if c = CHR ''&'' then ''&amp;'' else if c = CHR ''<'' then ''&lt;'' else if c = CHR ''>'' then ''&gt;''
            else if c = CHR 0x22 then ''&quot;'' else [c])"

definition escaped :: "string \<Rightarrow> string" where
  "escaped s = concat (map esc s)"

definition attribute_text :: "string \<times> string \<Rightarrow> string" where
  "attribute_text nv = CHR '' '' # fst nv @ [CHR ''='', CHR 0x22] @ escaped (snd nv) @ [CHR 0x22]"

fun document_text :: "dnode \<Rightarrow> string" where
  "document_text (Element t as ks) =
     CHR ''<'' # t @ concat (map attribute_text as) @ ''>'' @ concat (map document_text ks) @ ''</'' @ t @ ''>''"
| "document_text (TextNode s) = escaped s"

definition attribute_map :: "(string \<times> string) list \<Rightarrow> (string, string) omap" where
  "attribute_map as = fold (\<lambda>nv. oinsert (fst nv) (snd nv)) as []"

fun document_events :: "dnode \<Rightarrow> xml_event list" where
  "document_events (Element t as ks) = TagOpen t (attribute_map as) # concat (map document_events ks) @ [TagClose t]"
| "document_events (TextNode s) = [Cdata s]"

definition label :: "string \<Rightarrow> bool" where
  "label s = (s \<noteq> [] \<and> list_all IS_LABEL s)"

fun separate :: "dnode list \<Rightarrow> bool" where
  "separate (a # b # ks) = ((is_element a \<or> is_element b) \<and> separate (b # ks))"
| "separate ks = True"

fun readable :: "dnode \<Rightarrow> bool" where
  "readable (Element t as ks) =
     (label t \<and> list_all (\<lambda>nv. label (fst nv) \<and> CHR 0x0D \<notin> set (snd nv)) as \<and> separate ks \<and> list_all readable ks)"
| "readable (TextNode s) = (s \<noteq> [] \<and> CHR 0x0D \<notin> set s)"

lemma IS_LABEL_char:
  "IS_LABEL c \<Longrightarrow> c \<notin> {CHR 0x0D, CHR ''?'', CHR ''!'', CHR ''/'', CHR ''<'', CHR ''&'', CHR ''>'', CHR ''='', CHR 0x22}"
  by (auto simp: IS_LABEL_def isalnum_def isalpha_def Let_def)

lemma runs_escaped:
  assumes "\<not> status_new_line p" "status_parse p \<in> {M_ATTR_RVALUE, M_TEXT}" "entities p = entities Parser"
    "entity_buffer p = []" "CHR 0x0D \<notin> set v"
  shows "runs p (escaped v) (p\<lparr>text_buffer1 := text_buffer1 p @ v\<rparr>)"
  using assms
proof (induction v arbitrary: p)
  case Nil
  show ?case using runs_Nil [of p] by (simp add: escaped_def)
next
  case (Cons c v)
  note ent = runs_entity [OF Cons.prems(1-4)]
  consider "c \<in> {CHR ''&'', CHR ''<'', CHR ''>'', CHR 0x22}" | "c \<notin> {CHR ''&'', CHR ''<'', CHR ''>'', CHR 0x22}" by blast
  then have 1: "runs p (esc c) (p\<lparr>text_buffer1 := text_buffer1 p @ [c]\<rparr>)"
  proof cases
    case 1
    then show ?thesis
      using ent [of "''amp''"] ent [of "''lt''"] ent [of "''gt''"] ent [of "''quot''"] std_entities
      by (auto simp: esc_def)
  next
    case 2
    then have "esc c = [c]" by (auto simp: esc_def)
    moreover have "runs p [c] (p\<lparr>text_buffer1 := text_buffer1 p @ [c]\<rparr>)"
      using 2 Cons.prems(1,2,5)
      by (intro runs_collect) (auto simp: step_attr_rvalue_def step_text_def continue_def)
    ultimately show ?thesis by simp
  qed
  have 2: "runs (p\<lparr>text_buffer1 := text_buffer1 p @ [c]\<rparr>) (escaped v) (p\<lparr>text_buffer1 := text_buffer1 p @ [c] @ v\<rparr>)"
    using Cons.IH [of "p\<lparr>text_buffer1 := text_buffer1 p @ [c]\<rparr>"] Cons.prems by simp
  from runs_append [OF 1 2] show ?case by (simp add: escaped_def)
qed

lemma runs_label:
  assumes "\<not> status_new_line p" "status_parse p \<in> {M_OPEN_TAG, M_ATTR_LVALUE, M_CLOSE_TAG}" "list_all IS_LABEL xs"
  shows "runs p xs (p\<lparr>text_buffer1 := text_buffer1 p @ xs\<rparr>)"
proof (rule runs_collect [OF assms(1)])
  show "CHR 0x0D \<notin> set xs" using assms(3) IS_LABEL_char by (auto simp: list_all_iff)
  show "step_status (status_parse p) c q = Inr (True, append1 c q)" if "c \<in> set xs" "status_parse q = status_parse p" for c q
    using that assms(2,3)
    by (auto simp: list_all_iff step_open_tag_def step_attr_lvalue_def step_close_tag_def continue_def)
qed

lemmas step_simps = step_status.simps step_top_def step_start_tag_def step_open_tag_def step_in_tag_def step_attr_lvalue_def
  step_attr_equal_def step_attr_rvalue_def step_close_tag_def step_text_def continue_def call_def open_tag_def at_def Let_def

lemma not_label [simp]:
  "\<not> IS_LABEL (CHR ''='')" "\<not> IS_LABEL (CHR ''>'')" "\<not> IS_LABEL (CHR ''/'')" "\<not> IS_LABEL (CHR '' '')" "IS_SPACE (CHR '' '')"
  "\<not> IS_SPACE (CHR ''>'')"
  by (simp_all add: IS_LABEL_def isalnum_def isalpha_def IS_SPACE_def)

text \<open>An attribute and the attributes of a tag.\<close>

lemma runs_attribute:
  assumes "\<not> status_new_line p" "status_parse p = M_IN_TAG" "entities p = entities Parser" "entity_buffer p = []"
    "label (fst nv)" "CHR 0x0D \<notin> set (snd nv)"
  shows "runs p (fst nv @ [CHR ''='', CHR 0x22] @ escaped (snd nv) @ [CHR 0x22])
    (p\<lparr>attributes_temp := oinsert (fst nv) (snd nv) (attributes_temp p), text_buffer1 := [], text_buffer2 := fst nv\<rparr>)"
proof -
  obtain c cs where n: "fst nv = c # cs" "IS_LABEL c" "list_all IS_LABEL cs"
    using assms(5) by (cases "fst nv") (auto simp: label_def)
  define p1 where "p1 = p\<lparr>status_parse := M_ATTR_LVALUE, text_buffer1 := [c]\<rparr>"
  define p2 where "p2 = p1\<lparr>text_buffer1 := fst nv\<rparr>"
  define p3 where "p3 = p2\<lparr>text_buffer2 := fst nv, text_buffer1 := [], status_parse := M_ATTR_EQUAL\<rparr>"
  define p4 where "p4 = p3\<lparr>status_parse := M_ATTR_RVALUE\<rparr>"
  define p5 where "p5 = p4\<lparr>text_buffer1 := snd nv\<rparr>"
  have 1: "runs p [c] p1"
    using assms(1,2) n(2) IS_LABEL_char [OF n(2)] by (intro runs_step) (simp_all add: step_simps p1_def)
  have 2: "runs p1 cs p2" using runs_label [of p1 cs] assms(1) n by (simp add: p1_def p2_def)
  have 3: "runs p2 [CHR ''=''] p3"
    using assms(1) by (intro runs_step) (simp_all add: step_simps p1_def p2_def p3_def)
  have 4: "runs p3 [CHR 0x22] p4"
    using assms(1) by (intro runs_step) (simp_all add: step_simps p1_def p2_def p3_def p4_def)
  have 5: "runs p4 (escaped (snd nv)) p5"
    using runs_escaped [of p4 "snd nv"] assms(1,3,4,6) by (simp add: p1_def p2_def p3_def p4_def p5_def)
  have 6: "runs p5 [CHR 0x22]
      (p\<lparr>attributes_temp := oinsert (fst nv) (snd nv) (attributes_temp p), text_buffer1 := [], text_buffer2 := fst nv\<rparr>)"
    using assms(1,2) by (intro runs_step) (simp_all add: step_simps p1_def p2_def p3_def p4_def p5_def)
  show ?thesis
    using runs_append [OF 1 runs_append [OF 2 runs_append [OF 3 runs_append [OF 4 runs_append [OF 5 6]]]]]
    by (simp add: n(1))
qed

lemma runs_attributes:
  assumes "\<not> status_new_line p" "status_parse p = M_IN_TAG" "entities p = entities Parser" "entity_buffer p = []"
    "text_buffer1 p = []" "list_all (\<lambda>nv. label (fst nv) \<and> CHR 0x0D \<notin> set (snd nv)) as"
  shows "\<exists>b. runs p (concat (map attribute_text as))
    (p\<lparr>attributes_temp := fold (\<lambda>nv. oinsert (fst nv) (snd nv)) as (attributes_temp p), text_buffer2 := b\<rparr>)"
  using assms
proof (induction as arbitrary: p)
  case Nil
  have "runs p [] (p\<lparr>text_buffer2 := text_buffer2 p\<rparr>)" using runs_Nil [of p] by simp
  then show ?case by (intro exI [of _ "text_buffer2 p"]) simp
next
  case (Cons nv as)
  define q where "q = p\<lparr>attributes_temp := oinsert (fst nv) (snd nv) (attributes_temp p), text_buffer1 := [], text_buffer2 := fst nv\<rparr>"
  have 1: "runs p [CHR '' ''] p"
    using Cons.prems(1,2) by (intro runs_step) (simp_all add: step_simps)
  have 2: "runs p (fst nv @ [CHR ''='', CHR 0x22] @ escaped (snd nv) @ [CHR 0x22]) q"
    unfolding q_def using Cons.prems by (intro runs_attribute) simp_all
  obtain b where 3: "runs q (concat (map attribute_text as))
      (q\<lparr>attributes_temp := fold (\<lambda>nv. oinsert (fst nv) (snd nv)) as (attributes_temp q), text_buffer2 := b\<rparr>)"
    using Cons.IH [of q] Cons.prems by (auto simp: q_def)
  have "q\<lparr>attributes_temp := fold (\<lambda>nv. oinsert (fst nv) (snd nv)) as (attributes_temp q), text_buffer2 := b\<rparr> =
      p\<lparr>attributes_temp := fold (\<lambda>nv. oinsert (fst nv) (snd nv)) (nv # as) (attributes_temp p), text_buffer2 := b\<rparr>"
    using Cons.prems(5) by (intro parser.equality) (simp_all add: q_def)
  with runs_append [OF 1 runs_append [OF 2 3]] show ?case by (auto simp: attribute_text_def [of nv])
qed

text \<open>The start of an element, from the character after the angle bracket.\<close>

definition tag_opened :: "string \<Rightarrow> (string \<times> string) list \<Rightarrow> string \<Rightarrow> parser \<Rightarrow> parser" where
  "tag_opened t as b p = p\<lparr>tag_stack := t # tag_stack p, current_tag := t, text_buffer1 := [], text_buffer2 := b,
     status_parse := M_TEXT, events := events p @ [TagOpen t (attribute_map as)]\<rparr>"

lemma runs_start_tag:
  assumes "\<not> status_new_line p" "status_parse p = M_START_TAG" "entities p = entities Parser" "entity_buffer p = []"
    "attributes_temp p = []" "\<not> status_had_root p"
    "label t" "list_all (\<lambda>nv. label (fst nv) \<and> CHR 0x0D \<notin> set (snd nv)) as"
  shows "\<exists>b. runs p (t @ concat (map attribute_text as) @ ''>'') (tag_opened t as b p)"
proof -
  obtain c cs where t: "t = c # cs" "IS_LABEL c" "list_all IS_LABEL cs"
    using assms(7) by (cases t) (auto simp: label_def)
  define p1 where "p1 = p\<lparr>status_parse := M_OPEN_TAG, text_buffer1 := [c]\<rparr>"
  define p2 where "p2 = p1\<lparr>text_buffer1 := t\<rparr>"
  have 1: "runs p [c] p1"
    using assms(1,2,6) t(2) IS_LABEL_char [OF t(2)] by (intro runs_step) (simp_all add: step_simps p1_def)
  have 2: "runs p1 cs p2" using runs_label [of p1 cs] assms(1) t by (simp add: p1_def p2_def)
  have name: "runs p t p2" using runs_append [OF 1 2] by (simp add: t(1))
  show ?thesis
  proof (cases as)
    case Nil
    have "runs p2 [CHR ''>''] (tag_opened t as (text_buffer2 p) p)"
      using assms(1,5) by (intro runs_step)
        (auto simp: step_simps p1_def p2_def tag_opened_def Nil attribute_map_def intro!: parser.equality)
    from runs_append [OF name this] Nil show ?thesis by (simp, blast)
  next
    case (Cons nv as')
    define p3 where "p3 = p2\<lparr>current_tag := t, text_buffer1 := [], status_parse := M_IN_TAG\<rparr>"
    define p4 where "p4 = p3\<lparr>attributes_temp := oinsert (fst nv) (snd nv) [], text_buffer1 := [], text_buffer2 := fst nv\<rparr>"
    have 3: "runs p2 [CHR '' ''] p3"
      using assms(1) by (intro runs_step) (simp_all add: step_simps p1_def p2_def p3_def)
    have 4: "runs p3 (fst nv @ [CHR ''='', CHR 0x22] @ escaped (snd nv) @ [CHR 0x22]) p4"
      using runs_attribute [of p3 nv] assms Cons by (simp add: p1_def p2_def p3_def p4_def)
    obtain b where 5: "runs p4 (concat (map attribute_text as'))
        (p4\<lparr>attributes_temp := attribute_map as, text_buffer2 := b\<rparr>)"
      using runs_attributes [of p4 as'] assms Cons by (auto simp: p1_def p2_def p3_def p4_def attribute_map_def)
    have 6: "runs (p4\<lparr>attributes_temp := attribute_map as, text_buffer2 := b\<rparr>) [CHR ''>''] (tag_opened t as b p)"
      using assms(1,5) by (intro runs_step)
        (auto simp: step_simps p1_def p2_def p3_def p4_def tag_opened_def intro!: parser.equality)
    from runs_append [OF name runs_append [OF 3 runs_append [OF 4 runs_append [OF 5 6]]]] Cons
    show ?thesis by (auto simp: attribute_text_def [of nv])
  qed
qed

text \<open>Inside an element; what has been seen includes the text in the buffer.\<close>

definition content :: "string \<Rightarrow> string list \<Rightarrow> parser \<Rightarrow> bool" where
  "content t ts p =
     (\<not> status_new_line p \<and> status_parse p = M_TEXT \<and> tag_stack p = t # ts \<and> current_tag p = t \<and> attributes_temp p = [] \<and>
      entity_buffer p = [] \<and> entities p = entities Parser \<and> \<not> skip_whitespaces p \<and> \<not> status_had_root p)"

definition seen :: "parser \<Rightarrow> xml_event list" where
  "seen p = events p @ (if text_buffer1 p = [] then [] else [Cdata (text_buffer1 p)])"

lemma runs_flush:
  assumes "content t ts p"
  shows "runs p [CHR ''<''] (p\<lparr>status_parse := M_START_TAG, events := seen p, text_buffer1 := []\<rparr>)"
  using assms unfolding content_def
  by (intro runs_step) (simp_all add: step_simps seen_def check_whitespaces_def)

text \<open>The state after the end of an element inside the elements \<open>us\<close>.\<close>

definition after_element :: "string list \<Rightarrow> string \<Rightarrow> xml_event list \<Rightarrow> parser \<Rightarrow> parser" where
  "after_element us t evs p = p\<lparr>events := evs, text_buffer1 := [], tag_stack := us,
     status_parse := (if us = [] then M_TOP else M_TEXT), current_tag := (if us = [] then t else hd us)\<rparr>"

lemma runs_end_tag:
  assumes "content t ts p" "label t"
  shows "runs p (''</'' @ t @ ''>'') (after_element ts t (seen p @ [TagClose t]) p)"
proof -
  note p = assms(1) [unfolded content_def]
  define p1 where "p1 = p\<lparr>status_parse := M_START_TAG, events := seen p, text_buffer1 := []\<rparr>"
  define p2 where "p2 = p1\<lparr>status_parse := M_CLOSE_TAG\<rparr>"
  define p3 where "p3 = p2\<lparr>text_buffer1 := t\<rparr>"
  have 1: "runs p [CHR ''<''] p1" unfolding p1_def by (rule runs_flush [OF assms(1)])
  have 2: "runs p1 [CHR ''/''] p2" using p by (intro runs_step) (simp_all add: step_simps p1_def p2_def)
  have 3: "runs p2 t p3" using runs_label [of p2 t] p assms(2) by (simp add: label_def p1_def p2_def p3_def)
  have 4: "runs p3 [CHR ''>''] (after_element ts t (seen p @ [TagClose t]) p)"
    using p by (intro runs_step) (auto simp: step_simps after_element_def p1_def p2_def p3_def split: list.split intro!: parser.equality)
  from runs_append [OF 1 runs_append [OF 2 runs_append [OF 3 4]]] show ?thesis by simp
qed

lemma runs_nodes:
  assumes "\<And>k p. k \<in> set ks \<Longrightarrow> content t ts p \<Longrightarrow> is_element k \<or> text_buffer1 p = [] \<Longrightarrow>
      \<exists>q. runs p (document_text k) q \<and> content t ts q \<and> seen q = seen p @ document_events k \<and> (is_element k \<longrightarrow> text_buffer1 q = [])"
    "separate ks" "content t ts p" "ks = [] \<or> is_element (hd ks) \<or> text_buffer1 p = []"
  shows "\<exists>q. runs p (concat (map document_text ks)) q \<and> content t ts q \<and> seen q = seen p @ concat (map document_events ks)"
  using assms
proof (induction ks arbitrary: p)
  case Nil
  then show ?case using runs_Nil [of p] by auto
next
  case (Cons k ks)
  obtain q where q: "runs p (document_text k) q" "content t ts q" "seen q = seen p @ document_events k"
      "is_element k \<longrightarrow> text_buffer1 q = []"
    using Cons.prems(1) [of k p] Cons.prems(3,4) by auto
  have "separate ks" "ks = [] \<or> is_element (hd ks) \<or> text_buffer1 q = []"
    using Cons.prems(2) q(4) by (cases ks; auto)+
  then obtain r where "runs q (concat (map document_text ks)) r" "content t ts r"
      "seen r = seen q @ concat (map document_events ks)"
    using Cons.IH [of q] Cons.prems(1) q(2) by (metis list.set_intros(2))
  with runs_append [OF q(1)] q(3) show ?case by auto
qed

text \<open>An element after its opening bracket, up to its end.\<close>

definition element_rest :: "string \<Rightarrow> (string \<times> string) list \<Rightarrow> dnode list \<Rightarrow> string" where
  "element_rest t as ks =
     t @ concat (map attribute_text as) @ ''>'' @ concat (map document_text ks) @ ''</'' @ t @ ''>''"

lemma runs_element:
  assumes "readable (Element t as ks)"
    and "\<not> status_new_line p" "status_parse p = M_START_TAG" "entities p = entities Parser" "entity_buffer p = []"
    "attributes_temp p = []" "\<not> status_had_root p" "\<not> skip_whitespaces p" "tag_stack p = us"
    and "\<And>k p. k \<in> set ks \<Longrightarrow> content t us p \<Longrightarrow> is_element k \<or> text_buffer1 p = [] \<Longrightarrow>
      \<exists>q. runs p (document_text k) q \<and> content t us q \<and> seen q = seen p @ document_events k \<and> (is_element k \<longrightarrow> text_buffer1 q = [])"
  shows "\<exists>q. runs p (element_rest t as ks) (after_element us t (events p @ document_events (Element t as ks)) q) \<and> content t us q"
proof -
  obtain b where 1: "runs p (t @ concat (map attribute_text as) @ ''>'') (tag_opened t as b p)"
    using runs_start_tag [OF assms(2-7)] assms(1) by auto
  have "content t us (tag_opened t as b p)" using assms(2-9) by (simp add: content_def tag_opened_def)
  moreover have "seen (tag_opened t as b p) = events p @ [TagOpen t (attribute_map as)]" by (simp add: seen_def tag_opened_def)
  moreover have "text_buffer1 (tag_opened t as b p) = []" by (simp add: tag_opened_def)
  ultimately obtain q where 2: "runs (tag_opened t as b p) (concat (map document_text ks)) q" "content t us q"
      "seen q = events p @ [TagOpen t (attribute_map as)] @ concat (map document_events ks)"
    using runs_nodes [of ks t us "tag_opened t as b p"] assms(1,10) by auto
  have "label t" using assms(1) by simp
  from runs_append [OF 1 runs_append [OF 2(1) runs_end_tag [OF 2(2) this]]] 2(2,3) show ?thesis
    by (auto simp: element_rest_def)
qed

lemma runs_node:
  assumes "readable n" "content t ts p" "is_element n \<or> text_buffer1 p = []"
  shows "\<exists>q. runs p (document_text n) q \<and> content t ts q \<and> seen q = seen p @ document_events n \<and>
    (is_element n \<longrightarrow> text_buffer1 q = [])"
  using assms
proof (induction n arbitrary: t ts p)
  case (Element u as ks)
  note p = Element.prems(2) [unfolded content_def]
  define p1 where "p1 = p\<lparr>status_parse := M_START_TAG, events := seen p, text_buffer1 := []\<rparr>"
  have 1: "runs p [CHR ''<''] p1" unfolding p1_def by (rule runs_flush [OF Element.prems(2)])
  have "\<exists>q. runs p1 (element_rest u as ks) (after_element (t # ts) u (events p1 @ document_events (Element u as ks)) q) \<and>
      content u (t # ts) q"
  proof (rule runs_element [OF Element.prems(1)])
    fix k p
    assume k: "k \<in> set ks" "content u (t # ts) p" "is_element k \<or> text_buffer1 p = []"
    have "readable k" using Element.prems(1) k(1) by (simp add: list_all_iff)
    from Element.IH [OF k(1) this k(2,3)]
    show "\<exists>q. runs p (document_text k) q \<and> content u (t # ts) q \<and> seen q = seen p @ document_events k \<and>
      (is_element k \<longrightarrow> text_buffer1 q = [])" .
  qed (use p in \<open>simp_all add: p1_def\<close>)
  then obtain q where 2: "runs p1 (element_rest u as ks) (after_element (t # ts) u (events p1 @ document_events (Element u as ks)) q)"
      "content u (t # ts) q" by blast
  define r where "r = after_element (t # ts) u (events p1 @ document_events (Element u as ks)) q"
  have "runs p (document_text (Element u as ks)) r"
    using runs_append [OF 1 2(1)] by (simp add: r_def element_rest_def)
  moreover have "content t ts r" using 2(2) by (simp add: content_def r_def after_element_def)
  moreover have "seen r = seen p @ document_events (Element u as ks)" "text_buffer1 r = []"
    by (simp_all add: seen_def r_def after_element_def p1_def)
  ultimately show ?case by blast
next
  case (TextNode s)
  then have "runs p (document_text (TextNode s)) (p\<lparr>text_buffer1 := s\<rparr>)"
    using runs_escaped [of p s] by (simp add: content_def)
  with TextNode show ?case by (intro exI conjI) (assumption | simp add: seen_def content_def)+
qed

lemma parse_tree:
  assumes "readable (Element t as ks)" "entities p0 = entities Parser" "\<not> skip_whitespaces p0"
  shows "\<exists>q. parse (document_text (Element t as ks)) p0 = Inr (True, q) \<and> entities q = entities Parser \<and>
    \<not> skip_whitespaces q \<and> events q = events p0 @ [DocumentBegin] @ document_events (Element t as ks) @ [DocumentEnd]"
proof -
  define p where "p = (begin_document p0)\<lparr>status_parse := M_START_TAG\<rparr>"
  have "\<exists>q. runs p (element_rest t as ks) (after_element [] t (events p @ document_events (Element t as ks)) q) \<and> content t [] q"
  proof (rule runs_element [OF assms(1)])
    fix k p
    assume k: "k \<in> set ks" "content t [] p" "is_element k \<or> text_buffer1 p = []"
    have "readable k" using assms k(1) by (simp add: list_all_iff)
    from runs_node [OF this k(2,3)]
    show "\<exists>q. runs p (document_text k) q \<and> content t [] q \<and> seen q = seen p @ document_events k \<and>
      (is_element k \<longrightarrow> text_buffer1 q = [])" .
  qed (use assms(2,3) in \<open>simp_all add: p_def begin_document_def call_def\<close>)
  then obtain q where q: "runs p (element_rest t as ks) (after_element [] t (events p @ document_events (Element t as ks)) q)"
    "content t [] q" by blast
  define r where "r = after_element [] t (events p @ document_events (Element t as ks)) q"
  have "parse_char CHR ''<'' (begin_document p0) = Inr (True, at 1 1 CHR ''<'' NUL (status_stack p0) p)"
    by (simp add: parse_char_def newline_def step_simps p_def begin_document_def)
  moreover obtain l k x y s where
    "parse_chunk (element_rest t as ks) (at 1 1 CHR ''<'' NUL (status_stack p0) p) = Inr (True, at l k x y s r)"
    using q unfolding runs_def r_def by blast
  ultimately have "parse_chunk (document_text (Element t as ks)) (begin_document p0) = Inr (True, at l k x y s r)"
    by (simp add: element_rest_def)
  then have "parse (document_text (Element t as ks)) p0 = Inr (True, call DocumentEnd (at l k x y s r))"
    by (simp add: parse_def end_document_def continue_def at_def r_def after_element_def)
  moreover have "events (call DocumentEnd (at l k x y s r)) = events p0 @ [DocumentBegin] @ document_events (Element t as ks) @ [DocumentEnd]"
    by (simp add: call_def at_def r_def after_element_def p_def begin_document_def)
  moreover have "entities (call DocumentEnd (at l k x y s r)) = entities Parser" "\<not> skip_whitespaces (call DocumentEnd (at l k x y s r))"
    using q(2) by (simp_all add: call_def at_def r_def after_element_def content_def)
  ultimately show ?thesis by blast
qed

text \<open>
  C23: the stream parser reads documents back.  For a document of elements and texts whose names the parser
  accepts, without carriage returns and without empty or adjacent texts, it returns success and reports the beginning of the document, each element with its
  attributes, each text with its entities resolved and each end of an element in the order of the
  document, and the end of the document.  This holds for a fresh parser and for one that has read
  documents before, with the table of entities it had at first and blanks not skipped.
\<close>

theorem documents_are_read:
  assumes "readable (Element t as ks)" "entities p0 = entities Parser" "\<not> skip_whitespaces p0"
  shows "\<exists>q. parse (document_text (Element t as ks)) p0 = Inr (True, q) \<and>
    events q = events p0 @ [DocumentBegin] @ document_events (Element t as ks) @ [DocumentEnd]"
  using parse_tree [OF assms] by blast

definition sample_document :: dnode where
  "sample_document = Element ''a'' [(''n'', ''<1>'')] [TextNode ''x & y'', Element ''b'' [] [], TextNode ''z'']"

theorem documents_are_read_witness:
  "\<exists>q. parse (document_text sample_document) Parser = Inr (True, q) \<and>
    events q = [DocumentBegin, TagOpen ''a'' [(''n'', ''<1>'')], Cdata ''x & y'', TagOpen ''b'' [], TagClose ''b'',
      Cdata ''z'', TagClose ''a'', DocumentEnd]"
proof -
  have "readable sample_document" by code_simp
  moreover have "events Parser @ [DocumentBegin] @ document_events sample_document @ [DocumentEnd] =
      [DocumentBegin, TagOpen ''a'' [(''n'', ''<1>'')], Cdata ''x & y'', TagOpen ''b'' [], TagClose ''b'',
       Cdata ''z'', TagClose ''a'', DocumentEnd]" by code_simp
  moreover have "\<not> skip_whitespaces Parser" by (simp add: Parser_def)
  ultimately show ?thesis
    using documents_are_read [of _ _ _ Parser, folded sample_document_def] unfolding sample_document_def by metis
qed

end
