(* ===== verification/Context_Client.thy ===== *)
theory Context_Client
  imports Xml_Reading
begin

text \<open>
  The library that applications link (\<open>libcontext_src\<close>): it writes the parameters of a context as a
  document and sends it to the daemon over the message bus.  The document is written by the same
  text in six functions of the sources, one of them \<open>KThread::xmlContext\<close> of the daemon.

  The message bus is the parameter \<open>bus\<close>: whether it is connected and the reply to a call, \<open>None\<close> if
  the call fails.  A C string argument is an option, \<open>None\<close> for a null pointer; a list of variable
  arguments that ends before its null name is read beyond its end, a fault.  \<open>queued\<close> tells whether an
  asynchronous call could be sent.
\<close>

section \<open>Place markers\<close>

text \<open>\<open>QString::arg\<close> replaces the place markers with the lowest number, one or two digits after a percent
  sign.  A text is cut into characters and markers.\<close>

definition marker :: "string \<Rightarrow> (nat \<times> string \<times> string) option" where
  "marker s =
     (case s of
        [] \<Rightarrow> None
      | c # cs \<Rightarrow>
          (case digit_val c of
             None \<Rightarrow> None
           | Some d \<Rightarrow>
               (case cs of
                  [] \<Rightarrow> Some (d, [c], [])
                | e # es \<Rightarrow>
                    (case digit_val e of None \<Rightarrow> Some (d, [c], cs) | Some k \<Rightarrow> Some (10 * d + k, [c, e], es)))))"

lemma marker_length: "marker s = Some (n, t, r) \<Longrightarrow> length r < length s"
  by (auto simp: marker_def split: list.splits option.splits)

function pieces :: "string \<Rightarrow> (char + nat \<times> string) list" where
  "pieces [] = []"
| "pieces (c # s) =
     (if c = CHR ''%'' then
        (case marker s of
           None \<Rightarrow> Inl c # pieces s
         | Some (n, t, r) \<Rightarrow> Inr (n, t) # pieces r)
      else Inl c # pieces s)"
  by pat_completeness auto
termination
  by (relation "measure length") (auto dest: marker_length)

definition marker_numbers :: "(char + nat \<times> string) list \<Rightarrow> nat list" where
  "marker_numbers ps = concat (map (\<lambda>p. case p of Inl c \<Rightarrow> [] | Inr (n, t) \<Rightarrow> [n]) ps)"

definition qarg :: "string \<Rightarrow> string \<Rightarrow> string" where
  "qarg s a =
     (let ps = pieces s;
          low = fold min (marker_numbers ps) 100
      in concat (map (\<lambda>p. case p of Inl c \<Rightarrow> [c] | Inr (n, t) \<Rightarrow> if n = low then a else CHR ''%'' # t) ps))"

section \<open>Documents\<close>

definition toXMLEntities :: "string \<Rightarrow> string" where
  "toXMLEntities str =
     str_replace [CHR 0x22] ''&quot;'' (str_replace ''>'' ''&gt;'' (str_replace ''<'' ''$lt;'' (str_replace ''&'' ''&amp;'' str)))"

type_synonym c_string = "string option"

definition parameter_template :: string where
  "parameter_template =
     ''<parameter name='' @ [CHR 0x22] @ ''%1'' @ [CHR 0x22] @ '' value='' @ [CHR 0x22] @ ''%2'' @ [CHR 0x22] @ ''/>''"

text \<open>The body of the loop over the arguments.\<close>

definition xml_parameter :: "c_string \<Rightarrow> c_string \<Rightarrow> string" where
  "xml_parameter name val =
     (let sname = (case name of None \<Rightarrow> [] | Some s \<Rightarrow> s);
          svalue = toXMLEntities (case val of None \<Rightarrow> [] | Some s \<Rightarrow> s)
      in if sname \<noteq> [] \<and> svalue \<noteq> [] then qarg (qarg parameter_template sname) svalue else [])"

text \<open>The loop: the first pair is taken in any case, the next ones up to a null name.\<close>

fun xml_parameters :: "c_string \<Rightarrow> c_string \<Rightarrow> (c_string \<times> c_string) list \<Rightarrow> fault + string" where
  "xml_parameters name val [] = Inl OutOfBounds"
| "xml_parameters name val ((None, v) # args) = Inr (xml_parameter name val)"
| "xml_parameters name val ((Some n, v) # args) =
     bind_fault (xml_parameters (Some n) v args) (\<lambda>s. Inr (xml_parameter name val @ s))"

definition xmlContext :: "c_string \<Rightarrow> c_string \<Rightarrow> (c_string \<times> c_string) list \<Rightarrow> fault + string" where
  "xmlContext name val args =
     bind_fault (xml_parameters name val args) (\<lambda>s. Inr (''<xmlContext>'' @ s @ ''</xmlContext>''))"

section \<open>Calls\<close>

abbreviation CONTEXT_ACCEPT :: string where "CONTEXT_ACCEPT \<equiv> ''ACCEPT''"
abbreviation CONTEXT_REFUSE :: string where "CONTEXT_REFUSE \<equiv> ''REFUSE''"
abbreviation DBUS_SUCCESS :: string where "DBUS_SUCCESS \<equiv> ''OK''"
abbreviation DBUS_ERROR :: string where "DBUS_ERROR \<equiv> ''NOK''"
abbreviation DBUS_ERROR_NOT_REGISTERED :: string where "DBUS_ERROR_NOT_REGISTERED \<equiv> ''NOT_REGISTERED''"

datatype context_result = CONTEXT_ACCEPTED | CONTEXT_REFUSED | CONTEXT_ERROR

record bus =
  connected :: bool
  reply :: "string \<Rightarrow> string list \<Rightarrow> string option"
  queued :: "string \<Rightarrow> bool"

definition QString2context_result :: "string \<Rightarrow> context_result" where
  "QString2context_result result =
     (if result = CONTEXT_REFUSE then CONTEXT_REFUSED
      else if result = CONTEXT_ACCEPT \<or> result = DBUS_SUCCESS then CONTEXT_ACCEPTED
      else CONTEXT_ERROR)"

definition isRegistered :: "bus \<Rightarrow> bool" where
  "isRegistered b =
     (if \<not> connected b then False
      else case reply b ''is_registered'' [] of None \<Rightarrow> False | Some v \<Rightarrow> v = DBUS_SUCCESS)"

definition registerApplication :: "bus \<Rightarrow> string \<Rightarrow> bool" where
  "registerApplication b appName =
     (if \<not> connected b then False
      else case reply b ''register_application'' [appName] of None \<Rightarrow> False | Some v \<Rightarrow> v = DBUS_SUCCESS)"

text \<open>The value of an invalid reply is the empty string.\<close>

definition contextChanged :: "bus \<Rightarrow> string \<Rightarrow> context_result" where
  "contextChanged b str =
     (if \<not> connected b then CONTEXT_ERROR
      else QString2context_result (case reply b ''domain_changed'' [str] of None \<Rightarrow> [] | Some v \<Rightarrow> v))"

text \<open>The result of \<open>requiredDomain\<close> is a \<open>bool\<close>, and \<open>CONTEXT_ERROR\<close>, which it returns without a connection,
  is not zero.\<close>

definition requiredDomain :: "bus \<Rightarrow> string \<Rightarrow> bool \<times> string" where
  "requiredDomain b str =
     (if \<not> connected b then (True, [])
      else case reply b ''required_domain'' [str] of
        None \<Rightarrow> (False, [])
      | Some res \<Rightarrow>
          (res \<noteq> CONTEXT_REFUSE \<and> res \<noteq> DBUS_ERROR_NOT_REGISTERED \<and> res \<noteq> DBUS_ERROR, res))"

definition bus_currentDomain :: "bus \<Rightarrow> string" where
  "bus_currentDomain b =
     (if \<not> connected b then ''<error>''
      else case reply b ''current_domain'' [] of None \<Rightarrow> ''<error>'' | Some v \<Rightarrow> v)"

definition context_is_registered :: "bus \<Rightarrow> bool" where
  "context_is_registered b = isRegistered b"

definition context_register_application :: "bus \<Rightarrow> string \<Rightarrow> bool" where
  "context_register_application b appName = registerApplication b appName"

definition lib_domain_changed :: "bus \<Rightarrow> c_string \<Rightarrow> c_string \<Rightarrow> (c_string \<times> c_string) list \<Rightarrow> fault + context_result" where
  "lib_domain_changed b name val args = bind_fault (xmlContext name val args) (\<lambda>xml. Inr (contextChanged b xml))"

definition context_changed :: "bus \<Rightarrow> c_string \<Rightarrow> c_string \<Rightarrow> (c_string \<times> c_string) list \<Rightarrow> fault + context_result" where
  "context_changed b name val args = bind_fault (xmlContext name val args) (\<lambda>xml. Inr (contextChanged b xml))"

text \<open>A buffer of the caller, given with its size: \<open>strncpy\<close> of at most \<open>n\<close> bytes into it, and then
  the terminating zero at the index \<open>n\<close>.  The size is unsigned, so one less than zero is the largest number
  and both write outside of the buffer.\<close>

definition copy_out :: "string \<Rightarrow> char list \<Rightarrow> fault + char list" where
  "copy_out s buf =
     (if buf = [] then Inl OutOfBounds
      else Inr (strncpy_k s (length buf - 1) @ drop (length buf - 1) buf))"

definition context_required_domain ::
    "bus \<Rightarrow> char list \<Rightarrow> c_string \<Rightarrow> c_string \<Rightarrow> (c_string \<times> c_string) list \<Rightarrow> fault + bool \<times> char list" where
  "context_required_domain b buf name val args =
     bind_fault (xmlContext name val args) (\<lambda>xml.
       let (res, req_context) = requiredDomain b xml in
       bind_fault (copy_out req_context buf) (\<lambda>buf. Inr (res, buf[length buf - 1 := NUL])))"

definition context_current_domain :: "bus \<Rightarrow> char list \<Rightarrow> fault + bool \<times> char list" where
  "context_current_domain b buf =
     (let res = bus_currentDomain b in
      bind_fault (copy_out res buf) (\<lambda>buf. Inr (res \<noteq> ''<none>'', buf)))"

definition contextChangedAsync :: "bus \<Rightarrow> string \<Rightarrow> nat" where
  "contextChangedAsync b str = (if \<not> connected b then 0 else if queued b str then 1 else 0)"

definition domain_changed_async :: "bus \<Rightarrow> c_string \<Rightarrow> c_string \<Rightarrow> (c_string \<times> c_string) list \<Rightarrow> fault + nat" where
  "domain_changed_async b name val args = bind_fault (xmlContext name val args) (\<lambda>xml. Inr (contextChangedAsync b xml))"

definition context_changed_async :: "bus \<Rightarrow> c_string \<Rightarrow> c_string \<Rightarrow> (c_string \<times> c_string) list \<Rightarrow> fault + nat" where
  "context_changed_async b name val args = bind_fault (xmlContext name val args) (\<lambda>xml. Inr (contextChangedAsync b xml))"

text \<open>The answer to an asynchronous call: which callback is called.\<close>

datatype callback = SuccessCb context_result | ErrorCb string

definition on_success :: "string \<Rightarrow> callback" where
  "on_success ret =
     (if ret = DBUS_SUCCESS \<or> ret = CONTEXT_ACCEPT then SuccessCb (QString2context_result ret)
      else if ret = DBUS_ERROR_NOT_REGISTERED then ErrorCb ''Not Registered Error''
      else ErrorCb ''Type error'')"

section \<open>The written document\<close>

definition enc :: "char \<Rightarrow> string" where
  "enc c =
     (if c = CHR ''&'' then ''&amp;'' else if c = CHR ''<'' then ''$lt;'' else if c = CHR ''>'' then ''&gt;''
      else if c = CHR 0x22 then ''&quot;'' else [c])"

text \<open>What is read back for a character.\<close>

definition dec :: "char \<Rightarrow> string" where
  "dec c = (if c = CHR ''<'' then ''$lt;'' else [c])"

definition mangled :: "string \<Rightarrow> string" where
  "mangled s = str_replace ''<'' ''$lt;'' s"

lemma concat_map_concat_map: "concat (map f (concat (map g s))) = concat (map (\<lambda>x. concat (map f (g x))) s)"
  by (induction s) auto

lemma toXMLEntities_eq: "toXMLEntities s = concat (map enc s)"
  unfolding toXMLEntities_def str_replace_single concat_map_concat_map
  by (intro arg_cong [where f = concat] map_cong refl) (simp add: enc_def)

lemma mangled_eq: "mangled s = concat (map dec s)"
  unfolding mangled_def str_replace_single by (intro arg_cong [where f = concat] map_cong refl) (simp add: dec_def)

lemma pieces_plain: "CHR ''%'' \<notin> set xs \<Longrightarrow> pieces (xs @ ys) = map Inl xs @ pieces ys"
  by (induction xs) auto

lemma concat_literals: "concat (map (case_sum (\<lambda>c. [c]) f) (map Inl xs)) = xs"
  by (induction xs) auto

lemma marker_numbers_append: "marker_numbers (ps @ qs) = marker_numbers ps @ marker_numbers qs"
  "marker_numbers (map Inl xs) = []" "marker_numbers (Inl c # ps) = marker_numbers ps"
  "marker_numbers (Inr (n, t) # ps) = n # marker_numbers ps" "marker_numbers [] = []"
  by (simp_all add: marker_numbers_def)

abbreviation parameter_head :: string where
  "parameter_head \<equiv> ''<parameter name='' @ [CHR 0x22]"

abbreviation parameter_mid :: string where
  "parameter_mid \<equiv> [CHR 0x22] @ '' value='' @ [CHR 0x22]"

abbreviation parameter_tail :: string where
  "parameter_tail \<equiv> [CHR 0x22] @ ''/>''"

lemma qarg_one:
  assumes "pieces s = map Inl xs @ Inr (k, t) # map Inl ys" "k < 100"
  shows "qarg s a = xs @ a @ ys"
  using assms(2) unfolding qarg_def assms(1) Let_def map_append concat_append list.map concat_literals
  by (simp add: marker_numbers_append concat_literals del: map_map)

lemma qarg_template:
  assumes "CHR ''%'' \<notin> set n"
  shows "qarg (qarg parameter_template n) v = parameter_head @ n @ parameter_mid @ v @ parameter_tail"
proof -
  have 1: "qarg parameter_template n = parameter_head @ n @ parameter_mid @ ''%2'' @ parameter_tail"
    by (simp add: qarg_def parameter_template_def marker_def digit_val_def of_char_def marker_numbers_append Let_def)
  have plain: "CHR ''%'' \<notin> set (parameter_head @ n @ parameter_mid)" using assms by simp
  have "pieces (qarg parameter_template n) =
      map Inl (parameter_head @ n @ parameter_mid) @ Inr (2, ''2'') # map Inl parameter_tail"
    unfolding 1 using pieces_plain [OF plain, of "''%2'' @ parameter_tail"]
    by (simp add: marker_def digit_val_def of_char_def)
  from qarg_one [OF this, of v] show ?thesis by simp
qed

section \<open>Reading the document\<close>

lemma runs_value_char:
  assumes "\<not> status_new_line p" "status_parse p = M_ATTR_RVALUE" "entities p = entities Parser" "entity_buffer p = []"
    "c \<noteq> CHR 0x0D"
  shows "runs p (enc c) (p\<lparr>text_buffer1 := text_buffer1 p @ dec c\<rparr>)"
proof -
  note ent = runs_entity [OF assms(1) _ assms(3,4)]
  consider "c = CHR ''&''" | "c = CHR ''<''" | "c = CHR ''>''" | "c = CHR 0x22" | "c \<notin> {CHR ''&'', CHR ''<'', CHR ''>'', CHR 0x22}"
    by blast
  then show ?thesis
  proof cases
    case 1
    with ent [of "''amp''"] assms(2) std_entities show ?thesis by (simp add: enc_def dec_def)
  next
    case 2
    then show ?thesis using runs_name [OF assms(1,2), of "''$lt;''"] by (simp add: enc_def dec_def)
  next
    case 3
    with ent [of "''gt''"] assms(2) std_entities show ?thesis by (simp add: enc_def dec_def)
  next
    case 4
    with ent [of "''quot''"] assms(2) std_entities show ?thesis by (simp add: enc_def dec_def)
  next
    case 5
    with runs_name [OF assms(1,2), of "[c]"] assms(5) show ?thesis by (auto simp: enc_def dec_def)
  qed
qed

lemma runs_value:
  assumes "\<not> status_new_line p" "status_parse p = M_ATTR_RVALUE" "entities p = entities Parser" "entity_buffer p = []"
    "CHR 0x0D \<notin> set v"
  shows "runs p (toXMLEntities v) (p\<lparr>text_buffer1 := text_buffer1 p @ mangled v\<rparr>)"
  using assms unfolding toXMLEntities_eq mangled_eq
proof (induction v arbitrary: p)
  case Nil
  show ?case using runs_Nil [of p] by simp
next
  case (Cons c v)
  have "runs p (enc c) (p\<lparr>text_buffer1 := text_buffer1 p @ dec c\<rparr>)"
    using Cons.prems by (intro runs_value_char) auto
  moreover have "runs (p\<lparr>text_buffer1 := text_buffer1 p @ dec c\<rparr>) (concat (map enc v))
      (p\<lparr>text_buffer1 := text_buffer1 p @ dec c @ concat (map dec v)\<rparr>)"
    using Cons.IH [of "p\<lparr>text_buffer1 := text_buffer1 p @ dec c\<rparr>"] Cons.prems by simp
  ultimately show ?case using runs_append by fastforce
qed

text \<open>The words of the document.\<close>

definition in_document :: "parser \<Rightarrow> bool" where
  "in_document p =
     (\<not> status_new_line p \<and> status_parse p = M_TEXT \<and> tag_stack p = [''xmlContext''] \<and> current_tag p = ''xmlContext'' \<and>
      attributes_temp p = [] \<and> text_buffer1 p = [] \<and> entity_buffer p = [] \<and> entities p = entities Parser)"

lemma runs_head:
  assumes "in_document p"
  shows "runs p parameter_head
    (p\<lparr>status_parse := M_ATTR_RVALUE, current_tag := ''parameter'', text_buffer2 := ''name'', text_buffer1 := []\<rparr>)"
proof (rule runsI)
  fix l k x y s
  have "parse_chunk parameter_head (at l k x y s p) = Inr (True, at l (k + 17) CHR 0x22 CHR ''='' s
      (p\<lparr>status_parse := M_ATTR_RVALUE, current_tag := ''parameter'', text_buffer2 := ''name'', text_buffer1 := []\<rparr>))"
    using assms
    by (simp add: in_document_def parse_char_def newline_def at_def step_text_def step_start_tag_def step_open_tag_def
        step_in_tag_def step_attr_lvalue_def step_attr_equal_def append1_def continue_def IS_LABEL_def isalnum_def isalpha_def IS_SPACE_def
        Let_def)
  then show "\<exists>l' k' x' y' s'. parse_chunk parameter_head (at l k x y s p) = Inr (True, at l' k' x' y' s'
      (p\<lparr>status_parse := M_ATTR_RVALUE, current_tag := ''parameter'', text_buffer2 := ''name'', text_buffer1 := []\<rparr>))"
    by blast
qed

lemma runs_mid:
  assumes "\<not> status_new_line p" "status_parse p = M_ATTR_RVALUE"
  shows "runs p parameter_mid
    (p\<lparr>attributes_temp := oinsert (text_buffer2 p) (text_buffer1 p) (attributes_temp p), text_buffer2 := ''value'', text_buffer1 := []\<rparr>)"
proof (rule runsI)
  fix l k x y s
  have "parse_chunk parameter_mid (at l k x y s p) = Inr (True, at l (k + 9) CHR 0x22 CHR ''='' s
      (p\<lparr>attributes_temp := oinsert (text_buffer2 p) (text_buffer1 p) (attributes_temp p), text_buffer2 := ''value'', text_buffer1 := []\<rparr>))"
    using assms
    by (simp add: parse_char_def newline_def at_def step_attr_rvalue_def
        step_in_tag_def step_attr_lvalue_def step_attr_equal_def append1_def continue_def IS_LABEL_def isalnum_def isalpha_def IS_SPACE_def
        Let_def)
  then show "\<exists>l' k' x' y' s'. parse_chunk parameter_mid (at l k x y s p) = Inr (True, at l' k' x' y' s'
      (p\<lparr>attributes_temp := oinsert (text_buffer2 p) (text_buffer1 p) (attributes_temp p), text_buffer2 := ''value'', text_buffer1 := []\<rparr>))"
    by blast
qed

lemma runs_tail:
  assumes "\<not> status_new_line p" "status_parse p = M_ATTR_RVALUE" "tag_stack p = t # ts"
  shows "runs p parameter_tail
    (p\<lparr>events := events p @ [TagOpen (current_tag p) (oinsert (text_buffer2 p) (text_buffer1 p) (attributes_temp p)),
        TagClose (current_tag p)],
       attributes_temp := [], text_buffer1 := [], status_parse := M_TEXT, current_tag := t\<rparr>)"
proof (rule runsI)
  fix l k x y s
  have "parse_chunk parameter_tail (at l k x y s p) = Inr (True, at l (k + 3) CHR ''>'' CHR ''/'' s
      (p\<lparr>events := events p @ [TagOpen (current_tag p) (oinsert (text_buffer2 p) (text_buffer1 p) (attributes_temp p)),
        TagClose (current_tag p)],
       attributes_temp := [], text_buffer1 := [], status_parse := M_TEXT, current_tag := t\<rparr>))"
    using assms
    by (simp add: parse_char_def newline_def at_def step_attr_rvalue_def step_in_tag_def step_single_tag_def call_def
        continue_def IS_LABEL_def isalnum_def isalpha_def IS_SPACE_def Let_def)
  then show "\<exists>l' k' x' y' s'. parse_chunk parameter_tail (at l k x y s p) = Inr (True, at l' k' x' y' s'
      (p\<lparr>events := events p @ [TagOpen (current_tag p) (oinsert (text_buffer2 p) (text_buffer1 p) (attributes_temp p)),
        TagClose (current_tag p)],
       attributes_temp := [], text_buffer1 := [], status_parse := M_TEXT, current_tag := t\<rparr>))" by blast
qed

definition plain_parameter :: "string \<times> string \<Rightarrow> bool" where
  "plain_parameter nv =
     (set (fst nv) \<inter> {CHR 0x0D, CHR 0x22, CHR ''&'', CHR ''%''} = {} \<and> CHR 0x0D \<notin> set (snd nv))"

definition parameter_events :: "string \<times> string \<Rightarrow> xml_event list" where
  "parameter_events nv =
     (if fst nv \<noteq> [] \<and> snd nv \<noteq> []
      then [TagOpen ''parameter'' [(''name'', fst nv), (''value'', mangled (snd nv))], TagClose ''parameter''] else [])"

lemma toXMLEntities_Nil: "toXMLEntities v = [] \<longleftrightarrow> v = []"
  by (cases v) (simp_all add: toXMLEntities_eq enc_def)

lemma mangled_Nil: "mangled v = [] \<longleftrightarrow> v = []"
  by (cases v) (simp_all add: mangled_eq dec_def)

lemma xml_parameter_eq:
  assumes "plain_parameter nv"
  shows "xml_parameter (Some (fst nv)) (Some (snd nv)) =
     (if fst nv \<noteq> [] \<and> snd nv \<noteq> []
      then parameter_head @ fst nv @ parameter_mid @ toXMLEntities (snd nv) @ parameter_tail else [])"
  using assms qarg_template [of "fst nv"] by (auto simp: xml_parameter_def toXMLEntities_Nil plain_parameter_def Let_def)

lemma runs_parameter:
  assumes "in_document p" "plain_parameter nv"
  shows "\<exists>b. runs p (xml_parameter (Some (fst nv)) (Some (snd nv)))
    (p\<lparr>text_buffer2 := b, events := events p @ parameter_events nv\<rparr>)"
proof (cases "fst nv \<noteq> [] \<and> snd nv \<noteq> []")
  case False
  have "runs p [] (p\<lparr>text_buffer2 := text_buffer2 p, events := events p @ parameter_events nv\<rparr>)"
    using runs_Nil [of p] False by (auto simp: parameter_events_def)
  with False show ?thesis unfolding xml_parameter_eq [OF assms(2)] by (simp only: if_False) blast
next
  case True
  note p = assms(1) [unfolded in_document_def]
  obtain n v where nv: "nv = (n, v)" by fastforce
  have nv_ok: "set n \<inter> {CHR 0x0D, CHR 0x22, CHR ''&''} = {}" "CHR 0x0D \<notin> set v"
    using assms(2) by (auto simp: plain_parameter_def nv)
  define p1 where "p1 = p\<lparr>status_parse := M_ATTR_RVALUE, current_tag := ''parameter'', text_buffer2 := ''name'', text_buffer1 := []\<rparr>"
  define p2 where "p2 = p1\<lparr>text_buffer1 := n\<rparr>"
  define p3 where "p3 = p2\<lparr>attributes_temp := [(''name'', n)], text_buffer2 := ''value'', text_buffer1 := []\<rparr>"
  define p4 where "p4 = p3\<lparr>text_buffer1 := mangled v\<rparr>"
  have 1: "runs p parameter_head p1" unfolding p1_def by (rule runs_head [OF assms(1)])
  have 2: "runs p1 n p2" using runs_name [of p1 n] nv_ok(1) p by (simp add: p1_def p2_def)
  have 3: "runs p2 parameter_mid p3" using runs_mid [of p2] p by (simp add: p1_def p2_def p3_def)
  have 4: "runs p3 (toXMLEntities v) p4" using runs_value [of p3 v] nv_ok(2) p by (simp add: p1_def p2_def p3_def p4_def)
  have 5: "runs p4 parameter_tail (p\<lparr>text_buffer2 := ''value'', events := events p @ parameter_events nv\<rparr>)"
  proof -
    have "p\<lparr>text_buffer2 := ''value'', events := events p @ parameter_events nv\<rparr> =
        p4\<lparr>events := events p4 @ [TagOpen (current_tag p4) (oinsert (text_buffer2 p4) (text_buffer1 p4) (attributes_temp p4)),
          TagClose (current_tag p4)], attributes_temp := [], text_buffer1 := [], status_parse := M_TEXT, current_tag := ''xmlContext''\<rparr>"
      using p True by (intro parser.equality) (simp_all add: p1_def p2_def p3_def p4_def parameter_events_def nv)
    with runs_tail [of p4 "''xmlContext''" "[]"] p show ?thesis by (simp add: p1_def p2_def p3_def p4_def)
  qed
  have "runs p (parameter_head @ n @ parameter_mid @ toXMLEntities v @ parameter_tail)
      (p\<lparr>text_buffer2 := ''value'', events := events p @ parameter_events nv\<rparr>)"
    using runs_append [OF 1 runs_append [OF 2 runs_append [OF 3 runs_append [OF 4 5]]]] .
  with True show ?thesis unfolding xml_parameter_eq [OF assms(2)] by (auto simp: nv)
qed

text \<open>A list of parameters as the variable arguments of a call.\<close>

definition arguments :: "(string \<times> string) list \<Rightarrow> (c_string \<times> c_string) list" where
  "arguments nvs = map (\<lambda>nv. (Some (fst nv), Some (snd nv))) nvs @ [(None, None)]"

lemma runs_parameters:
  assumes "in_document p" "list_all plain_parameter (nv # nvs)"
  shows "\<exists>xml b. xml_parameters (Some (fst nv)) (Some (snd nv)) (arguments nvs) = Inr xml \<and>
     runs p xml (p\<lparr>text_buffer2 := b, events := events p @ concat (map parameter_events (nv # nvs))\<rparr>)"
  using assms
proof (induction nvs arbitrary: nv p)
  case Nil
  then obtain b where "runs p (xml_parameter (Some (fst nv)) (Some (snd nv))) (p\<lparr>text_buffer2 := b, events := events p @ parameter_events nv\<rparr>)"
    using runs_parameter [of p nv] by auto
  then show ?case by (auto simp: arguments_def)
next
  case (Cons nv' nvs)
  obtain b where 1: "runs p (xml_parameter (Some (fst nv)) (Some (snd nv))) (p\<lparr>text_buffer2 := b, events := events p @ parameter_events nv\<rparr>)"
    using runs_parameter [of p nv] Cons.prems by auto
  let ?p1 = "p\<lparr>text_buffer2 := b, events := events p @ parameter_events nv\<rparr>"
  have "in_document ?p1" using Cons.prems(1) by (simp add: in_document_def)
  with Cons.IH [of ?p1 nv'] Cons.prems obtain xml b' where
    xml: "xml_parameters (Some (fst nv')) (Some (snd nv')) (arguments nvs) = Inr xml" and
    2: "runs ?p1 xml (?p1\<lparr>text_buffer2 := b', events := events ?p1 @ concat (map parameter_events (nv' # nvs))\<rparr>)"
    by auto
  have "xml_parameters (Some (fst nv)) (Some (snd nv)) (arguments (nv' # nvs)) =
      Inr (xml_parameter (Some (fst nv)) (Some (snd nv)) @ xml)"
    using xml by (simp add: arguments_def)
  moreover have "runs p (xml_parameter (Some (fst nv)) (Some (snd nv)) @ xml)
      (p\<lparr>text_buffer2 := b', events := events p @ concat (map parameter_events (nv # nv' # nvs))\<rparr>)"
    using runs_append [OF 1 2] by simp
  ultimately show ?case by blast
qed

definition document_start :: parser where
  "document_start =
     (begin_document Parser)\<lparr>status_parse := M_TEXT, tag_stack := [''xmlContext''], current_tag := ''xmlContext'',
        events := [DocumentBegin, TagOpen ''xmlContext'' []]\<rparr>"

lemma document_start_ok: "in_document document_start"
  by (simp add: in_document_def document_start_def begin_document_def Parser_def call_def)

lemma runs_start:
  "\<exists>l k x y s. parse_chunk ''<xmlContext>'' (begin_document Parser) = Inr (True, at l k x y s document_start)"
proof -
  have "parse_chunk ''<xmlContext>'' (begin_document Parser) = Inr (True, at 1 12 CHR ''>'' CHR ''t'' M_TOP document_start)"
    by code_simp
  then show ?thesis by blast
qed

lemma runs_end:
  assumes "in_document p"
  shows "runs p ''</xmlContext>'' (p\<lparr>status_parse := M_TOP, tag_stack := [], events := events p @ [TagClose ''xmlContext'']\<rparr>)"
proof (rule runsI)
  fix l k x y s
  have "parse_chunk ''</xmlContext>'' (at l k x y s p) = Inr (True, at l (k + 13) CHR ''>'' CHR ''t'' s
      (p\<lparr>status_parse := M_TOP, tag_stack := [], events := events p @ [TagClose ''xmlContext'']\<rparr>))"
    using assms
    by (simp add: in_document_def parse_char_def newline_def at_def step_text_def step_start_tag_def step_close_tag_def
        append1_def call_def continue_def IS_LABEL_def isalnum_def isalpha_def Let_def)
  then show "\<exists>l' k' x' y' s'. parse_chunk ''</xmlContext>'' (at l k x y s p) = Inr (True, at l' k' x' y' s'
      (p\<lparr>status_parse := M_TOP, tag_stack := [], events := events p @ [TagClose ''xmlContext'']\<rparr>))" by blast
qed

lemma parse_wrapped:
  assumes "runs document_start xml (document_start\<lparr>text_buffer2 := b, events := events document_start @ evs\<rparr>)"
  shows "\<exists>q. parse (''<xmlContext>'' @ xml @ ''</xmlContext>'') Parser = Inr (True, q) \<and>
    events q = [DocumentBegin, TagOpen ''xmlContext'' []] @ evs @ [TagClose ''xmlContext'', DocumentEnd]"
proof -
  let ?p1 = "document_start\<lparr>text_buffer2 := b, events := events document_start @ evs\<rparr>"
  let ?p2 = "?p1\<lparr>status_parse := M_TOP, tag_stack := [], events := events ?p1 @ [TagClose ''xmlContext'']\<rparr>"
  have "in_document ?p1" using document_start_ok by (simp add: in_document_def)
  from runs_append [OF assms runs_end [OF this]] have run: "runs document_start (xml @ ''</xmlContext>'') ?p2" .
  obtain l k x y s where "parse_chunk ''<xmlContext>'' (begin_document Parser) = Inr (True, at l k x y s document_start)"
    using runs_start by blast
  moreover obtain l' k' x' y' s' where "parse_chunk (xml @ ''</xmlContext>'') (at l k x y s document_start) = Inr (True, at l' k' x' y' s' ?p2)"
    using run unfolding runs_def by blast
  ultimately have chunk: "parse_chunk (''<xmlContext>'' @ xml @ ''</xmlContext>'') (begin_document Parser) = Inr (True, at l' k' x' y' s' ?p2)"
    by (simp only: parse_chunk_append [of "''<xmlContext>''"] bind_fault.simps prod.case if_True)
  have "parse (''<xmlContext>'' @ xml @ ''</xmlContext>'') Parser = Inr (True, call DocumentEnd (at l' k' x' y' s' ?p2))"
    unfolding parse_def chunk by (simp add: end_document_def continue_def at_def)
  moreover have "events (call DocumentEnd (at l' k' x' y' s' ?p2)) =
      [DocumentBegin, TagOpen ''xmlContext'' []] @ evs @ [TagClose ''xmlContext'', DocumentEnd]"
    by (simp add: call_def at_def document_start_def)
  ultimately show ?thesis by blast
qed

lemma parse_document:
  assumes "list_all plain_parameter (nv # nvs)"
  obtains xml where "xmlContext (Some (fst nv)) (Some (snd nv)) (arguments nvs) = Inr xml"
    "\<exists>q. parse xml Parser = Inr (True, q) \<and>
       events q = [DocumentBegin, TagOpen ''xmlContext'' []] @ concat (map parameter_events (nv # nvs)) @
         [TagClose ''xmlContext'', DocumentEnd]"
proof -
  obtain xml b where "xml_parameters (Some (fst nv)) (Some (snd nv)) (arguments nvs) = Inr xml"
    "runs document_start xml (document_start\<lparr>text_buffer2 := b, events := events document_start @ concat (map parameter_events (nv # nvs))\<rparr>)"
    using runs_parameters [OF document_start_ok assms] by blast
  then show thesis
    by (intro that [of "''<xmlContext>'' @ xml @ ''</xmlContext>''"] parse_wrapped) (simp_all add: xmlContext_def)
qed

text \<open>A value with carriage returns, from which the text that is read is not determined so easily: the
  first character after one clears the flag.\<close>

lemma runs_after_cr:
  assumes "runs p (c # cs) q" "\<not> status_new_line p" "c \<noteq> CHR 0x0A" "c \<noteq> CHR 0x0D"
  shows "runs (p\<lparr>status_new_line := True\<rparr>) (c # cs) q"
proof (rule runsI)
  fix l k x y s
  have "newline c (at l k x y s (p\<lparr>status_new_line := True\<rparr>)) = newline c (at l (k - 1) x y s p)"
    using assms(2-4) by (simp add: newline_def at_def)
  then have "parse_chunk (c # cs) (at l k x y s (p\<lparr>status_new_line := True\<rparr>)) = parse_chunk (c # cs) (at l (k - 1) x y s p)"
    by (simp only: parse_chunk.simps parse_char_def)
  then show "\<exists>l' k' x' y' s'. parse_chunk (c # cs) (at l k x y s (p\<lparr>status_new_line := True\<rparr>)) = Inr (True, at l' k' x' y' s' q)"
    using assms(1) unfolding runs_def by presburger
qed

lemma runs_any_flag:
  assumes "\<And>p. P p \<Longrightarrow> \<not> status_new_line p \<Longrightarrow> runs p (c # cs) (f p)" "P (p\<lparr>status_new_line := False\<rparr>)"
    "c \<noteq> CHR 0x0A" "c \<noteq> CHR 0x0D"
  shows "runs p (c # cs) (f (p\<lparr>status_new_line := False\<rparr>))"
proof (cases "status_new_line p")
  case True
  then have "p = (p\<lparr>status_new_line := False\<rparr>)\<lparr>status_new_line := True\<rparr>" by (intro parser.equality) simp_all
  with runs_after_cr [OF assms(1) [OF assms(2)]] assms(3,4) show ?thesis by simp
next
  case False
  then have p: "p\<lparr>status_new_line := False\<rparr> = p" by (intro parser.equality) simp_all
  show ?thesis using assms(1) [OF assms(2)] False unfolding p by simp
qed

definition in_value :: "parser \<Rightarrow> bool" where
  "in_value p = (status_parse p = M_ATTR_RVALUE \<and> entities p = entities Parser \<and> entity_buffer p = [])"

lemma runs_any_char:
  assumes "in_value p"
  shows "\<exists>w b. runs p (enc c) (p\<lparr>text_buffer1 := w, status_new_line := b\<rparr>)"
proof -
  consider (lf) "c = CHR 0x0A" | (cr) "c = CHR 0x0D" | (other) "c \<noteq> CHR 0x0A" "c \<noteq> CHR 0x0D" by blast
  then show ?thesis
  proof cases
    case lf
    then show ?thesis
    proof (cases "status_new_line p")
      case True
      have "parse_chunk (enc c) (at l k x y s p) =
          Inr (True, at l k x y s (p\<lparr>text_buffer1 := text_buffer1 p, status_new_line := False\<rparr>))" for l k x y s
        using True lf by (simp add: enc_def parse_char_def newline_def at_def continue_def)
      then show ?thesis unfolding runs_def by blast
    next
      case False
      then have eq: "p\<lparr>text_buffer1 := text_buffer1 p @ dec c, status_new_line := False\<rparr> = p\<lparr>text_buffer1 := text_buffer1 p @ dec c\<rparr>"
        by (intro parser.equality) simp_all
      have "runs p (enc c) (p\<lparr>text_buffer1 := text_buffer1 p @ dec c, status_new_line := False\<rparr>)"
        unfolding eq using False assms lf by (intro runs_value_char) (auto simp: in_value_def)
      then show ?thesis by blast
    qed
  next
    case cr
    let ?b = "status_new_line p"
    have "parse_chunk (enc c) (at l k x y s p) =
        Inr (True, at (if ?b then l else l + 1) (if ?b then k else 0) (if ?b then CHR 0x0D else CHR 0x0A) x s
          (p\<lparr>text_buffer1 := text_buffer1 p @ [if ?b then CHR 0x0D else CHR 0x0A], status_new_line := \<not> ?b\<rparr>))" for l k x y s
      using assms cr
      by (cases ?b) (simp_all add: enc_def in_value_def parse_char_def newline_def at_def continue_def
          step_attr_rvalue_def append1_def)
    then show ?thesis unfolding runs_def by blast
  next
    case other
    have "enc c \<noteq> []" by (simp add: enc_def)
    then obtain d ds where d: "enc c = d # ds" by (cases "enc c") auto
    have "hd (enc c) \<noteq> CHR 0x0A \<and> hd (enc c) \<noteq> CHR 0x0D"
      using other unfolding enc_def by (cases "c = CHR ''&''"; cases "c = CHR ''<''"; cases "c = CHR ''>''"; cases "c = CHR 0x22") simp_all
    with d have enc: "enc c = d # ds" "d \<noteq> CHR 0x0A" "d \<noteq> CHR 0x0D" by simp_all
    have step: "runs p' (d # ds) (p'\<lparr>text_buffer1 := text_buffer1 p' @ dec c\<rparr>)" if "in_value p'" "\<not> status_new_line p'" for p'
      unfolding enc(1) [symmetric] using that other(2) by (intro runs_value_char) (simp_all add: in_value_def)
    have "in_value (p\<lparr>status_new_line := False\<rparr>)" using assms by (simp add: in_value_def)
    from runs_any_flag [of in_value d ds "\<lambda>p. p\<lparr>text_buffer1 := text_buffer1 p @ dec c\<rparr>", OF step this enc(2,3)]
    have "runs p (d # ds) (p\<lparr>status_new_line := False, text_buffer1 := text_buffer1 p @ dec c\<rparr>)" by simp
    also have "p\<lparr>status_new_line := False, text_buffer1 := text_buffer1 p @ dec c\<rparr> =
        p\<lparr>text_buffer1 := text_buffer1 p @ dec c, status_new_line := False\<rparr>"
      by (intro parser.equality) simp_all
    finally show ?thesis unfolding enc(1) by blast
  qed
qed

lemma runs_any_value:
  assumes "in_value p"
  shows "\<exists>w b. runs p (toXMLEntities v) (p\<lparr>text_buffer1 := w, status_new_line := b\<rparr>)"
  using assms unfolding toXMLEntities_eq
proof (induction v arbitrary: p)
  case Nil
  have "p = p\<lparr>text_buffer1 := text_buffer1 p, status_new_line := status_new_line p\<rparr>" by simp
  with runs_Nil [of p] show ?case by (simp only: list.map concat.simps) metis
next
  case (Cons c v)
  obtain w b where 1: "runs p (enc c) (p\<lparr>text_buffer1 := w, status_new_line := b\<rparr>)"
    using runs_any_char [OF Cons.prems] by blast
  moreover obtain w' b' where "runs (p\<lparr>text_buffer1 := w, status_new_line := b\<rparr>) (concat (map enc v))
      ((p\<lparr>text_buffer1 := w, status_new_line := b\<rparr>)\<lparr>text_buffer1 := w', status_new_line := b'\<rparr>)"
    using Cons.IH [of "p\<lparr>text_buffer1 := w, status_new_line := b\<rparr>"] Cons.prems unfolding in_value_def by auto
  ultimately have "runs p (enc c @ concat (map enc v)) (p\<lparr>text_buffer1 := w', status_new_line := b'\<rparr>)"
    using runs_append by fastforce
  then show ?case by auto
qed

lemma runs_any_parameter:
  assumes "in_document p" "n \<noteq> []" "v \<noteq> []" "set n \<inter> {CHR 0x0D, CHR 0x22, CHR ''&'', CHR ''%''} = {}"
  shows "\<exists>b w. runs p (xml_parameter (Some n) (Some v)) (p\<lparr>text_buffer2 := b, events := events p @
    [TagOpen ''parameter'' [(''name'', n), (''value'', w)], TagClose ''parameter'']\<rparr>)"
proof -
  note p = assms(1) [unfolded in_document_def]
  define p1 where "p1 = p\<lparr>status_parse := M_ATTR_RVALUE, current_tag := ''parameter'', text_buffer2 := ''name'', text_buffer1 := []\<rparr>"
  define p2 where "p2 = p1\<lparr>text_buffer1 := n\<rparr>"
  define p3 where "p3 = p2\<lparr>attributes_temp := [(''name'', n)], text_buffer2 := ''value'', text_buffer1 := []\<rparr>"
  have 1: "runs p parameter_head p1" unfolding p1_def by (rule runs_head [OF assms(1)])
  have 2: "runs p1 n p2" using runs_name [of p1 n] assms(4) p by (auto simp: p1_def p2_def)
  have 3: "runs p2 parameter_mid p3" using runs_mid [of p2] p by (simp add: p1_def p2_def p3_def)
  obtain w b where 4: "runs p3 (toXMLEntities v) (p3\<lparr>text_buffer1 := w, status_new_line := b\<rparr>)"
    using runs_any_value [of p3 v] p by (auto simp: p1_def p2_def p3_def in_value_def)
  define p4 where "p4 = p3\<lparr>text_buffer1 := w\<rparr>"
  define q where "q = p\<lparr>text_buffer2 := ''value'', events := events p @
    [TagOpen ''parameter'' [(''name'', n), (''value'', w)], TagClose ''parameter'']\<rparr>"
  have p4: "\<not> status_new_line p4" "p3\<lparr>text_buffer1 := w, status_new_line := b\<rparr> = p4\<lparr>status_new_line := b\<rparr>"
    using p by (simp_all add: p1_def p2_def p3_def p4_def)
  have q: "q = p4\<lparr>events := events p4 @ [TagOpen (current_tag p4) (oinsert (text_buffer2 p4) (text_buffer1 p4) (attributes_temp p4)),
        TagClose (current_tag p4)], attributes_temp := [], text_buffer1 := [], status_parse := M_TEXT, current_tag := ''xmlContext''\<rparr>"
    using p by (intro parser.equality) (simp_all add: p1_def p2_def p3_def p4_def q_def)
  have tail: "runs p4 parameter_tail q"
    using runs_tail [of p4 "''xmlContext''" "[]"] p unfolding q by (simp add: p1_def p2_def p3_def p4_def)
  have 5: "runs (p4\<lparr>status_new_line := b\<rparr>) parameter_tail q"
  proof (cases b)
    case True
    with runs_after_cr [OF tail [unfolded append_Cons append_Nil] p4(1)] show ?thesis by simp
  next
    case False
    then have "p4\<lparr>status_new_line := b\<rparr> = p4" using p4(1) by (intro parser.equality) simp_all
    with tail show ?thesis by simp
  qed
  have "runs p (parameter_head @ n @ parameter_mid @ toXMLEntities v @ parameter_tail) q"
    using runs_append [OF 1 runs_append [OF 2 runs_append [OF 3 runs_append [OF 4 [unfolded p4(2)] 5]]]] .
  moreover have xml: "xml_parameter (Some n) (Some v) = parameter_head @ n @ parameter_mid @ toXMLEntities v @ parameter_tail"
    unfolding xml_parameter_def Let_def using qarg_template [of n "toXMLEntities v"] assms(2-4)
    by (simp add: toXMLEntities_Nil)
  ultimately show ?thesis
    unfolding xml q_def by blast
qed

text \<open>Whatever its value, a document with one parameter is read without a fault.\<close>

lemma context_single:
  assumes "n \<noteq> []" "v \<noteq> []" "set n \<inter> {CHR 0x0D, CHR 0x22, CHR ''&'', CHR ''%''} = {}"
  obtains xml vals where "xmlContext (Some n) (Some v) [(None, None)] = Inr xml" "parse_context xml = Inr (True, vals)"
proof -
  let ?x = "xml_parameter (Some n) (Some v)"
  obtain b w where 1: "runs document_start ?x (document_start\<lparr>text_buffer2 := b, events := events document_start @
      [TagOpen ''parameter'' [(''name'', n), (''value'', w)], TagClose ''parameter'']\<rparr>)"
    using runs_any_parameter [OF document_start_ok assms] by blast
  obtain q where "parse (''<xmlContext>'' @ ?x @ ''</xmlContext>'') Parser = Inr (True, q)"
    "events q = [DocumentBegin, TagOpen ''xmlContext'' []] @
      [TagOpen ''parameter'' [(''name'', n), (''value'', w)], TagClose ''parameter''] @ [TagClose ''xmlContext'', DocumentEnd]"
    using parse_wrapped [OF 1] by blast
  then have "parse_context (''<xmlContext>'' @ ?x @ ''</xmlContext>'') = Inr (True, fold on_event (events q) [])"
    by (simp add: parse_context_def)
  then show thesis
    by (intro that) (simp_all add: xmlContext_def)
qed

section \<open>Properties\<close>

definition add_parameter :: "string \<times> string \<Rightarrow> (string, string) omap \<Rightarrow> (string, string) omap" where
  "add_parameter nv st = (if fst nv \<noteq> [] \<and> snd nv \<noteq> [] then oinsert (fst nv) (mangled (snd nv)) st else st)"

lemma fold_parameter_events:
  "fold on_event (concat (map parameter_events nvs)) st = fold add_parameter nvs st"
proof (induction nvs arbitrary: st)
  case (Cons nv nvs)
  have "fold on_event (parameter_events nv) st = add_parameter nv st"
    by (simp add: parameter_events_def add_parameter_def on_event_def ovalue_def mangled_Nil)
  then show ?case by (simp add: Cons)
qed simp

text \<open>
  C9: the daemon reads back from the document that the library writes for a list of parameters the map of these
  parameters: the later of two with the same name counts, those with an empty name or value
  are left out, and the character less-than in a value arrives as the text with a dollar sign that the
  library writes for it.  This is for names without a quotation mark, ampersand, percent sign or carriage return
  and values without a carriage return: the library escapes the values, but writes the names as they are.
\<close>

theorem context_roundtrip:
  assumes "list_all plain_parameter (nv # nvs)"
  shows "bind_fault (xmlContext (Some (fst nv)) (Some (snd nv)) (arguments nvs)) parse_context =
    Inr (True, fold add_parameter (nv # nvs) [])"
proof -
  obtain xml q where xml: "xmlContext (Some (fst nv)) (Some (snd nv)) (arguments nvs) = Inr xml"
    and q: "parse xml Parser = Inr (True, q)" "events q = [DocumentBegin, TagOpen ''xmlContext'' []] @
      concat (map parameter_events (nv # nvs)) @ [TagClose ''xmlContext'', DocumentEnd]"
    using parse_document [OF assms] by metis
  have "fold on_event (events q) [] = fold add_parameter (nv # nvs) []"
    unfolding q(2) fold_append comp_def fold_parameter_events [of "nv # nvs"] by (simp add: on_event_def)
  with xml q(1) show ?thesis by (simp add: parse_context_def)
qed

text \<open>
  Without a connection to the daemon the library answers the question for the required domain with
  success and an empty name, and a failed question for the current domain with success and the
  text of the error as its name.
\<close>

theorem disconnected_answers:
  assumes "\<not> connected b" "buf \<noteq> []" "7 < length buf"
  shows "context_required_domain b buf (Some name) (Some val) [(None, None)] =
      Inr (True, replicate (length buf) NUL) \<and>
    map_sum id (\<lambda>(ok, out). (ok, cstring (take (length buf - 1) out))) (context_current_domain b buf) = Inr (True, ''<error>'')"
proof -
  have "(strncpy_k [] (length buf - 1) @ drop (length buf - 1) buf)[length buf - 1 := NUL] = replicate (length buf) NUL"
    using assms(2) by (cases buf rule: rev_cases) (simp_all add: strncpy_k_NUL list_update_append replicate_append_same)
  moreover have "cstring (take (length buf - 1) (strncpy_k ''<error>'' (length buf - 1) @ drop (length buf - 1) buf)) = ''<error>''"
    using assms(3) by (simp add: cstring_strncpy_k)
  ultimately show ?thesis
    using assms(1,2)
    by (simp add: context_required_domain_def xmlContext_def requiredDomain_def copy_out_def context_current_domain_def
        bus_currentDomain_def)
qed

text \<open>
  Names that the library should have escaped: a document with an ampersand or a quotation mark in a name is not
  read at all, and a percent sign followed by the number of the value's place is replaced by the value.
\<close>

theorem unescaped_names_spoil_context:
  "bind_fault (xmlContext (Some ''a&b'') (Some ''x'') [(None, None)]) parse_context = Inr (False, [])"
  "bind_fault (xmlContext (Some [CHR ''a'', CHR 0x22, CHR ''b'']) (Some ''x'') [(None, None)]) parse_context = Inr (False, [])"
  "bind_fault (xmlContext (Some ''a%2'') (Some ''x'') [(None, None)]) parse_context = Inr (True, [(''ax'', ''x'')])"
  by code_simp+

theorem context_roundtrip_witness:
  "bind_fault (xmlContext (Some ''host'') (Some ''a&b'') (arguments [(''to'', ''<bob>'')])) parse_context =
     Inr (True, [(''host'', ''a&b''), (''to'', ''$lt;bob>'')])"
proof -
  have "list_all plain_parameter [(''host'', ''a&b''), (''to'', ''<bob>'')]" by code_simp
  from context_roundtrip [OF this]
  have "bind_fault (xmlContext (Some ''host'') (Some ''a&b'') (arguments [(''to'', ''<bob>'')])) parse_context =
      Inr (True, fold add_parameter [(''host'', ''a&b''), (''to'', ''<bob>'')] [])" by simp
  also have "fold add_parameter [(''host'', ''a&b''), (''to'', ''<bob>'')] [] = [(''host'', ''a&b''), (''to'', ''$lt;bob>'')]"
    by code_simp
  finally show ?thesis .
qed

theorem disconnected_answers_witness:
  "context_required_domain \<lparr>connected = False, reply = (\<lambda>_ _. None), queued = (\<lambda>_. False)\<rparr> ''12345678'' (Some ''host'') (Some ''a'')
     [(None, None)] = Inr (True, replicate 8 NUL)"
  using disconnected_answers [of "\<lparr>connected = False, reply = (\<lambda>_ _. None), queued = (\<lambda>_. False)\<rparr>" "''12345678''" "''host''" "''a''"]
  by (simp add: eval_nat_numeral)

end
