(* ===== verification/Program_XML.thy ===== *)
theory Program_XML
  imports Dom_Tree
begin

text \<open>
  Programs in files: the constructor of \<open>Program\<close> that reads a document and \<open>Program::retrieveDOM\<close>, which
  writes one.
\<close>

section \<open>Reading\<close>

definition parse_action :: "dnode \<Rightarrow> program \<Rightarrow> program" where
  "parse_action action p =
     (let name = attribute action NAME_TAG;
          displayName = attribute action DISPLAY_NAME_TAG;
          desc = attribute action DESCRIPTION_TAG
      in if name \<noteq> [] then
           if \<not> ocontains (prog_actions p) name
           then p\<lparr>prog_actions :=
                    oinsert name \<lparr>pa_name = name, pa_display_name = displayName, pa_description = desc\<rparr> (prog_actions p)\<rparr>
           else p
         else p)"

definition read_variable :: "framework \<Rightarrow> dnode \<Rightarrow> program_variable" where
  "read_variable F var =
     (let type = attribute var VARIABLE_TYPE_TAG;
          validation = attribute var VARIABLE_STRING_VALIDATION_TAG;
          rng = attribute var VARIABLE_INT_RANGE_TAG;
          listStr = attribute var VARIABLE_STRING_LIST_TAG;
          v = ProgramVariable (attribute var NAME_TAG) (attribute var ACTION_TAG) (attribute var DESCRIPTION_TAG);
          v = (if type \<noteq> [] then snd (setType type v) else v);
          v = (if validation \<noteq> [] then v\<lparr>pv_string_validation := validation\<rparr> else v);
          v = (if rng \<noteq> [] then snd (setIntRangeFromString F rng v) else v)
      in if listStr \<noteq> [] then setStringListFromString listStr v else v)"

definition parse_variable :: "framework \<Rightarrow> dnode \<Rightarrow> program \<Rightarrow> program" where
  "parse_variable F var p =
     (let name = attribute var NAME_TAG;
          action = attribute var ACTION_TAG
      in if name \<noteq> [] \<and> ocontains (prog_actions p) action then
           let (vars, m) = oindex [] action (prog_variables p);
               p = p\<lparr>prog_variables := m\<rparr>
           in if \<not> ocontains vars name then
                let v = read_variable F var
                in p\<lparr>prog_variables := oinsert action (oinsert name v vars) (prog_variables p),
                     var_map := mm_insert name v (var_map p)\<rparr>
              else p
         else p)"

definition parse_program :: "framework \<Rightarrow> dnode \<Rightarrow> program" where
  "parse_program F root =
     (if tagName root \<noteq> PROGRAM_TAG then Program0
      else case (firstChildElement VARIABLES_TAG root, firstChildElement ACTIONS_TAG root) of
        (Some vars, Some actions) \<Rightarrow>
          if attribute root NAME_TAG = [] then Program0
          else
            let p = fold parse_action (children_named ACTION_TAG actions) Program0;
                p = fold (parse_variable F) (children_named VARIABLE_TAG vars) p;
                p = p\<lparr>app_name := attribute root NAME_TAG,
                      prog_display_name := attribute root DISPLAY_NAME_TAG,
                      prog_icon_path := attribute root ICON_TAG,
                      full_path := attribute root FULLPATH_TAG\<rparr>
            in (case firstChildElement DESCRIPTION_TAG root of
                  None \<Rightarrow> p
                | Some desc \<Rightarrow> p\<lparr>prog_description := dom_text desc\<rparr>)
      | _ \<Rightarrow> Program0)"

text \<open>The constructor: the file may be missing (\<open>None\<close>) or not well-formed.\<close>

definition Program_file :: "framework \<Rightarrow> 'doc xml \<Rightarrow> 'doc option \<Rightarrow> program" where
  "Program_file F X file1 =
     (case file1 of
        None \<Rightarrow> Program0
      | Some doc \<Rightarrow> (case of_text X doc of None \<Rightarrow> Program0 | Some root \<Rightarrow> parse_program F root))"

section \<open>Writing\<close>

definition action_elem :: "program_action \<Rightarrow> dnode" where
  "action_elem act =
     Element ACTION_TAG
       [(DESCRIPTION_TAG, pa_description act), (DISPLAY_NAME_TAG, pa_display_name act), (NAME_TAG, pa_name act)] []"

definition variable_elem :: "program_variable \<Rightarrow> dnode" where
  "variable_elem var =
     Element VARIABLE_TAG
       ([(DESCRIPTION_TAG, pv_description var), (ACTION_TAG, pv_action var), (NAME_TAG, pv_name var),
         (VARIABLE_TYPE_TAG, vartype_toString (pv_type var))] @
        (case pv_type var of
           TRegExp \<Rightarrow> [(VARIABLE_STRING_VALIDATION_TAG, pv_string_validation var)]
         | TString \<Rightarrow> [(VARIABLE_STRING_VALIDATION_TAG, pv_string_validation var)]
         | TInt \<Rightarrow> [(VARIABLE_INT_RANGE_TAG, intRange var)]
         | TStringList \<Rightarrow> [(VARIABLE_STRING_LIST_TAG, stringListAsString var)]
         | _ \<Rightarrow> [])) []"

definition program_dom :: "program \<Rightarrow> dnode" where
  "program_dom p =
     Element PROGRAM_TAG
       [(NAME_TAG, app_name p), (DISPLAY_NAME_TAG, prog_display_name p), (ICON_TAG, prog_icon_path p),
        (FULLPATH_TAG, full_path p)]
       [Element DESCRIPTION_TAG [] [TextNode (prog_description p)],
        Element ACTIONS_TAG [] (map action_elem (ovals (prog_actions p))),
        Element VARIABLES_TAG [] (map variable_elem (map snd (var_map p)))]"

definition retrieveDOM :: "'doc xml \<Rightarrow> program \<Rightarrow> 'doc" where
  "retrieveDOM X p = to_text X (program_dom p)"

section \<open>Reading back\<close>

text \<open>A variable whose document has all of it: only the members of its type are set, bounds are printed
  numbers, and the elements of a list do not contain the separator.\<close>

definition storable_variable :: "framework \<Rightarrow> program_variable \<Rightarrow> bool" where
  "storable_variable F v =
     ((pv_type v \<noteq> TInt \<longrightarrow> pv_int_min v = [] \<and> pv_int_max v = []) \<and>
      (pv_int_min v = [] \<or> (\<exists>i. c_int i \<and> pv_int_min v = of_int_str F i)) \<and>
      (pv_int_max v = [] \<or> (\<exists>i. c_int i \<and> pv_int_max v = of_int_str F i)) \<and>
      (pv_type v \<noteq> TRegExp \<and> pv_type v \<noteq> TString \<longrightarrow> pv_string_validation v = []) \<and>
      (pv_type v \<noteq> TStringList \<longrightarrow> pv_string_list v = []) \<and>
      (\<forall>s \<in> set (pv_string_list v). CHR '';'' \<notin> set s) \<and> pv_string_list v \<noteq> [[]])"

lemma vartype_toString_nonempty: "vartype_toString t \<noteq> []"
  by (cases t) (simp_all add: vartype_toString_def)

lemma read_variable_elem:
  assumes "numbers_ok F" "storable_variable F v"
  shows "read_variable F (variable_elem v) = v"
proof -
  let ?w = "ProgramVariable0\<lparr>pv_name := pv_name v, pv_action := pv_action v, pv_description := pv_description v,
      pv_type := pv_type v\<rparr>"
  have w: "snd (setType (vartype_toString (pv_type v)) (ProgramVariable (pv_name v) (pv_action v) (pv_description v))) = ?w"
    by (simp add: setType_def ProgramVariable_def Let_def)
  note st = assms(2) [unfolded storable_variable_def]
  show ?thesis
  proof (cases "pv_type v")
    case TInt
    show ?thesis
    proof (cases "intRange v = []")
      case True
      then have "pv_int_min v = []" "pv_int_max v = []" by (auto simp: intRange_def split: if_splits)
      with TInt True st w show ?thesis
        by (intro program_variable.equality)
          (simp_all add: read_variable_def variable_elem_def vartype_toString_nonempty Let_def ProgramVariable0_def)
    next
      case False
      have "setIntRangeFromString F (intRange v) ?w = (True, ?w\<lparr>pv_int_min := pv_int_min v, pv_int_max := pv_int_max v\<rparr>)"
        using st by (intro setIntRange_intRange assms(1) False) (simp_all add: ProgramVariable0_def)
      with TInt False st w show ?thesis
        by (intro program_variable.equality)
          (simp_all add: read_variable_def variable_elem_def vartype_toString_nonempty Let_def ProgramVariable0_def)
    qed
  next
    case TStringList
    have "setStringListFromString (stringListAsString v) ?w = ?w\<lparr>pv_string_list := pv_string_list v\<rparr>"
      using st by (intro setStringList_stringListAsString) simp_all
    with TStringList st w show ?thesis
      by (intro program_variable.equality)
        (simp_all add: read_variable_def variable_elem_def vartype_toString_nonempty Let_def ProgramVariable0_def
          stringListAsString_def)
  qed (use st w in \<open>intro program_variable.equality;
      simp add: read_variable_def variable_elem_def vartype_toString_nonempty Let_def ProgramVariable0_def\<close>)+
qed

lemma parse_actions:
  assumes "osorted (prog_actions p @ m)" "\<forall>(k, a) \<in> set m. pa_name a = k \<and> k \<noteq> []"
  shows "fold parse_action (map action_elem (ovals m)) p = p\<lparr>prog_actions := prog_actions p @ m\<rparr>"
  using assms
proof (induction m arbitrary: p)
  case (Cons ka m)
  obtain k a where ka: "ka = (k, a)" by fastforce
  have lt: "\<forall>k' \<in> set (okeys (prog_actions p)). k' < k"
    using Cons.prems(1) by (auto simp: ka osorted_def sorted_wrt_append okeys_def)
  then have "k \<notin> set (okeys (prog_actions p))" by auto
  moreover have eta: "\<lparr>pa_name = pa_name a, pa_display_name = pa_display_name a, pa_description = pa_description a\<rparr> = a"
    by simp
  ultimately have "parse_action (action_elem a) p = p\<lparr>prog_actions := prog_actions p @ [(k, a)]\<rparr>"
    using Cons.prems(2) oinsert_snoc [OF lt, of a]
    by (auto simp: ka parse_action_def action_elem_def Let_def in_okeys_iff eta)
  then show ?case
    using Cons.IH [of "p\<lparr>prog_actions := prog_actions p @ [(k, a)]\<rparr>"] Cons.prems by (simp add: ka)
qed simp

lemma parse_variables:
  assumes "numbers_ok F" "sorted (map fst (var_map p))"
    and "\<forall>v \<in> set vs. pv_name v \<noteq> [] \<and> ocontains (prog_actions p) (pv_action v) \<and> storable_variable F v"
    and "distinct (map (\<lambda>v. (pv_action v, pv_name v)) vs)"
    and "\<forall>v \<in> set vs. \<not> ocontains (ovalue [] (prog_variables p) (pv_action v)) (pv_name v)"
  defines "q \<equiv> fold (parse_variable F) (map variable_elem vs) p"
  shows "prog_actions q = prog_actions p \<and> sorted (map fst (var_map q)) \<and>
    mm_values n (var_map q) = rev (filter (\<lambda>v. pv_name v = n) vs) @ mm_values n (var_map p)"
  using assms(2-5) unfolding q_def
proof (induction vs arbitrary: p)
  case (Cons v vs)
  let ?vars = "ovalue [] (prog_variables p) (pv_action v)"
  let ?p = "p\<lparr>prog_variables := oinsert (pv_action v) (oinsert (pv_name v) v ?vars)
        (snd (oindex [] (pv_action v) (prog_variables p))),
      var_map := mm_insert (pv_name v) v (var_map p)\<rparr>"
  have attrs: "attribute (variable_elem v) NAME_TAG = pv_name v" "attribute (variable_elem v) ACTION_TAG = pv_action v"
    by (simp_all add: variable_elem_def)
  have "parse_variable F (variable_elem v) p = ?p"
    using Cons.prems read_variable_elem [OF assms(1), of v]
    by (simp add: parse_variable_def attrs Let_def case_prod_beta oindex_value)
  moreover have "\<not> ocontains (ovalue [] (prog_variables ?p) (pv_action u)) (pv_name u)" if "u \<in> set vs" for u
  proof -
    have "(pv_action u, pv_name u) \<noteq> (pv_action v, pv_name v)" using Cons.prems(3) that by (auto simp: image_iff)
    then show ?thesis
      using Cons.prems(4) that by (auto simp: ovalue_def ofind_oindex ocontains_def split: option.splits if_splits)
  qed
  ultimately show ?case
    using Cons.IH [of ?p] Cons.prems by (simp add: mm_insert_sorted mm_values_insert)
qed simp

text \<open>A program whose document has all of it: actions and variables are filed under their names, variables
  belong to actions, no two variables agree in name and action, and the description is not only white
  space.\<close>

definition storable_program :: "framework \<Rightarrow> program \<Rightarrow> bool" where
  "storable_program F p =
     (app_name p \<noteq> [] \<and> solid (prog_description p) \<and>
      osorted (prog_actions p) \<and> (\<forall>(k, a) \<in> set (prog_actions p). pa_name a = k \<and> k \<noteq> []) \<and>
      (\<forall>(k, v) \<in> set (var_map p). pv_name v = k \<and> k \<noteq> [] \<and> ocontains (prog_actions p) (pv_action v) \<and>
         storable_variable F v) \<and>
      distinct (map (\<lambda>v. (pv_action v, pv_name v)) (map snd (var_map p))))"

lemma find_snoc: "find P (ys @ [y]) = (case find P ys of None \<Rightarrow> if P y then Some y else None | Some z \<Rightarrow> Some z)"
  by (induction ys) auto

lemma find_unique_rev:
  assumes "distinct (map f xs)"
  shows "find (\<lambda>x. f x = a) (rev xs) = find (\<lambda>x. f x = a) xs"
  using assms
proof (induction xs)
  case (Cons x xs)
  have "find (\<lambda>x. f x = a) xs = None" if "f x = a"
    using Cons.prems that by (auto simp: find_None_iff image_iff)
  with Cons show ?case by (auto simp: find_snoc split: option.split)
qed simp

lemma getVariableByName_rev:
  assumes "mm_values n (var_map q) = rev (mm_values n (var_map p))" "distinct (map pv_action (mm_values n (var_map p)))"
    "action \<noteq> []"
  shows "getVariableByName q n action = getVariableByName p n action"
  using assms by (simp add: getVariableByName_def find_unique_rev Let_def)

text \<open>The variables of one name have different actions.\<close>

lemma distinct_actions:
  assumes "distinct (map (\<lambda>v. (pv_action v, pv_name v)) (map snd m))" "\<forall>(k, v) \<in> set m. pv_name v = k"
  shows "distinct (map pv_action (mm_values n m))"
  using assms
proof (induction m)
  case (Cons kv m)
  then show ?case by (cases kv) (force simp: mm_values_def image_iff)
qed (simp add: mm_values_def)

lemma storable_distinct_actions:
  assumes "storable_program F p"
  shows "distinct (map pv_action (mm_values n (var_map p)))"
  using assms by (intro distinct_actions) (auto simp: storable_program_def)

lemma variable_elem_norm: "dom_norm (variable_elem v) = variable_elem v" "dom_norm (action_elem a) = action_elem a"
  by (simp_all add: variable_elem_def action_elem_def)

lemma program_dom_norm:
  "dom_norm (program_dom p) =
     Element PROGRAM_TAG
       [(NAME_TAG, app_name p), (DISPLAY_NAME_TAG, prog_display_name p), (ICON_TAG, prog_icon_path p),
        (FULLPATH_TAG, full_path p)]
       [dom_norm (Element DESCRIPTION_TAG [] [TextNode (prog_description p)]),
        Element ACTIONS_TAG [] (map action_elem (ovals (prog_actions p))),
        Element VARIABLES_TAG [] (map variable_elem (map snd (var_map p)))]"
proof -
  have "map dom_norm (filter (\<lambda>k. \<not> blank_text k) (map action_elem as)) = map action_elem as"
    "map dom_norm (filter (\<lambda>k. \<not> blank_text k) (map variable_elem vs)) = map variable_elem vs" for as vs
    by (induction as; simp add: action_elem_def) (induction vs; simp add: variable_elem_def)
  then show ?thesis
    unfolding program_dom_def by (simp del: map_map)
qed

lemma children_of_map:
  "children_named ACTION_TAG (Element t as (map action_elem acts)) = map action_elem acts"
  "children_named VARIABLE_TAG (Element t as (map variable_elem vs)) = map variable_elem vs"
  by (simp_all add: children_named_def filter_id_conv action_elem_def variable_elem_def)

lemma mm_values_names:
  "\<forall>(k, v) \<in> set m. pv_name v = k \<Longrightarrow> filter (\<lambda>v. pv_name v = n) (map snd m) = mm_values n m"
  by (induction m) (auto simp: mm_values_def)

lemma parse_program_dom:
  assumes "numbers_ok F" "storable_program F p"
  defines "q \<equiv> parse_program F (dom_norm (program_dom p))"
  shows "app_name q = app_name p" "prog_display_name q = prog_display_name p"
    "prog_icon_path q = prog_icon_path p" "full_path q = full_path p" "prog_description q = prog_description p"
    "prog_actions q = prog_actions p" "mm_values n (var_map q) = rev (mm_values n (var_map p))"
proof -
  note st = assms(2) [unfolded storable_program_def]
  let ?p1 = "fold parse_action (map action_elem (ovals (prog_actions p))) Program0"
  let ?p2 = "fold (parse_variable F) (map variable_elem (map snd (var_map p))) ?p1"
  have p1: "?p1 = Program0\<lparr>prog_actions := prog_actions p\<rparr>"
    using parse_actions [of Program0 "prog_actions p"] st by (simp add: Program0_def Program_def)
  have p1f: "prog_actions ?p1 = prog_actions p" "prog_variables ?p1 = []" "var_map ?p1 = []"
    unfolding p1 by (simp_all add: Program0_def Program_def)
  have p2: "prog_actions ?p2 = prog_actions ?p1 \<and> sorted (map fst (var_map ?p2)) \<and>
      mm_values n (var_map ?p2) = rev (filter (\<lambda>v. pv_name v = n) (map snd (var_map p))) @ mm_values n (var_map ?p1)"
    by (intro parse_variables assms(1))
      (use st in \<open>auto simp: p1f ovalue_def ocontains_def case_prod_beta o_def\<close>)
  have q: "q = ?p2\<lparr>app_name := app_name p, prog_display_name := prog_display_name p,
      prog_icon_path := prog_icon_path p, full_path := full_path p, prog_description := prog_description p\<rparr>"
    using st text_norm [of "prog_description p" DESCRIPTION_TAG "[]"]
    unfolding q_def program_dom_norm parse_program_def
    by (simp add: firstChildElement_def children_named_def [of DESCRIPTION_TAG] children_named_def [of VARIABLES_TAG]
        children_named_def [of ACTIONS_TAG] children_of_map Let_def del: map_map)
  show "app_name q = app_name p" "prog_display_name q = prog_display_name p"
    "prog_icon_path q = prog_icon_path p" "full_path q = full_path p" "prog_description q = prog_description p"
    "prog_actions q = prog_actions p"
    using p1f p2 by (simp_all add: q)
  show "mm_values n (var_map q) = rev (mm_values n (var_map p))"
    using p2 mm_values_names [of "var_map p" n] st
    by (simp add: q p1f mm_values_def [of n "[]"]) (auto simp: case_prod_beta)
qed

section \<open>Properties\<close>

text \<open>
  C22: saving a program and reading the file back restores its names, paths, description and actions and
  every variable with its type and restrictions, so that looking up a variable of an action gives the
  same as before.  The variables that share a name come back in the opposite order, so that looking up
  a name without an action gives the variable that had been entered first instead of the last one.
  The program is to be one that its file can hold: it, its actions and its variables have names, every variable belongs
  to one of its actions, no two variables have both name and action in common, a variable has only the restrictions of its type,
  with bounds that are C integers and list elements without a semicolon (and not the empty text alone), the
  description is not only blanks, and all texts are of printable ASCII characters.
\<close>

theorem program_file_roundtrip:
  assumes "xml_ok X" "numbers_ok F" "storable_program F p" "dom_writable (program_dom p)"
  defines "q \<equiv> Program_file F X (Some (retrieveDOM X p))"
  shows "program_eq q p \<and> prog_actions q = prog_actions p \<and>
    (\<forall>name action. action \<noteq> [] \<longrightarrow> getVariableByName q name action = getVariableByName p name action) \<and>
    (\<forall>name. mm_values name (var_map q) = rev (mm_values name (var_map p)))"
proof -
  have "of_text X (to_text X (program_dom p)) = Some (dom_norm (program_dom p))"
    using assms(1,4) unfolding xml_ok_def program_dom_def by blast
  then have q: "q = parse_program F (dom_norm (program_dom p))"
    by (simp add: q_def Program_file_def retrieveDOM_def)
  note rt = parse_program_dom [OF assms(2,3), folded q]
  have "getVariableByName q n a = getVariableByName p n a" if "a \<noteq> []" for n a
    using rt(7) storable_distinct_actions [OF assms(3)] that by (rule getVariableByName_rev)
  with rt show ?thesis by (simp add: program_eq_def)
qed

definition sample_stored :: program where
  "sample_stored =
     setActionsAndVariables
       [(''read'', \<lparr>pa_name = ''read'', pa_display_name = ''Read'', pa_description = []\<rparr>),
        (''send'', \<lparr>pa_name = ''send'', pa_display_name = ''Send'', pa_description = []\<rparr>)]
       [ProgramVariable ''to'' ''read'' ''Reader'', ProgramVariable ''to'' ''send'' ''Recipient'']
       (Program ''mutt'' ''Mutt'' [] ''/usr/bin/mutt'' ''A mail client'')"

theorem program_file_roundtrip_witness:
  "getVariableByName (Program_file simple_framework tree_xml (Some (retrieveDOM tree_xml sample_stored))) ''to'' [] =
     ProgramVariable ''to'' ''read'' ''Reader'' \<and>
   getVariableByName sample_stored ''to'' [] = ProgramVariable ''to'' ''send'' ''Recipient''"
proof -
  have vars: "var_map sample_stored = [(''to'', ProgramVariable ''to'' ''send'' ''Recipient''), (''to'', ProgramVariable ''to'' ''read'' ''Reader'')]"
    by code_simp
  have "dom_writable (program_dom sample_stored)" by code_simp
  moreover have "storable_program simple_framework sample_stored"
    unfolding storable_program_def vars
    by (simp add: sample_stored_def setActionsAndVariables_def Program_def storable_variable_def ProgramVariable_def
        ProgramVariable0_def solid_def blank_def ocontains_def less_char_def)
  ultimately have "mm_values ''to'' (var_map (Program_file simple_framework tree_xml (Some (retrieveDOM tree_xml sample_stored)))) =
      [ProgramVariable ''to'' ''read'' ''Reader'', ProgramVariable ''to'' ''send'' ''Recipient'']"
    using program_file_roundtrip [OF tree_xml_ok simple_framework_numbers, of sample_stored]
    by (simp add: vars mm_values_def)
  then show ?thesis by (simp add: getVariableByName_def vars mm_values_def [of _ "[_, _]"])
qed

end
