(* ===== verification/Rules.thy ===== *)
theory Rules
  imports Program_Data "HOL-Library.Multiset"
begin

text \<open>
  Transition rules: matching rules (\<open>mrule.cpp\<close>), the domains a rule applies in (\<open>trule.cpp\<close>), the
  transitions they give (\<open>transition.cpp\<close>), and the rules and loops made of them (\<open>abstractrule.cpp\<close>,
  \<open>rule.cpp\<close>, \<open>loop.cpp\<close>).

  The class hierarchy is a record hierarchy: a loop is an \<open>abstract_rule\<close>, a rule extends it by its
  target domain, and the virtual function \<open>targetDomain\<close> is an argument of the operations that call it.
  The static counter of rule identifiers and the table of assigned values are passed explicitly.
  Members a constructor leaves uninitialised are arguments of it.
\<close>

section \<open>Matching rules\<close>

record mrule =
  conditions :: "(string, string) omap"
  mr_prog :: program
  mr_action :: string
  mr_display_name :: string

definition MRule :: "program \<Rightarrow> string \<Rightarrow> string \<Rightarrow> mrule" where
  "MRule prog action display_name =
     \<lparr>conditions = [], mr_prog = prog, mr_action = action, mr_display_name = display_name\<rparr>"

definition addCondition :: "string \<Rightarrow> string \<Rightarrow> mrule \<Rightarrow> assigned \<Rightarrow> bool \<times> mrule \<times> assigned" where
  "addCondition name value r a =
     (let var = (if \<not> program_eq (mr_prog r) Program0
                 then getVariableByName (mr_prog r) name (mr_action r) else ProgramVariable0);
          varExists = (\<not> program_eq (mr_prog r) Program0 \<and> \<not> pvar_eq var ProgramVariable0)
      in if ofind (conditions r) name = None then
           (True, r\<lparr>conditions := oinsert name value (conditions r)\<rparr>,
            if varExists then addAssignedValue (pv_name var) (pv_type var) value a else a)
         else (False, r, a))"

text \<open>The repair of mail addresses: in the fields \<open>from\<close> and \<open>to\<close>, the marks around the address are cut.\<close>

definition mail_value :: "string \<Rightarrow> string \<Rightarrow> string" where
  "mail_value key val =
     (if str_iequal key ''from'' \<or> str_iequal key ''to'' then
        if str_contains ''$lt;'' val \<and> length val > 4 then
          let val = str_replace ''$lt;'' [] val in
          if str_contains ''>'' val then str_before (CHR ''>'') val else val
        else val
      else val)"

text \<open>The loop over the values: \<open>None\<close> if it returns \<open>false\<close>, else the names marked as used.\<close>

fun mrule_loop :: "framework \<Rightarrow> (string, string) omap \<Rightarrow> (string \<times> string) list \<Rightarrow> string list \<Rightarrow> string list option" where
  "mrule_loop F conds [] used = Some used"
| "mrule_loop F conds ((key, val) # vals) used =
     (case ofind conds key of
        None \<Rightarrow> mrule_loop F conds vals used
      | Some pat \<Rightarrow>
          if rx_valid F pat then
            if \<not> rx_match F pat (mail_value key val) then None
            else mrule_loop F conds vals (List.insert key used)
          else mrule_loop F conds vals used)"

definition mrule_matches :: "framework \<Rightarrow> mrule \<Rightarrow> (string, string) omap \<Rightarrow> bool" where
  "mrule_matches F r vals =
     (case mrule_loop F (conditions r) vals [] of
        None \<Rightarrow> False
      | Some paramsUsed \<Rightarrow> length paramsUsed = length (conditions r))"

section \<open>Transition rules\<close>

record trule =
  from_domain :: string
  tr_notify :: bool
  has_notify :: bool
  tr_prompt :: bool
  has_prompt :: bool

definition TRule :: "string \<Rightarrow> trule" where
  "TRule from = \<lparr>from_domain = from, tr_notify = True, has_notify = False, tr_prompt = True, has_prompt = False\<rparr>"

definition TRule0 :: trule where "TRule0 = TRule []"

definition trule_setNotify :: "bool \<Rightarrow> trule \<Rightarrow> trule" where
  "trule_setNotify value t = t\<lparr>tr_notify := value, has_notify := True\<rparr>"

definition trule_setPrompt :: "bool \<Rightarrow> trule \<Rightarrow> trule" where
  "trule_setPrompt value t = t\<lparr>tr_prompt := value, has_prompt := True\<rparr>"

definition trule_isValid :: "trule \<Rightarrow> bool" where
  "trule_isValid t = (from_domain t \<noteq> [])"

definition trule_matches :: "framework \<Rightarrow> trule \<Rightarrow> string \<Rightarrow> bool" where
  "trule_matches F t d = rx_match F (from_domain t) d"

section \<open>Transitions\<close>

record transition =
  tn_valid :: bool
  tn_program :: program
  transit_from :: domain
  tn_transit_to :: domain
  promptUser :: bool
  notifyUser :: bool

definition Transition0 :: transition where
  "Transition0 = \<lparr>tn_valid = False, tn_program = Program0, transit_from = Domain0, tn_transit_to = Domain0,
     promptUser = False, notifyUser = False\<rparr>"

definition Transition :: "program \<Rightarrow> domain \<Rightarrow> domain \<Rightarrow> bool \<Rightarrow> bool \<Rightarrow> transition" where
  "Transition prog from to prompt_user notify_user =
     \<lparr>tn_valid = True, tn_program = prog, transit_from = from, tn_transit_to = to,
      promptUser = prompt_user, notifyUser = notify_user\<rparr>"

definition transition_eq :: "transition \<Rightarrow> transition \<Rightarrow> bool" where
  "transition_eq a b = (tn_valid a = tn_valid b \<and> program_eq (tn_program a) (tn_program b) \<and>
     domain_eq (transit_from a) (transit_from b) \<and> domain_eq (tn_transit_to a) (tn_transit_to b) \<and>
     promptUser a = promptUser b \<and> notifyUser a = notifyUser b)"

section \<open>Rules and loops\<close>

record abstract_rule =
  ar_program :: program
  ar_display_name :: string
  ar_id :: int
  ar_priority :: int
  ar_prompt :: bool
  ar_notify :: bool
  mrules :: "mrule list"
  trules :: "trule list"

type_synonym loop = abstract_rule

record rule = abstract_rule +
  transit_to :: domain

definition InvalidId :: int where "InvalidId = 0"
definition InvalidPriority :: int where "InvalidPriority = 0"

text \<open>The constructors, with the value of the identifier counter and the garbage in \<open>_prompt\<close> and \<open>_notify\<close>.\<close>

definition Loop0 :: "bool \<Rightarrow> bool \<Rightarrow> loop" where
  "Loop0 p n = \<lparr>ar_program = Program0, ar_display_name = [], ar_id = InvalidId,
     ar_priority = InvalidPriority, ar_prompt = p, ar_notify = n, mrules = [], trules = []\<rparr>"

definition Loop :: "bool \<Rightarrow> bool \<Rightarrow> program \<Rightarrow> string \<Rightarrow> int \<Rightarrow> loop \<times> int" where
  "Loop p n prog display_name idCounter =
     (\<lparr>ar_program = prog, ar_display_name = display_name, ar_id = idCounter + 1,
       ar_priority = idCounter + 1, ar_prompt = p, ar_notify = n, mrules = [], trules = []\<rparr>, idCounter + 1)"

definition Rule0 :: "bool \<Rightarrow> bool \<Rightarrow> rule" where
  "Rule0 p n = \<lparr>ar_program = Program0, ar_display_name = [], ar_id = InvalidId,
     ar_priority = InvalidPriority, ar_prompt = p, ar_notify = n, mrules = [], trules = [],
     transit_to = Domain0\<rparr>"

definition Rule :: "bool \<Rightarrow> bool \<Rightarrow> program \<Rightarrow> domain \<Rightarrow> string \<Rightarrow> int \<Rightarrow> rule \<times> int" where
  "Rule p n prog to display_name idCounter =
     (\<lparr>ar_program = prog, ar_display_name = display_name, ar_id = idCounter + 1,
       ar_priority = idCounter + 1, ar_prompt = p, ar_notify = n, mrules = [], trules = [],
       transit_to = to\<rparr>, idCounter + 1)"

definition arule_isValid :: "'a abstract_rule_scheme \<Rightarrow> bool" where
  "arule_isValid r = (ar_id r \<noteq> InvalidId)"

definition rule_isValid :: "rule \<Rightarrow> bool" where
  "rule_isValid r = (arule_isValid r \<and> \<not> domain_eq (transit_to r) Domain0)"

definition setProgram :: "framework \<Rightarrow> program \<Rightarrow> bool \<Rightarrow> 'a abstract_rule_scheme \<Rightarrow> bool \<times> 'a abstract_rule_scheme" where
  "setProgram F prog allow_invalid r =
     (if program_isValid F prog \<or> allow_invalid then (True, r\<lparr>ar_program := prog\<rparr>) else (False, r))"

definition setTransitTo :: "domain \<Rightarrow> rule \<Rightarrow> bool \<times> rule" where
  "setTransitTo dest r = (if \<not> domain_eq dest Domain0 then (True, r\<lparr>transit_to := dest\<rparr>) else (False, r))"

definition addMRule :: "mrule \<Rightarrow> 'a abstract_rule_scheme \<Rightarrow> 'a abstract_rule_scheme" where
  "addMRule m r = r\<lparr>mrules := mrules r @ [m]\<rparr>"

definition addTRule :: "trule \<Rightarrow> 'a abstract_rule_scheme \<Rightarrow> 'a abstract_rule_scheme" where
  "addTRule t r = r\<lparr>trules := trules r @ [t]\<rparr>"

fun delete_trule :: "string \<Rightarrow> trule list \<Rightarrow> trule \<times> trule list" where
  "delete_trule d [] = (TRule0, [])"
| "delete_trule d (t # ts) =
     (if from_domain t = d then (t, ts)
      else let (r, ts') = delete_trule d ts in (r, t # ts'))"

definition deleteTRule :: "string \<Rightarrow> 'a abstract_rule_scheme \<Rightarrow> trule \<times> 'a abstract_rule_scheme" where
  "deleteTRule d r = (let (t, ts) = delete_trule d (trules r) in (t, r\<lparr>trules := ts\<rparr>))"

definition tRulesContain :: "framework \<Rightarrow> string \<Rightarrow> bool \<Rightarrow> 'a abstract_rule_scheme \<Rightarrow> bool" where
  "tRulesContain F name regexp_match_allowed r =
     (\<exists>t \<in> set (trules r). if regexp_match_allowed then trule_matches F t name else from_domain t = name)"

text \<open>For each transition rule in turn, the known domains it matches are moved to the result.\<close>

fun matched_loop :: "framework \<Rightarrow> ('d \<Rightarrow> string) \<Rightarrow> trule list \<Rightarrow> 'd list \<Rightarrow> 'd list" where
  "matched_loop F name [] known = []"
| "matched_loop F name (t # ts) known =
     (if known = [] then []
      else filter (\<lambda>d. trule_matches F t (name d)) known @
           matched_loop F name ts (filter (\<lambda>d. \<not> trule_matches F t (name d)) known))"

definition matchedDomains :: "framework \<Rightarrow> 'a abstract_rule_scheme \<Rightarrow> domain list \<Rightarrow> domain list" where
  "matchedDomains F r knownDomains = matched_loop F dom_name (trules r) knownDomains"

definition matchedDomainNames :: "framework \<Rightarrow> 'a abstract_rule_scheme \<Rightarrow> string list \<Rightarrow> string list" where
  "matchedDomainNames F r knownDomainNames = matched_loop F (\<lambda>d. d) (trules r) knownDomainNames"

text \<open>The search for a transition: the transition and the flag \<open>matchedButRefused\<close>.\<close>

fun mrules_loop ::
    "framework \<Rightarrow> (domain \<Rightarrow> domain) \<Rightarrow> 'a abstract_rule_scheme \<Rightarrow> program \<Rightarrow> domain \<Rightarrow> (string, string) omap \<Rightarrow>
     mrule list \<Rightarrow> transition \<times> bool" where
  "mrules_loop F targetDomain r prog current vals [] = (Transition0, False)"
| "mrules_loop F targetDomain r prog current vals (m # ms) =
     (if mrule_matches F m vals then
        (case find (\<lambda>t. trule_matches F t (dom_name current)) (trules r) of
           Some t \<Rightarrow>
             (Transition prog current (targetDomain current)
                (if has_prompt t then tr_prompt t else ar_prompt r)
                (if has_notify t then tr_notify t else ar_notify r), False)
         | None \<Rightarrow> (Transition0, True))
      else mrules_loop F targetDomain r prog current vals ms)"

definition arule_matches ::
    "framework \<Rightarrow> (domain \<Rightarrow> domain) \<Rightarrow> 'a abstract_rule_scheme \<Rightarrow> program \<Rightarrow> domain \<Rightarrow> (string, string) omap \<Rightarrow>
     transition \<times> bool" where
  "arule_matches F targetDomain r prog current vals =
     (if \<not> program_isValid F prog then (Transition0, False)
      else if app_name prog \<noteq> app_name (ar_program r) then (Transition0, False)
      else mrules_loop F targetDomain r prog current vals (mrules r))"

definition loop_targetDomain :: "domain \<Rightarrow> domain" where
  "loop_targetDomain current = current"

definition rule_targetDomain :: "rule \<Rightarrow> domain \<Rightarrow> domain" where
  "rule_targetDomain r current = transit_to r"

definition loop_matches ::
    "framework \<Rightarrow> loop \<Rightarrow> program \<Rightarrow> domain \<Rightarrow> (string, string) omap \<Rightarrow> transition \<times> bool" where
  "loop_matches F r = arule_matches F loop_targetDomain r"

definition rule_matches ::
    "framework \<Rightarrow> rule \<Rightarrow> program \<Rightarrow> domain \<Rightarrow> (string, string) omap \<Rightarrow> transition \<times> bool" where
  "rule_matches F r = arule_matches F (rule_targetDomain r) r"

definition hasHigherPriority :: "'a abstract_rule_scheme \<Rightarrow> 'b abstract_rule_scheme \<Rightarrow> bool" where
  "hasHigherPriority r other = (ar_priority r < ar_priority other)"

definition swap_priorities ::
    "'a abstract_rule_scheme \<Rightarrow> 'b abstract_rule_scheme \<Rightarrow> 'a abstract_rule_scheme \<times> 'b abstract_rule_scheme" where
  "swap_priorities r other =
     (r\<lparr>ar_priority := ar_priority other\<rparr>, other\<lparr>ar_priority := ar_priority r\<rparr>)"

section \<open>What matching means\<close>

text \<open>All conditions hold: each named value is present and its valid pattern matches it.\<close>

definition mrule_satisfied :: "framework \<Rightarrow> mrule \<Rightarrow> (string, string) omap \<Rightarrow> bool" where
  "mrule_satisfied F r vals =
     (\<forall>(key, pat) \<in> set (conditions r).
        \<exists>val. ofind vals key = Some val \<and> rx_valid F pat \<and> rx_match F pat (mail_value key val))"

lemma mrule_loop_None:
  "mrule_loop F conds vals used = None \<longleftrightarrow>
     (\<exists>(key, val) \<in> set vals. \<exists>pat. ofind conds key = Some pat \<and> rx_valid F pat \<and>
        \<not> rx_match F pat (mail_value key val))"
  by (induction F conds vals used rule: mrule_loop.induct) (auto split: option.splits)

lemma mrule_loop_Some:
  "mrule_loop F conds vals used = Some u \<Longrightarrow> distinct used \<Longrightarrow>
     distinct u \<and> set u = set used \<union>
       {key. \<exists>val pat. (key, val) \<in> set vals \<and> ofind conds key = Some pat \<and> rx_valid F pat}"
  by (induction F conds vals used rule: mrule_loop.induct) (auto split: option.splits if_splits)

lemma mrule_loop_used:
  assumes "osorted conds" "osorted vals" "mrule_loop F conds vals [] = Some u"
  shows "distinct u"
    and "key \<in> set u \<longleftrightarrow> (\<exists>val pat. ofind vals key = Some val \<and> ofind conds key = Some pat \<and> rx_valid F pat)"
    and "length u = length conds \<longleftrightarrow> set u = set (okeys conds)"
proof -
  show "distinct u"
    using mrule_loop_Some [OF assms(3)] by simp
  show iff: "key \<in> set u \<longleftrightarrow> (\<exists>val pat. ofind vals key = Some val \<and> ofind conds key = Some pat \<and> rx_valid F pat)"
    for key
    using mrule_loop_Some [OF assms(3)] om.entry_iff [OF assms(2), of key] by auto
  have "set u \<subseteq> set (okeys conds)"
    using iff by (auto simp: set_okeys)
  moreover have "card (set u) = length u" "card (set (okeys conds)) = length conds"
    using distinct_card [OF \<open>distinct u\<close>] distinct_card [OF osorted_distinct [OF assms(1)]] by simp_all
  ultimately show "length u = length conds \<longleftrightarrow> set u = set (okeys conds)"
    by (metis List.finite_set card_subset_eq)
qed

lemma mrule_satisfied_iff:
  assumes "osorted (conditions r)"
  shows "mrule_satisfied F r vals \<longleftrightarrow>
     (\<forall>key pat. ofind (conditions r) key = Some pat \<longrightarrow>
        (\<exists>val. ofind vals key = Some val \<and> rx_valid F pat \<and> rx_match F pat (mail_value key val)))"
  unfolding mrule_satisfied_def om.entry_iff [OF assms, symmetric] by auto

lemma mrule_loop_None_iff:
  assumes "osorted vals"
  shows "mrule_loop F conds vals used = None \<longleftrightarrow>
     (\<exists>key val pat. ofind vals key = Some val \<and> ofind conds key = Some pat \<and> rx_valid F pat \<and>
        \<not> rx_match F pat (mail_value key val))"
  unfolding mrule_loop_None om.entry_iff [OF assms, symmetric] by auto

lemma mrule_matches_iff:
  assumes "osorted (conditions r)" "osorted vals"
  shows "mrule_matches F r vals \<longleftrightarrow> mrule_satisfied F r vals"
proof (cases "mrule_loop F (conditions r) vals []")
  case None
  then obtain key val pat where "ofind vals key = Some val" "ofind (conditions r) key = Some pat"
    "\<not> rx_match F pat (mail_value key val)"
    using mrule_loop_None_iff [OF assms(2)] by blast
  then have "\<not> mrule_satisfied F r vals"
    unfolding mrule_satisfied_iff [OF assms(1)] by force
  with None show ?thesis by (simp add: mrule_matches_def)
next
  case (Some u)
  have matched: "rx_match F pat (mail_value key val)"
    if "ofind vals key = Some val" "ofind (conditions r) key = Some pat" "rx_valid F pat" for key val pat
    using Some that mrule_loop_None_iff [OF assms(2), of F "conditions r" "[]"] by force
  have "set u = set (okeys (conditions r)) \<longleftrightarrow> mrule_satisfied F r vals"
    unfolding mrule_satisfied_iff [OF assms(1)] set_eq_iff mrule_loop_used(2) [OF assms Some]
    using matched by (fastforce simp: set_okeys)
  with Some mrule_loop_used(3) [OF assms Some] show ?thesis
    by (simp add: mrule_matches_def)
qed

lemma mrules_loop_eq:
  "mrules_loop F target r prog current vals ms =
     (if \<exists>m \<in> set ms. mrule_matches F m vals then
        (case find (\<lambda>t. trule_matches F t (dom_name current)) (trules r) of
           Some t \<Rightarrow>
             (Transition prog current (target current)
                (if has_prompt t then tr_prompt t else ar_prompt r)
                (if has_notify t then tr_notify t else ar_notify r), False)
         | None \<Rightarrow> (Transition0, True))
      else (Transition0, False))"
  by (induction ms) auto

lemma arule_matches_program:
  "tn_valid (fst (arule_matches F target r prog current vals)) \<Longrightarrow>
     program_isValid F prog \<and> app_name prog = app_name (ar_program r)"
  by (auto simp: arule_matches_def Transition0_def split: if_splits)

lemma mset_filter_or:
  "mset (filter P xs) + mset (filter Q (filter (\<lambda>x. \<not> P x) xs)) = mset (filter (\<lambda>x. P x \<or> Q x) xs)"
  by (induction xs) (auto simp del: mset_filter filter_filter)

lemma matched_loop_mset:
  "mset (matched_loop F name ts known) =
     mset (filter (\<lambda>d. \<exists>t \<in> set ts. trule_matches F t (name d)) known)"
proof (induction ts arbitrary: known)
  case (Cons t ts)
  then show ?case
    using mset_filter_or [of "\<lambda>d. trule_matches F t (name d)" known
        "\<lambda>d. \<exists>t \<in> set ts. trule_matches F t (name d)"]
    by (simp del: mset_filter filter_filter)
qed simp

lemma delete_trule_spec:
  "delete_trule d ts = (t, ts') \<Longrightarrow>
     (if d \<in> from_domain ` set ts then from_domain t = d \<and> mset ts = add_mset t (mset ts')
      else t = TRule0 \<and> ts' = ts)"
proof (induction ts arbitrary: t ts')
  case (Cons u us)
  obtain t1 us1 where 1: "delete_trule d us = (t1, us1)" by fastforce
  from Cons.IH [OF 1] Cons.prems 1 show ?case
    by (cases "from_domain u = d"; cases "d \<in> from_domain ` set us") auto
qed simp

section \<open>Properties\<close>

text \<open>A matching rule matches exactly when all its conditions hold.  The loop of \<open>MRule::matches\<close> over
  the values, with its early return and its count of used parameters, decides that every condition
  names a value that is present and has a valid pattern that matches the (repaired) value; values
  without a condition play no role.\<close>

theorem mrule_matches_all_conditions:
  assumes "osorted (conditions r)" "osorted vals"
  shows "mrule_matches F r vals \<longleftrightarrow>
           (\<forall>(key, pat) \<in> set (conditions r).
              \<exists>val. ofind vals key = Some val \<and> rx_valid F pat \<and> rx_match F pat (mail_value key val))"
  using mrule_matches_iff [OF assms] by (simp add: mrule_satisfied_def)

theorem mrule_matches_all_conditions_witness:
  "mrule_matches simple_framework ((MRule Program0 [] [])\<lparr>conditions := [(''from'', ''bob'')]\<rparr>)
     [(''from'', ''$lt;bob>''), (''to'', ''x'')]"
proof -
  have "osorted [(''from'', ''bob'')]" "osorted [(''from'', ''$lt;bob>''), (''to'', ''x'')]"
    by (simp_all add: less_char_def)
  with mrule_matches_all_conditions [of "(MRule Program0 [] [])\<lparr>conditions := [(''from'', ''bob'')]\<rparr>"
      "[(''from'', ''$lt;bob>''), (''to'', ''x'')]" simple_framework]
  show ?thesis
    by (simp add: simple_framework_def mail_value_def str_iequal_def str_before_def Let_def)
qed

text \<open>What a rule or loop decides.  For a valid program of the rule's name it gives a transition
  exactly if one of its matching rules holds and one of its transition rules covers the current
  domain; the transition then leads to the rule's target with the first such transition rule's
  prompt and notify settings (the rule's own where that has none).  It reports "matched but refused"
  exactly if a matching rule holds and no transition rule covers the domain.  For an invalid program
  or another name it does neither.\<close>

theorem arule_matches_decides:
  "arule_matches F target r prog current vals =
     (let applies = program_isValid F prog \<and> app_name prog = app_name (ar_program r) \<and>
                    (\<exists>m \<in> set (mrules r). mrule_matches F m vals);
          covering = filter (\<lambda>t. trule_matches F t (dom_name current)) (trules r)
      in if applies \<and> covering \<noteq> [] then
           (Transition prog current (target current)
              (if has_prompt (hd covering) then tr_prompt (hd covering) else ar_prompt r)
              (if has_notify (hd covering) then tr_notify (hd covering) else ar_notify r), False)
         else (Transition0, applies \<and> covering = []))"
proof -
  have find: "find P ts = (if filter P ts = [] then None else Some (hd (filter P ts)))"
    for P and ts :: "trule list"
    by (induction ts) auto
  show ?thesis
    by (simp add: arule_matches_def mrules_loop_eq find Let_def)
qed

text \<open>\<open>matchedDomains\<close> and \<open>matchedDomainNames\<close> return exactly the known domains that some transition
  rule of the rule covers, each as often as it was given.\<close>

theorem matched_domains_exact:
  "mset (matchedDomains F r known) =
     mset (filter (\<lambda>d. tRulesContain F (dom_name d) True r) known) \<and>
   mset (matchedDomainNames F r names) =
     mset (filter (\<lambda>n. tRulesContain F n True r) names)"
  by (simp add: matchedDomains_def matchedDomainNames_def tRulesContain_def matched_loop_mset
      del: mset_filter)

end
