(* ===== verification/Rule_Table.thy ===== *)
theory Rule_Table
  imports Rules
begin

text \<open>
  The tables of rules and of loops of the configuration.  \<open>configuration.cpp\<close> has every operation twice,
  for \<open>_loops\<close> and for \<open>_rules\<close>, with the same text; here each is one polymorphic function on a table
  from program names to lists of rules, which theory \<open>Configuration_Model\<close> instantiates for both.

  The interface \<open>id_table\<close> describes a table to its clients as the multiset of its rules, with unique
  identifiers.
\<close>

type_synonym 'a table = "(string, 'a abstract_rule_scheme list) omap"

section \<open>Operations\<close>

text \<open>Insertion before the first rule of a larger priority value.\<close>

fun insert_prio :: "'a abstract_rule_scheme \<Rightarrow> 'a abstract_rule_scheme list \<Rightarrow> 'a abstract_rule_scheme list" where
  "insert_prio r [] = [r]"
| "insert_prio r (x # xs) = (if ar_priority x > ar_priority r then r # x # xs else x # insert_prio r xs)"

definition rule_key :: "'a abstract_rule_scheme \<Rightarrow> string" where
  "rule_key r = app_name (ar_program r)"

definition table_add :: "'a abstract_rule_scheme \<Rightarrow> 'a table \<Rightarrow> 'a table" where
  "table_add r m = (let (l, m) = oindex [] (rule_key r) m in oinsert (rule_key r) (insert_prio r l) m)"

fun erase_id :: "int \<Rightarrow> 'a abstract_rule_scheme list \<Rightarrow> 'a abstract_rule_scheme option \<times> 'a abstract_rule_scheme list" where
  "erase_id i [] = (None, [])"
| "erase_id i (x # xs) =
     (if ar_id x = i then (Some x, xs) else let (r, xs') = erase_id i xs in (r, x # xs'))"

fun table_delete_id :: "int \<Rightarrow> 'a table \<Rightarrow> 'a abstract_rule_scheme option \<times> 'a table" where
  "table_delete_id i [] = (None, [])"
| "table_delete_id i ((k, l) # m) =
     (case erase_id i l of
        (Some r, l') \<Rightarrow> (Some r, (k, l') # m)
      | (None, _) \<Rightarrow> let (r, m') = table_delete_id i m in (r, (k, l) # m'))"

definition table_delete :: "'a abstract_rule_scheme \<Rightarrow> 'a table \<Rightarrow> 'a table" where
  "table_delete r m =
     (let (l, m) = oindex [] (rule_key r) m in oinsert (rule_key r) (snd (erase_id (ar_id r) l)) m)"

definition table_all :: "'a table \<Rightarrow> 'a abstract_rule_scheme list" where
  "table_all m = concat (ovals m)"

definition table_find :: "int \<Rightarrow> 'a table \<Rightarrow> 'a abstract_rule_scheme option" where
  "table_find i m = find (\<lambda>r. ar_id r = i) (table_all m)"

definition table_update :: "'a abstract_rule_scheme \<Rightarrow> 'a table \<Rightarrow> 'a table" where
  "table_update r m = table_add r (table_delete r m)"

section \<open>Well-formed tables\<close>

definition table_wf :: "'a table \<Rightarrow> bool" where
  "table_wf m = (osorted m \<and> (\<forall>(k, l) \<in> set m. \<forall>r \<in> set l. rule_key r = k) \<and>
     (\<forall>(k, l) \<in> set m. sorted (map ar_priority l)) \<and> distinct (map ar_id (table_all m)))"

lemma table_all_simps [simp]: "table_all [] = []" "table_all ((k, l) # m) = l @ table_all m"
  by (simp_all add: table_all_def)

lemma insert_prio_mset [simp]: "mset (insert_prio r l) = add_mset r (mset l)"
  by (induction l) auto

lemma insert_prio_set [simp]: "set (insert_prio r l) = insert r (set l)"
  by (induction l) auto

lemma insert_prio_sorted: "sorted (map ar_priority l) \<Longrightarrow> sorted (map ar_priority (insert_prio r l))"
  by (induction l) auto

lemma erase_id_spec:
  "erase_id i l = (x, l') \<Longrightarrow>
     (case x of
        None \<Rightarrow> i \<notin> ar_id ` set l \<and> l' = l
      | Some r \<Rightarrow> ar_id r = i \<and> mset l = add_mset r (mset l')) \<and>
     (sorted (map ar_priority l) \<longrightarrow> sorted (map ar_priority l')) \<and> set l' \<subseteq> set l"
proof (induction l arbitrary: x l')
  case (Cons y ys)
  obtain x1 ys1 where 1: "erase_id i ys = (x1, ys1)" by fastforce
  from Cons.IH [OF 1] have sub: "\<And>z. z \<in> set ys1 \<Longrightarrow> z \<in> set ys" by auto
  from Cons.IH [OF 1] Cons.prems 1 sub show ?case
    by (cases "ar_id y = i"; cases x1) auto
qed simp

lemma table_all_oinsert_new:
  "ofind m k = None \<Longrightarrow> mset (table_all (oinsert k l m)) = mset l + mset (table_all m)"
  by (induction k l m rule: oinsert.induct) (auto split: if_splits)

lemma table_all_oinsert_old:
  assumes "osorted m" "ofind m k = Some l0"
  shows "mset (table_all (oinsert k l m)) + mset l0 = mset l + mset (table_all m)"
  using assms
proof (induction k l m rule: oinsert.induct)
  case (2 k v k' v' m)
  have "k < k' \<Longrightarrow> ofind ((k', v') # m) k = None"
    using 2(2) by (intro ofind_notin_okeys) auto
  with 2 show ?case
    by (auto simp: union_ac split: if_splits)
qed simp

lemma table_all_ovalue:
  assumes "osorted m"
  shows "mset (table_all (oinsert k l (snd (oindex [] k m)))) + mset (ovalue [] m k) = mset l + mset (table_all m)"
proof (cases "ofind m k")
  case None
  have "osorted (oinsert k [] m)" using assms by (rule osorted_oinsert)
  from table_all_oinsert_old [OF this, of k "[]" l] None table_all_oinsert_new [OF None, of "[]"]
  show ?thesis by (simp add: oindex_def ovalue_def)
next
  case (Some l0)
  with table_all_oinsert_old [OF assms Some, of l] show ?thesis
    by (simp add: oindex_def ovalue_def)
qed

lemma table_add_eq:
  "table_add r m =
     oinsert (rule_key r) (insert_prio r (ovalue [] m (rule_key r))) (snd (oindex [] (rule_key r) m))"
  by (simp add: table_add_def oindex_value [symmetric] case_prod_beta)

lemma table_delete_eq:
  "table_delete r m =
     oinsert (rule_key r) (snd (erase_id (ar_id r) (ovalue [] m (rule_key r)))) (snd (oindex [] (rule_key r) m))"
  by (simp add: table_delete_def oindex_value [symmetric] case_prod_beta)

lemma table_add_mset:
  assumes "osorted m"
  shows "mset (table_all (table_add r m)) = add_mset r (mset (table_all m))"
proof -
  have "mset (table_all (table_add r m)) + mset (ovalue [] m (rule_key r)) =
      add_mset r (mset (ovalue [] m (rule_key r))) + mset (table_all m)"
    using table_all_ovalue [OF assms, of "rule_key r" "insert_prio r (ovalue [] m (rule_key r))"]
    by (simp add: table_add_eq)
  then show ?thesis by simp
qed

lemma table_wf_iff:
  "table_wf m \<longleftrightarrow> osorted m \<and>
     (\<forall>k l. ofind m k = Some l \<longrightarrow> (\<forall>r \<in> set l. rule_key r = k) \<and> sorted (map ar_priority l)) \<and>
     distinct (map ar_id (table_all m))"
proof (cases "osorted m")
  case True
  from om.entry_iff [OF this] show ?thesis
    by (auto simp: table_wf_def) blast+
qed (simp add: table_wf_def)

lemma table_wf_values:
  assumes "table_wf m"
  shows "r \<in> set (ovalue [] m k) \<Longrightarrow> rule_key r = k" "sorted (map ar_priority (ovalue [] m k))"
  using assms by (cases "ofind m k"; simp add: table_wf_iff ovalue_def)+

lemma in_table_all:
  assumes "table_wf m"
  shows "r \<in> set (table_all m) \<longleftrightarrow> r \<in> set (ovalue [] m (rule_key r))"
proof -
  have sorted: "osorted m" using assms by (simp add: table_wf_def)
  have "r \<in> set (table_all m) \<longleftrightarrow> (\<exists>k l. ofind m k = Some l \<and> r \<in> set l)"
    unfolding table_all_def set_concat using ovals_iff [OF sorted] by blast
  also have "\<dots> \<longleftrightarrow> r \<in> set (ovalue [] m (rule_key r))"
    using assms unfolding table_wf_iff by (cases "ofind m (rule_key r)") (auto simp: ovalue_def)
  finally show ?thesis .
qed

lemma distinct_map_mset: "mset xs = mset ys \<Longrightarrow> distinct (map f xs) \<longleftrightarrow> distinct (map f ys)"
  by (metis mset_eq_imp_distinct_iff mset_map)

lemma table_wf_oinsert:
  assumes "table_wf m" "\<And>r. r \<in> set l \<Longrightarrow> rule_key r = k" "sorted (map ar_priority l)"
    "distinct (map ar_id (table_all (oinsert k l (snd (oindex [] k m)))))"
  shows "table_wf (oinsert k l (snd (oindex [] k m)))"
  using assms table_wf_values(1) [OF assms(1)]
  by (auto simp: table_wf_iff ofind_oindex osorted_oinsert osorted_oindex split: if_splits)

lemma table_add_wf [wf_intros]:
  assumes "table_wf m" "ar_id r \<notin> ar_id ` set (table_all m)"
  shows "table_wf (table_add r m)"
proof -
  have "osorted m" using assms by (simp add: table_wf_def)
  then have "mset (table_all (table_add r m)) = mset (r # table_all m)"
    by (simp add: table_add_mset)
  then have "distinct (map ar_id (table_all (table_add r m)))"
    using distinct_map_mset assms by (metis distinct.simps(2) list.set_map list.simps(9) table_wf_def)
  then show ?thesis
    using assms(1) table_wf_values [OF assms(1)]
    unfolding table_add_eq by (intro table_wf_oinsert) (auto simp: insert_prio_sorted)
qed

lemma table_delete_id_spec:
  "table_delete_id i m = (x, m') \<Longrightarrow>
     (case x of
        None \<Rightarrow> i \<notin> ar_id ` set (table_all m) \<and> m' = m
      | Some r \<Rightarrow> ar_id r = i \<and> mset (table_all m) = add_mset r (mset (table_all m')))"
proof (induction i m arbitrary: x m' rule: table_delete_id.induct)
  case (2 i k l m)
  obtain y l' where e: "erase_id i l = (y, l')" by fastforce
  obtain x1 m1 where d: "table_delete_id i m = (x1, m1)" by fastforce
  show ?case
  proof (cases y)
    case None
    with 2(1) [OF e [symmetric]] d have "case x1 of None \<Rightarrow> i \<notin> ar_id ` set (table_all m) \<and> m1 = m
        | Some r \<Rightarrow> ar_id r = i \<and> mset (table_all m) = add_mset r (mset (table_all m1))"
      by simp
    with None 2(2) e d erase_id_spec [OF e] show ?thesis
      by (cases x1) auto
  next
    case (Some r)
    with 2(2) e erase_id_spec [OF e] show ?thesis by auto
  qed
qed simp

lemma table_delete_id_entries:
  "(k, l') \<in> set (snd (table_delete_id i m)) \<Longrightarrow>
     \<exists>l. (k, l) \<in> set m \<and> set l' \<subseteq> set l \<and> (sorted (map ar_priority l) \<longrightarrow> sorted (map ar_priority l'))"
proof (induction i m rule: table_delete_id.induct)
  case (2 i k0 l0 m)
  obtain y l1 where e: "erase_id i l0 = (y, l1)" by fastforce
  show ?case
  proof (cases y)
    case None
    with 2 e show ?thesis by (auto simp: case_prod_beta)
  next
    case (Some r)
    with 2(2) e erase_id_spec [OF e] show ?thesis by auto
  qed
qed simp

lemma okeys_table_delete_id: "okeys (snd (table_delete_id i m)) = okeys m"
proof (induction i m rule: table_delete_id.induct)
  case (2 i k l m)
  then show ?case
    by (cases "erase_id i l"; cases "fst (erase_id i l)") (auto simp: case_prod_beta)
qed simp

lemma table_delete_id_wf [wf_intros]:
  assumes "table_wf m" "table_delete_id i m = (x, m')"
  shows "table_wf m'"
proof -
  have keys: "okeys m' = okeys m"
    using okeys_table_delete_id [of i m] assms(2) by simp
  have "rule_key r = k" "sorted (map ar_priority l')" if "(k, l') \<in> set m'" "r \<in> set l'" for k l' r
    using table_delete_id_entries [of k l' i m] assms that by (fastforce simp: table_wf_def)+
  moreover have "sorted (map ar_priority l')" if "(k, l') \<in> set m'" for k l'
    using table_delete_id_entries [of k l' i m] assms that by (fastforce simp: table_wf_def)
  moreover have "distinct (map ar_id (table_all m'))"
  proof (cases x)
    case None
    with table_delete_id_spec [OF assms(2)] assms(1) show ?thesis by (simp add: table_wf_def)
  next
    case (Some r)
    with table_delete_id_spec [OF assms(2)] have "mset (table_all m) = mset (r # table_all m')" by simp
    from distinct_map_mset [OF this, of ar_id] assms(1) show ?thesis by (simp add: table_wf_def)
  qed
  ultimately show ?thesis
    using assms(1) keys by (auto simp: table_wf_def osorted_def)
qed

lemma table_delete_mset:
  assumes "table_wf m" "r0 \<in> set (table_all m)" "ar_id r0 = ar_id r" "rule_key r0 = rule_key r"
  shows "mset (table_all m) = add_mset r0 (mset (table_all (table_delete r m)))"
proof -
  let ?l = "ovalue [] m (rule_key r)"
  obtain x l' where e: "erase_id (ar_id r) ?l = (x, l')" by fastforce
  have in_l: "r0 \<in> set ?l"
    using assms in_table_all by metis
  have "x \<noteq> None"
  proof
    assume "x = None"
    with erase_id_spec [OF e] have "ar_id r \<notin> ar_id ` set ?l" by simp
    with in_l assms(3) show False by (metis imageI)
  qed
  with erase_id_spec [OF e] obtain r1 where r1: "x = Some r1" "ar_id r1 = ar_id r"
      "mset ?l = add_mset r1 (mset l')"
    by auto
  have sorted: "osorted m" and dist: "distinct (map ar_id (table_all m))"
    using assms(1) by (simp_all add: table_wf_def)
  have "r1 \<in> set ?l"
    using r1(3) by (metis set_mset_mset union_single_eq_member)
  then have "r1 \<in> set (table_all m)"
    using in_table_all [OF assms(1)] table_wf_values(1) [OF assms(1)] by metis
  with assms(2,3) r1(2) dist have "r1 = r0"
    by (simp add: distinct_map inj_on_def)
  have "mset (table_all (table_delete r m)) + mset ?l = mset l' + mset (table_all m)"
    using table_all_ovalue [OF sorted, of "rule_key r" l'] by (simp add: table_delete_eq e)
  then show ?thesis
    using r1(3) \<open>r1 = r0\<close> by simp
qed

lemma table_delete_all:
  assumes "osorted m" "erase_id (ar_id r) (ovalue [] m (rule_key r)) = (x, l')"
  shows "mset (table_all m) = (case x of None \<Rightarrow> {#} | Some r1 \<Rightarrow> {#r1#}) + mset (table_all (table_delete r m))"
proof -
  have "mset (table_all (table_delete r m)) + mset (ovalue [] m (rule_key r)) = mset l' + mset (table_all m)"
    using table_all_ovalue [OF assms(1), of "rule_key r" l'] assms(2) by (simp add: table_delete_eq)
  with erase_id_spec [OF assms(2)] show ?thesis
    by (cases x) auto
qed

lemma table_delete_wf [wf_intros]:
  assumes "table_wf m"
  shows "table_wf (table_delete r m)"
proof -
  obtain x l' where e: "erase_id (ar_id r) (ovalue [] m (rule_key r)) = (x, l')" by fastforce
  have sorted: "osorted m" using assms by (simp add: table_wf_def)
  have "distinct (map ar_id (table_all (table_delete r m)))"
  proof (cases x)
    case None
    with table_delete_all [OF sorted e] have "mset (table_all m) = mset (table_all (table_delete r m))" by simp
    from distinct_map_mset [OF this, of ar_id] assms show ?thesis by (simp add: table_wf_def)
  next
    case (Some r1)
    with table_delete_all [OF sorted e]
    have "mset (table_all m) = mset (r1 # table_all (table_delete r m))" by simp
    from distinct_map_mset [OF this, of ar_id] assms show ?thesis by (simp add: table_wf_def)
  qed
  then show ?thesis
    using assms table_wf_values [OF assms] erase_id_spec [OF e]
    unfolding table_delete_eq e snd_conv by (intro table_wf_oinsert) auto
qed

lemma table_find_spec:
  "table_find i m = None \<longleftrightarrow> i \<notin> ar_id ` set (table_all m)"
  "table_find i m = Some r \<Longrightarrow> r \<in> set (table_all m) \<and> ar_id r = i"
  by (auto simp: table_find_def find_None_iff find_Some_iff)

lemma table_update_mset:
  assumes "table_wf m" "r0 \<in> set (table_all m)" "ar_id r0 = ar_id r" "rule_key r0 = rule_key r"
  shows "mset (table_all m) - {#r0#} + {#r#} = mset (table_all (table_update r m))"
    and "table_wf (table_update r m)"
proof -
  have del: "mset (table_all m) = add_mset r0 (mset (table_all (table_delete r m)))"
    using assms by (rule table_delete_mset)
  have wf: "table_wf (table_delete r m)"
    using assms(1) by (rule table_delete_wf)
  then show "mset (table_all m) - {#r0#} + {#r#} = mset (table_all (table_update r m))"
    using del by (simp add: table_update_def table_add_mset table_wf_def)
  have "mset (table_all m) = mset (r0 # table_all (table_delete r m))" using del by simp
  from distinct_map_mset [OF this, of ar_id] have "ar_id r \<notin> ar_id ` set (table_all (table_delete r m))"
    using assms(1,3) by (simp add: table_wf_def)
  with wf show "table_wf (table_update r m)"
    unfolding table_update_def by (rule table_add_wf)
qed

section \<open>The interface\<close>

locale id_table =
  fixes all :: "'m \<Rightarrow> 'r list"
    and add :: "'r \<Rightarrow> 'm \<Rightarrow> 'm"
    and del :: "'i \<Rightarrow> 'm \<Rightarrow> 'r option \<times> 'm"
    and rid :: "'r \<Rightarrow> 'i"
    and inv :: "'m \<Rightarrow> bool"
  assumes ids_distinct: "inv m \<Longrightarrow> distinct (map rid (all m))"
    and add_all: "inv m \<Longrightarrow> mset (all (add r m)) = add_mset r (mset (all m))"
    and add_inv: "inv m \<Longrightarrow> rid r \<notin> rid ` set (all m) \<Longrightarrow> inv (add r m)"
    and del_missing: "inv m \<Longrightarrow> i \<notin> rid ` set (all m) \<Longrightarrow> del i m = (None, m)"
    and del_found: "inv m \<Longrightarrow> i \<in> rid ` set (all m) \<Longrightarrow>
          \<exists>r m'. del i m = (Some r, m') \<and> rid r = i \<and> mset (all m) = add_mset r (mset (all m')) \<and> inv m'"
begin

lemma id_unique: "inv m \<Longrightarrow> r \<in> set (all m) \<Longrightarrow> s \<in> set (all m) \<Longrightarrow> rid r = rid s \<Longrightarrow> r = s"
  using ids_distinct by (metis distinct_map inj_onD)

lemma del_member:
  assumes "inv m" "r \<in> set (all m)"
  obtains m' where "del (rid r) m = (Some r, m')" "mset (all m) = add_mset r (mset (all m'))" "inv m'"
    "rid r \<notin> rid ` set (all m')" "set (all m) = insert r (set (all m'))"
proof -
  from del_found [OF assms(1), of "rid r"] assms(2) obtain s m' where s: "del (rid r) m = (Some s, m')"
    "rid s = rid r" "mset (all m) = add_mset s (mset (all m'))" "inv m'"
    by auto
  then have "s \<in> set (all m)"
    by (metis set_mset_mset union_single_eq_member)
  with s(2) assms have "s = r" by (metis id_unique)
  have set: "set (all m) = insert r (set (all m'))"
    using s(3) \<open>s = r\<close> by (metis set_mset_add_mset_insert set_mset_mset)
  have "mset (map rid (all m)) = mset (rid r # map rid (all m'))"
    using s(3) \<open>s = r\<close> by simp
  with ids_distinct [OF assms(1)] have "rid r \<notin> rid ` set (all m')"
    by (metis distinct.simps(2) list.set_map mset_eq_imp_distinct_iff)
  with that s \<open>s = r\<close> set show ?thesis by blast
qed

text \<open>Taking a rule out and putting a rule with its identifier in replaces it.\<close>

lemma replace:
  assumes "inv m" "r \<in> set (all m)" "rid r' = rid r"
  obtains m' where "del (rid r) m = (Some r, m')" "inv (add r' m')"
    "mset (all (add r' m')) = add_mset r' (mset (all m) - {#r#})"
proof -
  obtain m' where m': "del (rid r) m = (Some r, m')" "mset (all m) = add_mset r (mset (all m'))" "inv m'"
    "rid r \<notin> rid ` set (all m')"
    by (rule del_member [OF assms(1,2)])
  with assms(3) that show ?thesis by (simp add: add_all add_inv)
qed

text \<open>Taking two rules out and putting two with their identifiers in replaces both.\<close>

lemma replace2:
  assumes "inv m" "r \<in> set (all m)" "s \<in> set (all m)" "rid r \<noteq> rid s" "rid r' = rid r" "rid s' = rid s"
  obtains m1 m2 where "del (rid r) m = (Some r, m1)" "del (rid s) m1 = (Some s, m2)"
    "inv (add s' (add r' m2))"
    "mset (all (add s' (add r' m2))) = mset (all m) - {#r, s#} + {#r', s'#}"
proof -
  obtain m1 where m1: "del (rid r) m = (Some r, m1)" "mset (all m) = add_mset r (mset (all m1))" "inv m1"
    "rid r \<notin> rid ` set (all m1)" "set (all m) = insert r (set (all m1))"
    by (rule del_member [OF assms(1,2)])
  with assms(3,4) have "s \<in> set (all m1)" by auto
  from del_member [OF m1(3) this] obtain m2 where m2: "del (rid s) m1 = (Some s, m2)" "mset (all m1) = add_mset s (mset (all m2))"
    "inv m2" "rid s \<notin> rid ` set (all m2)" "set (all m1) = insert s (set (all m2))" .
  have add1: "inv (add r' m2)"
    using m1(4) m2(3,5) assms(5) by (intro add_inv) auto
  moreover have "mset (all (add r' m2)) = add_mset r' (mset (all m2))"
    using m2(3) by (rule add_all)
  then have "set (all (add r' m2)) = insert r' (set (all m2))"
    by (metis set_mset_add_mset_insert set_mset_mset)
  then have "inv (add s' (add r' m2))"
    by (intro add_inv [OF add1]) (use m2(4) assms(4-6) in auto)
  moreover have "mset (all (add s' (add r' m2))) = mset (all m) - {#r, s#} + {#r', s'#}"
    using m1(2) m2(2,3) add1 by (simp add: add_all)
  ultimately show ?thesis using that m1(1) m2(1) by blast
qed

end

interpretation tbl: id_table table_all table_add table_delete_id ar_id table_wf
proof unfold_locales
  fix m :: "'a table" and r i
  show "table_wf m \<Longrightarrow> distinct (map ar_id (table_all m))"
    by (simp add: table_wf_def)
  show "table_wf m \<Longrightarrow> mset (table_all (table_add r m)) = add_mset r (mset (table_all m))"
    by (simp add: table_wf_def table_add_mset)
  show "table_wf m \<Longrightarrow> ar_id r \<notin> ar_id ` set (table_all m) \<Longrightarrow> table_wf (table_add r m)"
    by (rule table_add_wf)
  obtain x m' where d: "table_delete_id i m = (x, m')" by fastforce
  note spec = table_delete_id_spec [OF d]
  have "r \<in> set (table_all m)" if "x = Some r" for r
  proof -
    have "r \<in># mset (table_all m)" using spec that by simp
    then show ?thesis by simp
  qed
  then show "i \<notin> ar_id ` set (table_all m) \<Longrightarrow> table_delete_id i m = (None, m)"
    using spec d by (cases x) auto
  show "table_wf m \<Longrightarrow> i \<in> ar_id ` set (table_all m) \<Longrightarrow>
      \<exists>r m'. table_delete_id i m = (Some r, m') \<and> ar_id r = i \<and>
        mset (table_all m) = add_mset r (mset (table_all m')) \<and> table_wf m'"
    using spec d table_delete_id_wf [OF _ d] by (cases x) auto
qed

end
