(* ===== verification/Table_Pass.thy ===== *)
theory Table_Pass
  imports Rule_Table
begin

text \<open>
  Passes over a table.  Deleting or renaming a domain walks over a copy of all rules and, for each,
  keeps, deletes or replaces the table's rule of the same identifier.  The interface \<open>table_pass\<close> asks
  for the effect of one step on the table and gives the effect of the whole walk: the rules are
  rewritten one by one, each exactly once.
\<close>

text \<open>The table \<open>m'\<close> is \<open>m\<close> with the rule \<open>r\<close> replaced by the rules \<open>xs\<close> (at most one, of the same identity).\<close>

definition replaces ::
    "'a table \<Rightarrow> 'a abstract_rule_scheme \<Rightarrow> 'a abstract_rule_scheme list \<Rightarrow> 'a table \<Rightarrow> bool" where
  "replaces m r xs m' =
     (table_wf m' \<and> add_mset r (mset (table_all m')) = mset xs + mset (table_all m) \<and> length xs \<le> 1 \<and>
      (\<forall>x \<in> set xs. ar_id x = ar_id r \<and> rule_key x = rule_key r))"

lemma replaces_keep: "table_wf m \<Longrightarrow> replaces m r [r] m"
  by (simp add: replaces_def)

lemma replaces_drop:
  assumes "table_wf m" "r \<in> set (table_all m)"
  shows "replaces m r [] (snd (table_delete_id (ar_id r) m))"
proof -
  obtain m' where "table_delete_id (ar_id r) m = (Some r, m')" "table_wf m'"
    "mset (table_all m) = add_mset r (mset (table_all m'))"
    by (rule tbl.del_member [OF assms])
  then show ?thesis by (simp add: replaces_def)
qed

lemma replaces_update:
  assumes "table_wf m" "r \<in> set (table_all m)" "ar_id x = ar_id r" "rule_key x = rule_key r"
  shows "replaces m r [x] (table_update x m)"
proof -
  have "mset (table_all m) - {#r#} + {#x#} = mset (table_all (table_update x m))"
    "table_wf (table_update x m)"
    using table_update_mset [of m r x] assms by simp_all
  moreover have "add_mset r (mset (table_all m) - {#r#}) = mset (table_all m)"
    using assms(2) by simp
  ultimately show ?thesis
    using assms(3,4) by (simp add: replaces_def) (metis add_mset_commute)
qed

lemma replaces_member:
  assumes "replaces m r [x] m'" "r \<in> set (table_all m)"
  shows "x \<in> set (table_all m')"
proof -
  have eq: "add_mset r (mset (table_all m')) = add_mset x (mset (table_all m))"
    using assms(1) by (simp add: replaces_def)
  have "x \<in># mset (table_all m')"
  proof (cases "x = r")
    case True
    with eq assms(2) show ?thesis by simp
  next
    case False
    have "x \<in># add_mset r (mset (table_all m'))" unfolding eq by simp
    with False show ?thesis by simp
  qed
  then show ?thesis by simp
qed

lemma replaces_trans:
  assumes "replaces m r [x] m1" "replaces m1 x ys m2"
  shows "replaces m r ys m2"
proof -
  have 1: "add_mset r (mset (table_all m1)) = add_mset x (mset (table_all m))"
    and 2: "add_mset x (mset (table_all m2)) = mset ys + mset (table_all m1)"
    using assms by (simp_all add: replaces_def)
  have "add_mset x (add_mset r (mset (table_all m2))) = add_mset r (mset ys + mset (table_all m1))"
    using 2 by (simp add: add_mset_commute)
  also have "\<dots> = add_mset x (mset ys + mset (table_all m))"
    using 1 by (metis union_mset_add_mset_right)
  finally have "add_mset r (mset (table_all m2)) = mset ys + mset (table_all m)"
    by simp
  then show ?thesis
    using assms by (auto simp: replaces_def)
qed

lemma replaces_gone:
  assumes "table_wf m" "r \<in> set (table_all m)" "replaces m r [] m'"
  shows "ar_id r \<notin> ar_id ` set (table_all m')" "table_delete_id (ar_id r) m' = (None, m')"
proof -
  have eq: "mset (table_all m) = mset (r # table_all m')" and wf: "table_wf m'"
    using assms(3) by (simp_all add: replaces_def)
  from distinct_map_mset [OF eq, of ar_id] show gone: "ar_id r \<notin> ar_id ` set (table_all m')"
    using assms(1) by (simp add: table_wf_def)
  from wf gone show "table_delete_id (ar_id r) m' = (None, m')"
    by (rule tbl.del_missing)
qed

text \<open>The other rules of the table stay.\<close>

lemma replaces_other:
  assumes "replaces m r xs m'" "s \<in> set (table_all m)" "s \<noteq> r"
  shows "s \<in> set (table_all m')"
proof -
  have "s \<in># add_mset r (mset (table_all m'))"
    using assms(1,2) by (simp add: replaces_def)
  with assms(3) show ?thesis by simp
qed

lemma replaces_ids:
  assumes "replaces m r xs m'" "r \<in> set (table_all m)"
  shows "ar_id ` set (table_all m') \<subseteq> ar_id ` set (table_all m)"
proof
  fix i
  assume "i \<in> ar_id ` set (table_all m')"
  then obtain s where s: "i = ar_id s" "s \<in> set (table_all m')" by blast
  then have "s \<in># mset xs + mset (table_all m)"
    using assms(1) by (metis insertCI set_mset_add_mset_insert set_mset_mset replaces_def)
  then show "i \<in> ar_id ` set (table_all m)"
    using s(1) assms by (auto simp: replaces_def)
qed

locale table_pass =
  fixes step :: "'a abstract_rule_scheme \<Rightarrow> 'a table \<Rightarrow> 'a table"
    and effect :: "'a abstract_rule_scheme \<Rightarrow> 'a abstract_rule_scheme list"
  assumes step_replaces: "table_wf m \<Longrightarrow> r \<in> set (table_all m) \<Longrightarrow> replaces m r (effect r) (step r m)"
begin

lemma pass:
  assumes "table_wf m" "set rs \<subseteq> set (table_all m)" "distinct (map ar_id rs)"
  shows "table_wf (fold step rs m)"
    and "mset rs + mset (table_all (fold step rs m)) = mset (concat (map effect rs)) + mset (table_all m)"
    and "ar_id ` set (table_all (fold step rs m)) \<subseteq> ar_id ` set (table_all m)"
proof -
  have "table_wf (fold step rs m) \<and>
    mset rs + mset (table_all (fold step rs m)) = mset (concat (map effect rs)) + mset (table_all m) \<and>
    ar_id ` set (table_all (fold step rs m)) \<subseteq> ar_id ` set (table_all m)"
    using assms
  proof (induction rs arbitrary: m)
    case (Cons r rs)
    have r: "r \<in> set (table_all m)" using Cons.prems by simp
    note rep = step_replaces [OF Cons.prems(1) r]
    have wf: "table_wf (step r m)"
      and eq: "add_mset r (mset (table_all (step r m))) = mset (effect r) + mset (table_all m)"
      using rep by (simp_all add: replaces_def)
    have "set rs \<subseteq> set (table_all (step r m))"
    proof
      fix s
      assume "s \<in> set rs"
      moreover from this Cons.prems(3) have "s \<noteq> r" by auto
      ultimately show "s \<in> set (table_all (step r m))"
        using Cons.prems(2) by (intro replaces_other [OF rep]) auto
    qed
    then have IH: "table_wf (fold step rs (step r m))"
      "mset rs + mset (table_all (fold step rs (step r m))) =
         mset (concat (map effect rs)) + mset (table_all (step r m))"
      "ar_id ` set (table_all (fold step rs (step r m))) \<subseteq> ar_id ` set (table_all (step r m))"
      using Cons.IH [OF wf] Cons.prems(3) by simp_all
    have "mset (r # rs) + mset (table_all (fold step rs (step r m))) =
        add_mset r (mset (concat (map effect rs)) + mset (table_all (step r m)))"
      using IH(2) by simp
    also have "\<dots> = mset (concat (map effect rs)) + (mset (effect r) + mset (table_all m))"
      using eq by (metis union_mset_add_mset_right)
    finally show ?case
      using IH(1,3) replaces_ids [OF rep r] by (simp add: union_ac)
  qed simp
  then show "table_wf (fold step rs m)"
    "mset rs + mset (table_all (fold step rs m)) = mset (concat (map effect rs)) + mset (table_all m)"
    "ar_id ` set (table_all (fold step rs m)) \<subseteq> ar_id ` set (table_all m)" by simp_all
qed

text \<open>A pass over all rules of the table.\<close>

lemma full_pass:
  assumes "table_wf m"
  shows "table_wf (fold step (table_all m) m)"
    and "mset (table_all (fold step (table_all m) m)) = mset (concat (map effect (table_all m)))"
    and "ar_id ` set (table_all (fold step (table_all m) m)) \<subseteq> ar_id ` set (table_all m)"
  using pass [OF assms subset_refl] assms by (simp_all add: table_wf_def)

end

end
