(* ===== verification/Configuration_Model.thy ===== *)
theory Configuration_Model
  imports Table_Pass
begin

text \<open>
  The configuration: domains, programs, loops and rules, and the operations on them
  (\<open>configuration.cpp\<close> without the reading and writing of files, which is in \<open>Configuration_XML\<close>).

  The state is the object's members together with the class-wide state its operations change: the
  counter of rule identifiers and the table of assigned values.  The signals an operation emits are
  appended to \<open>signals\<close>.  The mutable index operator of the maps, which creates a missing entry, is
  \<open>oindex\<close>; every use of it in the code is one here.
\<close>

datatype signal =
    ConfigurationChanged
  | DomainChanged string string
  | ProgramChanged string string
  | AllRulesChanged bool
  | LoopsChanged bool
  | RulesChanged bool

record configuration =
  cf_rules :: "(string, rule list) omap"
  cf_loops :: "(string, loop list) omap"
  domains :: "(string, domain) omap"
  default_domain :: domain
  programs :: "(string, program) omap"
  no_kill_programs :: "string list"
  idCounter :: int
  assigned_values :: assigned
  signals :: "signal list"

definition Configuration0 :: configuration where
  "Configuration0 = \<lparr>cf_rules = [], cf_loops = [], domains = [], default_domain = Domain0,
     programs = [], no_kill_programs = [], idCounter = InvalidPriority,
     assigned_values = clearAssignedValues, signals = []\<rparr>"

definition emit :: "signal \<Rightarrow> configuration \<Rightarrow> configuration" where
  "emit sg c = c\<lparr>signals := signals c @ [sg]\<rparr>"

section \<open>Programs\<close>

definition unknown_program :: "string \<Rightarrow> program" where
  "unknown_program name =
     Program name (''Unknown ('' @ name @ '')'') '':/icons/unknown-program'' [] []"

definition table_setProgram :: "framework \<Rightarrow> program \<Rightarrow> bool \<Rightarrow> string \<Rightarrow> 'a table \<Rightarrow> 'a table" where
  "table_setProgram F p allow_invalid key m =
     (let (l, m) = oindex [] key m in oinsert key (map (\<lambda>r. snd (setProgram F p allow_invalid r)) l) m)"

definition addProgram :: "framework \<Rightarrow> program \<Rightarrow> bool \<Rightarrow> configuration \<Rightarrow> bool \<times> configuration" where
  "addProgram F p quiet c =
     (if \<not> ocontains (programs c) (app_name p) then
        let c = c\<lparr>programs := oinsert (app_name p) p (programs c)\<rparr>;
            c = c\<lparr>cf_loops := table_setProgram F p False (app_name p) (cf_loops c)\<rparr>;
            c = c\<lparr>cf_rules := table_setProgram F p False (app_name p) (cf_rules c)\<rparr>
        in (True, if \<not> quiet then emit (ProgramChanged [] (app_name p)) c else c)
      else (False, c))"

definition updateProgram :: "framework \<Rightarrow> string \<Rightarrow> program \<Rightarrow> configuration \<Rightarrow> program \<times> configuration" where
  "updateProgram F old_name p c =
     (if ocontains (programs c) old_name then
        let c = c\<lparr>programs := oinsert (app_name p) p (oremove old_name (programs c))\<rparr>;
            c = c\<lparr>cf_loops := table_setProgram F p True old_name (cf_loops c)\<rparr>;
            c = c\<lparr>cf_rules := table_setProgram F p True old_name (cf_rules c)\<rparr>
        in (p, emit (ProgramChanged old_name (app_name p)) c)
      else (Program0, c))"

definition deleteProgram :: "framework \<Rightarrow> string \<Rightarrow> configuration \<Rightarrow> program \<times> configuration" where
  "deleteProgram F name c =
     (if ocontains (programs c) name then
        let p = ovalue Program0 (programs c) name;
            invalid = unknown_program name;
            c = c\<lparr>programs := oremove name (programs c)\<rparr>;
            c = c\<lparr>cf_loops := table_setProgram F invalid True name (cf_loops c)\<rparr>;
            c = c\<lparr>cf_rules := table_setProgram F invalid True name (cf_rules c)\<rparr>
        in (p, emit (ProgramChanged name []) c)
      else (Program0, c))"

definition isProgramAllowed :: "configuration \<Rightarrow> string \<Rightarrow> string \<Rightarrow> bool" where
  "isProgramAllowed c name path =
     (if \<not> ocontains (programs c) name then False
      else full_path (ovalue Program0 (programs c) name) = path)"

definition getProgramByName :: "framework \<Rightarrow> configuration \<Rightarrow> string \<Rightarrow> bool \<Rightarrow> program" where
  "getProgramByName F c name allow_invalid =
     (let p = ovalue Program0 (programs c) name
      in if \<not> program_isValid F p \<and> allow_invalid then unknown_program name else p)"

definition programList :: "configuration \<Rightarrow> program list" where
  "programList c = ovals (programs c)"

definition programNameList :: "configuration \<Rightarrow> string list" where
  "programNameList c = okeys (programs c)"

definition isProgramKillable :: "configuration \<Rightarrow> string \<Rightarrow> bool" where
  "isProgramKillable c path = (path \<notin> set (no_kill_programs c))"

section \<open>Finding transitions\<close>

text \<open>One of the two loops of \<open>getFirstMatchingTransition\<close>: the transition and the final value of
  \<open>matchedButRefused\<close>.\<close>

fun first_match :: "('r \<Rightarrow> transition \<times> bool) \<Rightarrow> 'r list \<Rightarrow> transition \<times> bool" where
  "first_match matches [] = (Transition0, False)"
| "first_match matches (r # rs) =
     (let (t, matchedButRefused) = matches r in
      if tn_valid t then (t, matchedButRefused)
      else if matchedButRefused then (Transition0, True)
      else first_match matches rs)"

definition getFirstMatchingTransition ::
    "framework \<Rightarrow> configuration \<Rightarrow> program \<Rightarrow> domain \<Rightarrow> (string, string) omap \<Rightarrow> transition" where
  "getFirstMatchingTransition F c app current vals =
     (let (t, matchedButRefused) =
            first_match (\<lambda>l. loop_matches F l app current vals) (ovalue [] (cf_loops c) (app_name app)) in
      if tn_valid t then t
      else if matchedButRefused then Transition0
      else
        let (t, _) = first_match (\<lambda>r. rule_matches F r app current vals) (ovalue [] (cf_rules c) (app_name app))
        in t)"

section \<open>Rules and loops\<close>

datatype arule = ALoop loop | ARule rule

fun arule_priority :: "arule \<Rightarrow> int" where
  "arule_priority (ALoop l) = ar_priority l"
| "arule_priority (ARule r) = ar_priority r"

definition allLoops :: "configuration \<Rightarrow> loop list" where
  "allLoops c = table_all (cf_loops c)"

definition allRules :: "configuration \<Rightarrow> rule list" where
  "allRules c = table_all (cf_rules c)"

definition allAbstractRules :: "bool \<Rightarrow> configuration \<Rightarrow> arule list" where
  "allAbstractRules srt c =
     (let result = map ALoop (table_all (cf_loops c)) @ map ARule (table_all (cf_rules c))
      in if srt then sort_key arule_priority result else result)"

definition loopsForProgram :: "configuration \<Rightarrow> string \<Rightarrow> loop list" where
  "loopsForProgram c name = ovalue [] (cf_loops c) name"

definition rulesForProgram :: "configuration \<Rightarrow> string \<Rightarrow> rule list" where
  "rulesForProgram c name = ovalue [] (cf_rules c) name"

definition abstractRulesForProgram :: "bool \<Rightarrow> configuration \<Rightarrow> string \<Rightarrow> arule list" where
  "abstractRulesForProgram srt c name =
     (let result = map ALoop (loopsForProgram c name) @ map ARule (rulesForProgram c name)
      in if srt then sort_key arule_priority result else result)"

definition loopsForDomain :: "framework \<Rightarrow> configuration \<Rightarrow> domain \<Rightarrow> loop list" where
  "loopsForDomain F c d =
     concat (map (\<lambda>cur. filter (\<lambda>l. tRulesContain F (dom_name d) True l) cur) (ovals (cf_loops c)))"

definition rulesForDomain :: "framework \<Rightarrow> configuration \<Rightarrow> domain \<Rightarrow> rule list" where
  "rulesForDomain F c d =
     concat (map (\<lambda>cur. filter (\<lambda>r. dom_name (transit_to r) = dom_name d \<or>
                                   tRulesContain F (dom_name d) True r) cur) (ovals (cf_rules c)))"

definition addLoop :: "loop \<Rightarrow> bool \<Rightarrow> configuration \<Rightarrow> configuration" where
  "addLoop l quiet c =
     (let c = c\<lparr>cf_loops := table_add l (cf_loops c)\<rparr>
      in if \<not> quiet then emit (LoopsChanged False) c else c)"

definition addRule :: "rule \<Rightarrow> bool \<Rightarrow> configuration \<Rightarrow> configuration" where
  "addRule r quiet c =
     (let c = c\<lparr>cf_rules := table_add r (cf_rules c)\<rparr>
      in if \<not> quiet then emit (RulesChanged False) c else c)"

definition deleteLoop_id :: "int \<Rightarrow> bool \<Rightarrow> configuration \<Rightarrow> loop \<times> configuration" where
  "deleteLoop_id i quiet c =
     (case table_delete_id i (cf_loops c) of
        (None, m) \<Rightarrow> (Loop0 False False, c\<lparr>cf_loops := m\<rparr>)
      | (Some l, m) \<Rightarrow>
          (l, let c = c\<lparr>cf_loops := m\<rparr> in if \<not> quiet then emit (LoopsChanged False) c else c))"

definition deleteRule_id :: "int \<Rightarrow> bool \<Rightarrow> configuration \<Rightarrow> rule \<times> configuration" where
  "deleteRule_id i quiet c =
     (case table_delete_id i (cf_rules c) of
        (None, m) \<Rightarrow> (Rule0 False False, c\<lparr>cf_rules := m\<rparr>)
      | (Some r, m) \<Rightarrow>
          (r, let c = c\<lparr>cf_rules := m\<rparr> in if \<not> quiet then emit (RulesChanged False) c else c))"

definition table_holds :: "'a abstract_rule_scheme \<Rightarrow> 'a table \<Rightarrow> bool" where
  "table_holds r m = (fst (erase_id (ar_id r) (ovalue [] m (rule_key r))) \<noteq> None)"

definition deleteLoop :: "loop \<Rightarrow> bool \<Rightarrow> configuration \<Rightarrow> configuration" where
  "deleteLoop l quiet c =
     (let found = table_holds l (cf_loops c);
          c = c\<lparr>cf_loops := table_delete l (cf_loops c)\<rparr>
      in if found \<and> \<not> quiet then emit (LoopsChanged False) c else c)"

definition deleteRule :: "rule \<Rightarrow> bool \<Rightarrow> configuration \<Rightarrow> configuration" where
  "deleteRule r quiet c =
     (let found = table_holds r (cf_rules c);
          c = c\<lparr>cf_rules := table_delete r (cf_rules c)\<rparr>
      in if found \<and> \<not> quiet then emit (RulesChanged False) c else c)"

definition updateLoop :: "loop \<Rightarrow> bool \<Rightarrow> configuration \<Rightarrow> configuration" where
  "updateLoop l quiet c = addLoop l quiet (deleteLoop l True c)"

definition updateRule :: "rule \<Rightarrow> bool \<Rightarrow> configuration \<Rightarrow> configuration" where
  "updateRule r quiet c = addRule r quiet (deleteRule r True c)"

definition findLoop :: "int \<Rightarrow> configuration \<Rightarrow> loop" where
  "findLoop i c = (case table_find i (cf_loops c) of None \<Rightarrow> Loop0 False False | Some l \<Rightarrow> l)"

definition findRule :: "int \<Rightarrow> configuration \<Rightarrow> rule" where
  "findRule i c = (case table_find i (cf_rules c) of None \<Rightarrow> Rule0 False False | Some r \<Rightarrow> r)"

definition findAbstractRule :: "int \<Rightarrow> configuration \<Rightarrow> arule" where
  "findAbstractRule i c =
     (let l = findLoop i c in
      if arule_isValid l then ALoop l
      else let r = findRule i c in
           if rule_isValid r then ARule r else ARule (Rule0 False False))"

fun deleteAbstractRule :: "arule \<Rightarrow> configuration \<Rightarrow> configuration" where
  "deleteAbstractRule (ALoop l) c = deleteLoop l False c"
| "deleteAbstractRule (ARule r) c = deleteRule r False c"

definition deleteAbstractRule_id :: "int \<Rightarrow> configuration \<Rightarrow> arule \<times> configuration" where
  "deleteAbstractRule_id i c = (let ptr = findAbstractRule i c in (ptr, deleteAbstractRule ptr c))"

definition swapPriorities :: "int \<Rightarrow> int \<Rightarrow> configuration \<Rightarrow> configuration" where
  "swapPriorities i other c =
     (let (l, c) = deleteLoop_id i True c in
      if arule_isValid l then
        let (other_loop, c) = deleteLoop_id other True c in
        if arule_isValid other_loop then
          let (l, other_loop) = swap_priorities l other_loop;
              c = addLoop other_loop True (addLoop l True c)
          in emit (LoopsChanged False) c
        else
          let (other_rule, c) = deleteRule_id other True c in
          if rule_isValid other_rule then
            let (l, other_rule) = swap_priorities l other_rule;
                c = addRule other_rule True (addLoop l True c)
            in emit (AllRulesChanged False) c
          else c
      else
        let (r, c) = deleteRule_id i True c in
        if rule_isValid r then
          let (other_loop, c) = deleteLoop_id other True c in
          if arule_isValid other_loop then
            let (r, other_loop) = swap_priorities r other_loop;
                c = addLoop other_loop True (addRule r True c)
            in emit (AllRulesChanged False) c
          else
            let (other_rule, c) = deleteRule_id other True c in
            if rule_isValid other_rule then
              let (r, other_rule) = swap_priorities r other_rule;
                  c = addRule other_rule True (addRule r True c)
              in emit (RulesChanged False) c
            else c
        else c)"

section \<open>Domains\<close>

definition getDomainByName :: "configuration \<Rightarrow> string \<Rightarrow> domain" where
  "getDomainByName c name = ovalue Domain0 (domains c) name"

definition domainNameList :: "configuration \<Rightarrow> string list" where
  "domainNameList c = okeys (domains c)"

definition domainList :: "configuration \<Rightarrow> domain list" where
  "domainList c = ovals (domains c)"

definition domainCount :: "configuration \<Rightarrow> nat" where
  "domainCount c = length (domains c)"

definition addDomain :: "domain \<Rightarrow> bool \<Rightarrow> configuration \<Rightarrow> configuration" where
  "addDomain d set_default c =
     (if \<not> domain_eq d Domain0 then
        let c = c\<lparr>domains := oinsert (dom_name d) d (domains c)\<rparr>;
            c = (if set_default then c\<lparr>default_domain := d\<rparr> else c)
        in emit (DomainChanged [] (dom_name d)) c
      else c)"

fun updateDomain_loops :: "string \<Rightarrow> domain \<Rightarrow> loop list \<Rightarrow> bool \<times> configuration \<Rightarrow> bool \<times> configuration" where
  "updateDomain_loops old_name d [] (updated, c) = (updated, c)"
| "updateDomain_loops old_name d (l # ls) (updated, c) =
     (let (t, l) = deleteTRule old_name l in
      updateDomain_loops old_name d ls
        (if trule_isValid t
         then (True, updateLoop (addTRule (t\<lparr>from_domain := dom_name d\<rparr>) l) True c)
         else (updated, c)))"

fun updateDomain_rules :: "string \<Rightarrow> domain \<Rightarrow> rule list \<Rightarrow> bool \<times> configuration \<Rightarrow> bool \<times> configuration" where
  "updateDomain_rules old_name d [] (updated, c) = (updated, c)"
| "updateDomain_rules old_name d (r # rs) (updated, c) =
     (let (t, r) = deleteTRule old_name r;
          (r, updated, c) =
            (if trule_isValid t
             then let r = addTRule (t\<lparr>from_domain := dom_name d\<rparr>) r in (r, True, updateRule r True c)
             else (r, updated, c))
      in updateDomain_rules old_name d rs
           (if dom_name (transit_to r) = old_name
            then let (_, r) = setTransitTo d r in (True, updateRule r True c)
            else (updated, c)))"

definition emit_changes :: "bool \<Rightarrow> bool \<Rightarrow> configuration \<Rightarrow> configuration" where
  "emit_changes loopsUpdated rulesUpdated c =
     (if loopsUpdated \<and> rulesUpdated then emit (AllRulesChanged True) c
      else if loopsUpdated then emit (LoopsChanged True) c
      else if rulesUpdated then emit (RulesChanged True) c
      else c)"

definition updateDomain :: "string \<Rightarrow> domain \<Rightarrow> bool \<Rightarrow> configuration \<Rightarrow> configuration" where
  "updateDomain old_name d set_default c =
     (if ocontains (domains c) old_name then
        let c = c\<lparr>domains := oinsert (dom_name d) d (oremove old_name (domains c))\<rparr>;
            c = (if set_default then c\<lparr>default_domain := d\<rparr> else c);
            (loopsUpdated, c) = updateDomain_loops old_name d (allLoops c) (False, c);
            (rulesUpdated, c) = updateDomain_rules old_name d (allRules c) (False, c);
            c = emit_changes loopsUpdated rulesUpdated c
        in emit (DomainChanged old_name (dom_name d)) c
      else c)"

fun deleteDomain_loops :: "string \<Rightarrow> loop list \<Rightarrow> bool \<times> configuration \<Rightarrow> bool \<times> configuration" where
  "deleteDomain_loops name [] (updated, c) = (updated, c)"
| "deleteDomain_loops name (l # ls) (updated, c) =
     (let (t, l) = deleteTRule name l in
      deleteDomain_loops name ls
        (if trule_isValid t
         then (True, if trules l = [] then snd (deleteLoop_id (ar_id l) True c) else updateLoop l True c)
         else (updated, c)))"

fun deleteDomain_rules :: "string \<Rightarrow> rule list \<Rightarrow> bool \<times> configuration \<Rightarrow> bool \<times> configuration" where
  "deleteDomain_rules name [] (updated, c) = (updated, c)"
| "deleteDomain_rules name (r # rs) (updated, c) =
     (let (t, r) = deleteTRule name r;
          (updated, c) =
            (if trule_isValid t
             then (True, if trules r = [] then snd (deleteRule_id (ar_id r) True c) else updateRule r True c)
             else (updated, c))
      in deleteDomain_rules name rs
           (if dom_name (transit_to r) = name then (True, snd (deleteRule_id (ar_id r) True c))
            else (updated, c)))"

definition deleteDomain :: "string \<Rightarrow> string \<Rightarrow> configuration \<Rightarrow> domain \<times> configuration" where
  "deleteDomain name new_default c =
     (let (result, ds) = oindex Domain0 name (domains c);
          c = c\<lparr>domains := ds\<rparr>
      in if ocontains (domains c) name then
           let c = c\<lparr>domains := oremove name (domains c)\<rparr>;
               (loopsUpdated, c) = deleteDomain_loops name (allLoops c) (False, c);
               (rulesUpdated, c) = deleteDomain_rules name (allRules c) (False, c);
               c = emit_changes loopsUpdated rulesUpdated c;
               c = (if domain_eq (default_domain c) result
                    then c\<lparr>default_domain :=
                             (if ocontains (domains c) new_default
                              then ovalue Domain0 (domains c) new_default else Domain0)\<rparr>
                    else c)
           in (result, emit (DomainChanged name []) c)
         else (result, c))"

section \<open>First match\<close>

text \<open>The outcomes of all loops and rules of a program, in the order in which they are tried; the first
  one that is decided settles the question.\<close>

definition outcomes ::
    "framework \<Rightarrow> configuration \<Rightarrow> program \<Rightarrow> domain \<Rightarrow> (string, string) omap \<Rightarrow> (transition \<times> bool) list" where
  "outcomes F c app current vals =
     map (\<lambda>l. loop_matches F l app current vals) (ovalue [] (cf_loops c) (app_name app)) @
     map (\<lambda>r. rule_matches F r app current vals) (ovalue [] (cf_rules c) (app_name app))"

definition decided :: "transition \<times> bool \<Rightarrow> bool" where
  "decided o1 = (tn_valid (fst o1) \<or> snd o1)"

fun settle :: "(transition \<times> bool) list \<Rightarrow> transition \<times> bool" where
  "settle [] = (Transition0, False)"
| "settle (o1 # os) = (if decided o1 then o1 else settle os)"

definition normal :: "transition \<times> bool \<Rightarrow> bool" where
  "normal o1 = ((tn_valid (fst o1) \<longrightarrow> \<not> snd o1) \<and> (\<not> tn_valid (fst o1) \<longrightarrow> fst o1 = Transition0))"

lemma Transition_valid [simp]: "\<not> tn_valid Transition0" "tn_valid (Transition p f t a b)"
  by (simp_all add: Transition0_def Transition_def)

lemma settle_append: "settle (xs @ ys) = (if decided (settle xs) then settle xs else settle ys)"
  by (induction xs) (auto simp: decided_def)

lemma settle_normal: "\<forall>o1 \<in> set os. normal o1 \<Longrightarrow> normal (settle os)"
  by (induction os) (auto simp: normal_def)

lemma first_match_settle: "\<forall>r \<in> set rs. normal (f r) \<Longrightarrow> first_match f rs = settle (map f rs)"
  by (induction rs) (auto simp: normal_def decided_def case_prod_beta prod_eq_iff)

lemma arule_matches_normal: "normal (arule_matches F target r app current vals)"
  by (auto simp: normal_def arule_matches_def mrules_loop_eq split: option.split)

lemma getFirstMatchingTransition_eq:
  "getFirstMatchingTransition F c app current vals = fst (settle (outcomes F c app current vals))"
proof -
  let ?L = "map (\<lambda>l. loop_matches F l app current vals) (ovalue [] (cf_loops c) (app_name app))"
  let ?R = "map (\<lambda>r. rule_matches F r app current vals) (ovalue [] (cf_rules c) (app_name app))"
  have normal: "\<forall>o1 \<in> set ?L. normal o1" "\<forall>o1 \<in> set ?R. normal o1"
    by (auto simp: loop_matches_def rule_matches_def arule_matches_normal)
  have "normal (settle ?L)" using normal(1) by (rule settle_normal)
  then show ?thesis
    using normal
    by (simp add: getFirstMatchingTransition_def outcomes_def first_match_settle settle_append
        case_prod_beta)
      (auto simp: normal_def decided_def)
qed

section \<open>Passes over the rules\<close>

definition dl_step :: "string \<Rightarrow> loop \<Rightarrow> (string, loop list) omap \<Rightarrow> (string, loop list) omap" where
  "dl_step name l m =
     (let (t, l') = deleteTRule name l in
      if trule_isValid t then
        if trules l' = [] then snd (table_delete_id (ar_id l') m) else table_update l' m
      else m)"

definition dl_effect :: "string \<Rightarrow> loop \<Rightarrow> loop list" where
  "dl_effect name l =
     (let (t, l') = deleteTRule name l in
      if trule_isValid t then (if trules l' = [] then [] else [l']) else [l])"

definition dr_step :: "string \<Rightarrow> rule \<Rightarrow> (string, rule list) omap \<Rightarrow> (string, rule list) omap" where
  "dr_step name r m =
     (let (t, r') = deleteTRule name r;
          m1 = (if trule_isValid t then
                  if trules r' = [] then snd (table_delete_id (ar_id r') m) else table_update r' m
                else m)
      in if dom_name (transit_to r') = name then snd (table_delete_id (ar_id r') m1) else m1)"

definition dr_effect :: "string \<Rightarrow> rule \<Rightarrow> rule list" where
  "dr_effect name r =
     (let (t, r') = deleteTRule name r in
      if dom_name (transit_to r') = name then []
      else if trule_isValid t then (if trules r' = [] then [] else [r']) else [r])"

definition ul_step :: "string \<Rightarrow> domain \<Rightarrow> loop \<Rightarrow> (string, loop list) omap \<Rightarrow> (string, loop list) omap" where
  "ul_step old_name d l m =
     (let (t, l') = deleteTRule old_name l in
      if trule_isValid t then table_update (addTRule (t\<lparr>from_domain := dom_name d\<rparr>) l') m else m)"

definition ul_effect :: "string \<Rightarrow> domain \<Rightarrow> loop \<Rightarrow> loop list" where
  "ul_effect old_name d l =
     (let (t, l') = deleteTRule old_name l in
      if trule_isValid t then [addTRule (t\<lparr>from_domain := dom_name d\<rparr>) l'] else [l])"

definition ur_step :: "string \<Rightarrow> domain \<Rightarrow> rule \<Rightarrow> (string, rule list) omap \<Rightarrow> (string, rule list) omap" where
  "ur_step old_name d r m =
     (let (t, r') = deleteTRule old_name r;
          (r1, m1) = (if trule_isValid t
                      then let r' = addTRule (t\<lparr>from_domain := dom_name d\<rparr>) r' in (r', table_update r' m)
                      else (r', m))
      in if dom_name (transit_to r1) = old_name then table_update (snd (setTransitTo d r1)) m1 else m1)"

definition ur_effect :: "string \<Rightarrow> domain \<Rightarrow> rule \<Rightarrow> rule list" where
  "ur_effect old_name d r =
     (let (t, r') = deleteTRule old_name r;
          r1 = (if trule_isValid t then addTRule (t\<lparr>from_domain := dom_name d\<rparr>) r' else r')
      in if dom_name (transit_to r1) = old_name then [snd (setTransitTo d r1)]
         else if trule_isValid t then [r1] else [r])"

lemma deleteTRule_fields:
  assumes "deleteTRule name r = (t, r')"
  shows "ar_id r' = ar_id r" "rule_key r' = rule_key r"
    "delete_trule name (trules r) = (t, trules r')"
  using assms by (auto simp: deleteTRule_def rule_key_def split: prod.splits)

lemma deleteTRule_transit_to:
  fixes r :: rule
  assumes "deleteTRule name r = (t, r')"
  shows "transit_to r' = transit_to r"
  using assms by (auto simp: deleteTRule_def split: prod.splits)

lemma addTRule_fields [simp]:
  "ar_id (addTRule t r) = ar_id r" "rule_key (addTRule t r) = rule_key r"
  "trules (addTRule t r) = trules r @ [t]"
  by (simp_all add: addTRule_def rule_key_def)

lemma addTRule_transit_to [simp]: "transit_to (addTRule t (r :: rule)) = transit_to r"
  by (simp add: addTRule_def)

lemma setTransitTo_fields [simp]:
  "ar_id (snd (setTransitTo d r)) = ar_id r" "rule_key (snd (setTransitTo d r)) = rule_key r"
  by (simp_all add: setTransitTo_def rule_key_def)

interpretation dl: table_pass "dl_step name" "dl_effect name" for name
proof
  fix m :: "(string, loop list) omap" and r
  assume m: "table_wf m" and r: "r \<in> set (table_all m)"
  obtain t r' where d: "deleteTRule name r = (t, r')" by fastforce
  note f = deleteTRule_fields [OF d]
  show "replaces m r (dl_effect name r) (dl_step name r m)"
    using replaces_keep [OF m, of r] replaces_drop [OF m r] replaces_update [OF m r f(1,2)]
    by (simp add: dl_effect_def dl_step_def d f)
qed

interpretation dr: table_pass "dr_step name" "dr_effect name" for name
proof
  fix m :: "(string, rule list) omap" and r
  assume m: "table_wf m" and r: "r \<in> set (table_all m)"
  obtain t r' where d: "deleteTRule name r = (t, r')" by fastforce
  note f = deleteTRule_fields [OF d]
  have twice: "snd (table_delete_id (ar_id r) (snd (table_delete_id (ar_id r) m))) = snd (table_delete_id (ar_id r) m)"
    using replaces_gone(2) [OF m r replaces_drop [OF m r]] by simp
  have upd: "replaces m r [r'] (table_update r' m)"
    using m r f(1,2) by (rule replaces_update)
  have "replaces (table_update r' m) r' [] (snd (table_delete_id (ar_id r') (table_update r' m)))"
    using upd replaces_member [OF upd r] by (intro replaces_drop) (auto simp: replaces_def)
  with upd have "replaces m r [] (snd (table_delete_id (ar_id r') (table_update r' m)))"
    by (rule replaces_trans)
  then show "replaces m r (dr_effect name r) (dr_step name r m)"
    using replaces_keep [OF m, of r] replaces_drop [OF m r] upd twice
    by (simp add: dr_effect_def dr_step_def d f Let_def)
qed

interpretation ul: table_pass "ul_step old_name d" "ul_effect old_name d" for old_name d
proof
  fix m :: "(string, loop list) omap" and r
  assume m: "table_wf m" and r: "r \<in> set (table_all m)"
  obtain t r' where d: "deleteTRule old_name r = (t, r')" by fastforce
  note f = deleteTRule_fields [OF d]
  show "replaces m r (ul_effect old_name d r) (ul_step old_name d r m)"
    using replaces_keep [OF m, of r] replaces_update [OF m r, of "addTRule (t\<lparr>from_domain := dom_name d\<rparr>) r'"]
    by (simp add: ul_effect_def ul_step_def d f)
qed

interpretation ur: table_pass "ur_step old_name d" "ur_effect old_name d" for old_name d
proof
  fix m :: "(string, rule list) omap" and r
  assume m: "table_wf m" and r: "r \<in> set (table_all m)"
  obtain t r' where d: "deleteTRule old_name r = (t, r')" by fastforce
  note f = deleteTRule_fields [OF d]
  let ?r1 = "addTRule (t\<lparr>from_domain := dom_name d\<rparr>) r'"
  have upd: "replaces m r [?r1] (table_update ?r1 m)"
    using f by (intro replaces_update m r) simp_all
  have "replaces (table_update ?r1 m) ?r1 [snd (setTransitTo d ?r1)]
      (table_update (snd (setTransitTo d ?r1)) (table_update ?r1 m))"
    using upd replaces_member [OF upd r] by (intro replaces_update) (auto simp: replaces_def)
  with upd have "replaces m r [snd (setTransitTo d ?r1)]
      (table_update (snd (setTransitTo d ?r1)) (table_update ?r1 m))"
    by (rule replaces_trans)
  moreover have "replaces m r [snd (setTransitTo d r')] (table_update (snd (setTransitTo d r')) m)"
    using f by (intro replaces_update m r) simp_all
  ultimately show "replaces m r (ur_effect old_name d r) (ur_step old_name d r m)"
    using replaces_keep [OF m, of r] upd
    by (simp add: ur_effect_def ur_step_def d Let_def)
qed

lemma quiet_ops [simp]:
  "updateLoop l True c = c\<lparr>cf_loops := table_update l (cf_loops c)\<rparr>"
  "updateRule r True c = c\<lparr>cf_rules := table_update r (cf_rules c)\<rparr>"
  "snd (deleteLoop_id i True c) = c\<lparr>cf_loops := snd (table_delete_id i (cf_loops c))\<rparr>"
  "snd (deleteRule_id i True c) = c\<lparr>cf_rules := snd (table_delete_id i (cf_rules c))\<rparr>"
  by (simp_all add: updateLoop_def addLoop_def deleteLoop_def updateRule_def addRule_def deleteRule_def
      table_update_def deleteLoop_id_def deleteRule_id_def Let_def split: prod.split option.split)

lemma deleteDomain_loops_pass:
  "snd (deleteDomain_loops name ls (u, c)) = c\<lparr>cf_loops := fold (dl_step name) ls (cf_loops c)\<rparr>"
proof (induction ls arbitrary: u c)
  case (Cons l ls)
  obtain t l' where d: "deleteTRule name l = (t, l')" by fastforce
  show ?case by (simp add: d Cons.IH dl_step_def)
qed simp

lemma deleteDomain_rules_pass:
  "snd (deleteDomain_rules name rs (u, c)) = c\<lparr>cf_rules := fold (dr_step name) rs (cf_rules c)\<rparr>"
proof (induction rs arbitrary: u c)
  case (Cons r rs)
  obtain t r' where d: "deleteTRule name r = (t, r')" by fastforce
  show ?case by (simp add: d Cons.IH dr_step_def Let_def)
qed simp

lemma updateDomain_loops_pass:
  "snd (updateDomain_loops old_name d ls (u, c)) = c\<lparr>cf_loops := fold (ul_step old_name d) ls (cf_loops c)\<rparr>"
proof (induction ls arbitrary: u c)
  case (Cons l ls)
  obtain t l' where d: "deleteTRule old_name l = (t, l')" by fastforce
  show ?case by (simp add: d Cons.IH ul_step_def)
qed simp

lemma updateDomain_rules_pass:
  "snd (updateDomain_rules old_name d rs (u, c)) = c\<lparr>cf_rules := fold (ur_step old_name d) rs (cf_rules c)\<rparr>"
proof (induction rs arbitrary: u c)
  case (Cons r rs)
  obtain t r' where d: "deleteTRule old_name r = (t, r')" by fastforce
  show ?case by (simp add: d Cons.IH ur_step_def Let_def case_prod_beta)
qed simp

lemma emit_fields [simp]:
  "cf_loops (emit sg c) = cf_loops c" "cf_rules (emit sg c) = cf_rules c"
  "domains (emit sg c) = domains c" "programs (emit sg c) = programs c"
  "default_domain (emit sg c) = default_domain c" "idCounter (emit sg c) = idCounter c"
  "allLoops (emit sg c) = allLoops c" "allRules (emit sg c) = allRules c"
  by (simp_all add: emit_def allLoops_def allRules_def)

lemma emit_changes_fields [simp]:
  "cf_loops (emit_changes a b c) = cf_loops c" "cf_rules (emit_changes a b c) = cf_rules c"
  "domains (emit_changes a b c) = domains c" "programs (emit_changes a b c) = programs c"
  "default_domain (emit_changes a b c) = default_domain c" "idCounter (emit_changes a b c) = idCounter c"
  by (simp_all add: emit_changes_def)

lemma deleteDomain_fields:
  "fst (deleteDomain name new_default c) = ovalue Domain0 (domains c) name"
  "domains (snd (deleteDomain name new_default c)) = oremove name (snd (oindex Domain0 name (domains c)))"
  "cf_loops (snd (deleteDomain name new_default c)) = fold (dl_step name) (allLoops c) (cf_loops c)"
  "cf_rules (snd (deleteDomain name new_default c)) = fold (dr_step name) (allRules c) (cf_rules c)"
  "programs (snd (deleteDomain name new_default c)) = programs c"
  "idCounter (snd (deleteDomain name new_default c)) = idCounter c"
  "default_domain (snd (deleteDomain name new_default c)) =
     (if default_domain c = ovalue Domain0 (domains c) name
      then ovalue Domain0 (oremove name (snd (oindex Domain0 name (domains c)))) new_default
      else default_domain c)"
proof -
  have "ocontains (snd (oindex Domain0 name (domains c))) name"
    by (simp add: ocontains_def ofind_oindex)
  note simps = deleteDomain_def this case_prod_beta Let_def deleteDomain_loops_pass
    deleteDomain_rules_pass oindex_value ovalue_absent allLoops_def allRules_def
  show "fst (deleteDomain name new_default c) = ovalue Domain0 (domains c) name"
    "domains (snd (deleteDomain name new_default c)) = oremove name (snd (oindex Domain0 name (domains c)))"
    "cf_loops (snd (deleteDomain name new_default c)) = fold (dl_step name) (allLoops c) (cf_loops c)"
    "cf_rules (snd (deleteDomain name new_default c)) = fold (dr_step name) (allRules c) (cf_rules c)"
    "programs (snd (deleteDomain name new_default c)) = programs c"
    "idCounter (snd (deleteDomain name new_default c)) = idCounter c"
    "default_domain (snd (deleteDomain name new_default c)) =
       (if default_domain c = ovalue Domain0 (domains c) name
        then ovalue Domain0 (oremove name (snd (oindex Domain0 name (domains c)))) new_default
        else default_domain c)"
    by (simp_all add: simps)
qed

lemma updateDomain_fields:
  assumes "ocontains (domains c) old_name"
  shows "domains (updateDomain old_name d sd c) = oinsert (dom_name d) d (oremove old_name (domains c))"
    and "cf_loops (updateDomain old_name d sd c) = fold (ul_step old_name d) (allLoops c) (cf_loops c)"
    and "cf_rules (updateDomain old_name d sd c) = fold (ur_step old_name d) (allRules c) (cf_rules c)"
    and "programs (updateDomain old_name d sd c) = programs c"
    and "idCounter (updateDomain old_name d sd c) = idCounter c"
    and "default_domain (updateDomain old_name d sd c) = (if sd then d else default_domain c)"
  using assms
  by (simp_all add: updateDomain_def case_prod_beta Let_def updateDomain_loops_pass
      updateDomain_rules_pass allLoops_def allRules_def)

end
