(* ===== verification/Configuration_Invariant.thy ===== *)
theory Configuration_Invariant
  imports Configuration_Model
begin

text \<open>
  What the operations of the configuration keep: the invariant \<open>config_wf\<close>, proved for every editing
  operation and then for every sequence of edits.
\<close>

section \<open>Invariant\<close>

definition ids :: "'a table \<Rightarrow> int set" where
  "ids m = ar_id ` set (table_all m)"

definition stores_wf :: "(string, loop list) omap \<Rightarrow> (string, rule list) omap \<Rightarrow> int \<Rightarrow> bool" where
  "stores_wf L R n =
     (table_wf L \<and> table_wf R \<and> ids L \<inter> ids R = {} \<and> (\<forall>i \<in> ids L \<union> ids R. InvalidId < i \<and> i \<le> n) \<and>
      (\<forall>r \<in> set (table_all R). transit_to r \<noteq> Domain0))"

definition names_wf :: "(string, domain) omap \<Rightarrow> (string, program) omap \<Rightarrow> bool" where
  "names_wf D P =
     (osorted D \<and> osorted P \<and> (\<forall>k d. ofind D k = Some d \<longrightarrow> dom_name d = k) \<and>
      (\<forall>k p. ofind P k = Some p \<longrightarrow> app_name p = k))"

text \<open>The maps are ordered, every entry is filed under its own name, every loop and rule under its
  program's, in order of priority; identifiers are unique across loops and rules, valid and not
  larger than the counter; no rule leads to the invalid domain.\<close>

definition config_wf :: "configuration \<Rightarrow> bool" where
  "config_wf c =
     (stores_wf (cf_loops c) (cf_rules c) (idCounter c) \<and> InvalidId \<le> idCounter c \<and>
      names_wf (domains c) (programs c))"

lemma stores_wf_loops:
  assumes "stores_wf L R n" "table_wf L'" "ids L' \<subseteq> ids L"
  shows "stores_wf L' R n"
  using assms unfolding stores_wf_def by blast

lemma stores_wf_rules:
  assumes "stores_wf L R n" "table_wf R'" "ids R' \<subseteq> ids R" "\<forall>r \<in> set (table_all R'). transit_to r \<noteq> Domain0"
  shows "stores_wf L R' n"
  using assms unfolding stores_wf_def by blast

lemma set_table_add: "table_wf m \<Longrightarrow> set (table_all (table_add r m)) = insert r (set (table_all m))"
  by (metis set_mset_add_mset_insert set_mset_mset tbl.add_all)

lemma set_table_delete:
  assumes "table_wf m"
  shows "set (table_all (table_delete r m)) \<subseteq> set (table_all m)"
proof -
  obtain x l' where e: "erase_id (ar_id r) (ovalue [] m (rule_key r)) = (x, l')" by fastforce
  have "osorted m" using assms by (simp add: table_wf_def)
  from table_delete_all [OF this e] have "mset (table_all (table_delete r m)) \<subseteq># mset (table_all m)" by simp
  then show ?thesis by (metis set_mset_mono set_mset_mset)
qed

subsection \<open>Loops and rules\<close>

lemma addLoop_fields [simp]:
  "cf_loops (addLoop l q c) = table_add l (cf_loops c)" "cf_rules (addLoop l q c) = cf_rules c"
  "domains (addLoop l q c) = domains c" "programs (addLoop l q c) = programs c"
  "idCounter (addLoop l q c) = idCounter c" "default_domain (addLoop l q c) = default_domain c"
  by (simp_all add: addLoop_def Let_def)

lemma addRule_fields [simp]:
  "cf_rules (addRule r q c) = table_add r (cf_rules c)" "cf_loops (addRule r q c) = cf_loops c"
  "domains (addRule r q c) = domains c" "programs (addRule r q c) = programs c"
  "idCounter (addRule r q c) = idCounter c" "default_domain (addRule r q c) = default_domain c"
  by (simp_all add: addRule_def Let_def)

lemma deleteLoop_fields [simp]:
  "cf_loops (deleteLoop l q c) = table_delete l (cf_loops c)" "cf_rules (deleteLoop l q c) = cf_rules c"
  "domains (deleteLoop l q c) = domains c" "programs (deleteLoop l q c) = programs c"
  "idCounter (deleteLoop l q c) = idCounter c"
  by (simp_all add: deleteLoop_def Let_def)

lemma deleteRule_fields [simp]:
  "cf_rules (deleteRule r q c) = table_delete r (cf_rules c)" "cf_loops (deleteRule r q c) = cf_loops c"
  "domains (deleteRule r q c) = domains c" "programs (deleteRule r q c) = programs c"
  "idCounter (deleteRule r q c) = idCounter c"
  by (simp_all add: deleteRule_def Let_def)

lemma addLoop_wf:
  assumes "config_wf c" "InvalidId < ar_id l" "ar_id l \<le> idCounter c"
    "ar_id l \<notin> ids (cf_loops c)" "ar_id l \<notin> ids (cf_rules c)"
  shows "config_wf (addLoop l quiet c)"
proof -
  have "table_wf (cf_loops c)" using assms(1) by (simp add: config_wf_def stores_wf_def)
  with assms show ?thesis
    by (simp add: config_wf_def stores_wf_def ids_def set_table_add table_add_wf)
qed

lemma addRule_wf:
  assumes "config_wf c" "InvalidId < ar_id r" "ar_id r \<le> idCounter c"
    "ar_id r \<notin> ids (cf_loops c)" "ar_id r \<notin> ids (cf_rules c)" "transit_to r \<noteq> Domain0"
  shows "config_wf (addRule r quiet c)"
proof -
  have "table_wf (cf_rules c)" using assms(1) by (simp add: config_wf_def stores_wf_def)
  with assms show ?thesis
    by (simp add: config_wf_def stores_wf_def ids_def set_table_add table_add_wf)
qed

lemma deleteLoop_wf:
  assumes "config_wf c"
  shows "config_wf (deleteLoop l quiet c)"
proof -
  have wf: "table_wf (cf_loops c)" using assms by (simp add: config_wf_def stores_wf_def)
  have "stores_wf (table_delete l (cf_loops c)) (cf_rules c) (idCounter c)"
    using assms set_table_delete [OF wf, of l]
    by (intro stores_wf_loops [OF _ table_delete_wf [OF wf]]) (auto simp: config_wf_def ids_def)
  with assms show ?thesis by (simp add: config_wf_def)
qed

lemma deleteRule_wf:
  assumes "config_wf c"
  shows "config_wf (deleteRule r quiet c)"
proof -
  have wf: "table_wf (cf_rules c)" and to: "\<forall>r \<in> set (table_all (cf_rules c)). transit_to r \<noteq> Domain0"
    using assms by (simp_all add: config_wf_def stores_wf_def)
  note sub = set_table_delete [OF wf, of r]
  have "stores_wf (cf_loops c) (table_delete r (cf_rules c)) (idCounter c)"
    using assms sub to
    by (intro stores_wf_rules [OF _ table_delete_wf [OF wf]]) (auto simp: config_wf_def ids_def)
  with assms show ?thesis by (simp add: config_wf_def)
qed

text \<open>Deleting by identifier: the loop is gone, or there was none.\<close>

lemma deleteLoop_id_cases:
  assumes "config_wf c" "deleteLoop_id i True c = (l, c')"
  obtains (found) "arule_isValid l" "l \<in> set (allLoops c)" "ar_id l = i" "config_wf c'"
      "mset (allLoops c) = add_mset l (mset (allLoops c'))" "i \<notin> ids (cf_loops c')"
      "c' = c\<lparr>cf_loops := cf_loops c'\<rparr>"
    | (missing) "\<not> arule_isValid l" "c' = c" "i \<notin> ids (cf_loops c)"
proof -
  have wf: "table_wf (cf_loops c)" using assms(1) by (simp add: config_wf_def stores_wf_def)
  show thesis
  proof (cases "i \<in> ids (cf_loops c)")
    case False
    then have "table_delete_id i (cf_loops c) = (None, cf_loops c)"
      using tbl.del_missing [OF wf] by (simp add: ids_def)
    with assms(2) False missing show thesis
      by (auto simp: deleteLoop_id_def arule_isValid_def Loop0_def)
  next
    case True
    then obtain r where r: "r \<in> set (table_all (cf_loops c))" "ar_id r = i" by (auto simp: ids_def)
    obtain m' where m': "table_delete_id (ar_id r) (cf_loops c) = (Some r, m')"
      "mset (table_all (cf_loops c)) = add_mset r (mset (table_all m'))" "table_wf m'"
      "ar_id r \<notin> ar_id ` set (table_all m')" "set (table_all (cf_loops c)) = insert r (set (table_all m'))"
      by (rule tbl.del_member [OF wf r(1)])
    have c': "l = r" "c' = c\<lparr>cf_loops := m'\<rparr>"
      using assms(2) m'(1) r(2) by (simp_all add: deleteLoop_id_def)
    have "InvalidId < ar_id r"
      using assms(1) r(1) by (auto simp: config_wf_def stores_wf_def ids_def)
    moreover have "config_wf c'"
      using assms(1) m'(3,5) c'(2) stores_wf_loops [OF _ m'(3), of "cf_loops c"]
      by (auto simp: config_wf_def ids_def)
    ultimately show thesis
      using found c' m' r by (simp add: arule_isValid_def allLoops_def ids_def)
  qed
qed

lemma deleteRule_id_cases:
  assumes "config_wf c" "deleteRule_id i True c = (r, c')"
  obtains (found) "rule_isValid r" "r \<in> set (allRules c)" "ar_id r = i" "config_wf c'"
      "mset (allRules c) = add_mset r (mset (allRules c'))" "i \<notin> ids (cf_rules c')"
      "c' = c\<lparr>cf_rules := cf_rules c'\<rparr>"
    | (missing) "\<not> rule_isValid r" "c' = c" "i \<notin> ids (cf_rules c)"
proof -
  have wf: "table_wf (cf_rules c)" using assms(1) by (simp add: config_wf_def stores_wf_def)
  show thesis
  proof (cases "i \<in> ids (cf_rules c)")
    case False
    then have "table_delete_id i (cf_rules c) = (None, cf_rules c)"
      using tbl.del_missing [OF wf] by (simp add: ids_def)
    with assms(2) False missing show thesis
      by (auto simp: deleteRule_id_def rule_isValid_def arule_isValid_def Rule0_def)
  next
    case True
    then obtain s where s: "s \<in> set (table_all (cf_rules c))" "ar_id s = i" by (auto simp: ids_def)
    obtain m' where m': "table_delete_id (ar_id s) (cf_rules c) = (Some s, m')"
      "mset (table_all (cf_rules c)) = add_mset s (mset (table_all m'))" "table_wf m'"
      "ar_id s \<notin> ar_id ` set (table_all m')" "set (table_all (cf_rules c)) = insert s (set (table_all m'))"
      by (rule tbl.del_member [OF wf s(1)])
    have c': "r = s" "c' = c\<lparr>cf_rules := m'\<rparr>"
      using assms(2) m'(1) s(2) by (simp_all add: deleteRule_id_def)
    have to: "\<forall>r \<in> set (table_all (cf_rules c)). transit_to r \<noteq> Domain0" and st: "stores_wf (cf_loops c) (cf_rules c) (idCounter c)"
      using assms(1) by (simp_all add: config_wf_def stores_wf_def)
    have "InvalidId < ar_id s"
      using st s(1) by (auto simp: stores_wf_def ids_def)
    moreover have "config_wf c'"
      using assms(1) c'(2) to m'(5) stores_wf_rules [OF st m'(3)]
      by (auto simp: config_wf_def ids_def)
    ultimately show thesis
      using found c' m' s to by (simp add: rule_isValid_def arule_isValid_def allRules_def ids_def)
  qed
qed

lemma config_wf_ids:
  assumes "config_wf c"
  shows "i \<in> ids (cf_loops c) \<Longrightarrow> InvalidId < i \<and> i \<le> idCounter c \<and> i \<notin> ids (cf_rules c)"
    and "i \<in> ids (cf_rules c) \<Longrightarrow> InvalidId < i \<and> i \<le> idCounter c \<and> i \<notin> ids (cf_loops c)"
  using assms by (auto simp: config_wf_def stores_wf_def)

lemma config_wf_emit [simp]: "config_wf (emit sg c) = config_wf c"
  by (simp add: config_wf_def)

lemma in_ids:
  "l \<in> set (allLoops c) \<Longrightarrow> ar_id l \<in> ids (cf_loops c)" "r \<in> set (allRules c) \<Longrightarrow> ar_id r \<in> ids (cf_rules c)"
  by (simp_all add: ids_def allLoops_def allRules_def)

lemma swap_priorities_fields [simp]:
  "ar_id (fst (swap_priorities r s)) = ar_id r" "ar_id (snd (swap_priorities r s)) = ar_id s"
  by (simp_all add: swap_priorities_def)

lemma swap_priorities_transit_to [simp]:
  "transit_to (fst (swap_priorities r s)) = transit_to r" "transit_to (snd (swap_priorities s r)) = transit_to r"
  by (simp_all add: swap_priorities_def)

section \<open>Loops and rules together\<close>

text \<open>To the editor, loops and rules are one collection of abstract rules: the same interface as one
  table, with the loops looked at first.\<close>

fun arule_id :: "arule \<Rightarrow> int" where
  "arule_id (ALoop l) = ar_id l"
| "arule_id (ARule r) = ar_id r"

fun with_priority :: "int \<Rightarrow> arule \<Rightarrow> arule" where
  "with_priority p (ALoop l) = ALoop (l\<lparr>ar_priority := p\<rparr>)"
| "with_priority p (ARule r) = ARule (r\<lparr>ar_priority := p\<rparr>)"

definition listed :: "configuration \<Rightarrow> arule list" where
  "listed c = allAbstractRules False c"

fun put_arule :: "arule \<Rightarrow> configuration \<Rightarrow> configuration" where
  "put_arule (ALoop l) c = addLoop l True c"
| "put_arule (ARule r) c = addRule r True c"

definition take_arule :: "int \<Rightarrow> configuration \<Rightarrow> arule option \<times> configuration" where
  "take_arule i c =
     (case table_delete_id i (cf_loops c) of
        (Some l, m) \<Rightarrow> (Some (ALoop l), c\<lparr>cf_loops := m\<rparr>)
      | (None, m) \<Rightarrow>
          (case table_delete_id i (cf_rules c) of
             (Some r, m') \<Rightarrow> (Some (ARule r), c\<lparr>cf_rules := m'\<rparr>)
           | (None, m') \<Rightarrow> (None, c)))"

definition tables_ok :: "configuration \<Rightarrow> bool" where
  "tables_ok c = (table_wf (cf_loops c) \<and> table_wf (cf_rules c) \<and> ids (cf_loops c) \<inter> ids (cf_rules c) = {})"

lemma config_wf_tables: "config_wf c \<Longrightarrow> tables_ok c"
  by (simp add: config_wf_def stores_wf_def tables_ok_def)

lemma mset_listed:
  "mset (listed c) = image_mset ALoop (mset (table_all (cf_loops c))) + image_mset ARule (mset (table_all (cf_rules c)))"
  by (simp add: listed_def allAbstractRules_def)

lemma ids_listed: "arule_id ` set (listed c) = ids (cf_loops c) \<union> ids (cf_rules c)"
  by (simp add: listed_def allAbstractRules_def ids_def image_Un image_image)

lemma distinct_listed: "tables_ok c \<Longrightarrow> distinct (map arule_id (listed c))"
  by (simp add: listed_def allAbstractRules_def tables_ok_def ids_def table_wf_def o_def)

interpretation ct: id_table listed put_arule take_arule arule_id tables_ok
proof unfold_locales
  fix c :: configuration and a i
  assume ok: "tables_ok c"
  then have wf: "table_wf (cf_loops c)" "table_wf (cf_rules c)" by (simp_all add: tables_ok_def)
  from ok show "distinct (map arule_id (listed c))" by (rule distinct_listed)
  show "mset (listed (put_arule a c)) = add_mset a (mset (listed c))"
    using wf by (cases a) (simp_all add: mset_listed tbl.add_all)
  show "tables_ok (put_arule a c)" if "arule_id a \<notin> arule_id ` set (listed c)"
    using ok wf that unfolding ids_listed
    by (cases a) (auto simp: tables_ok_def ids_def set_table_add intro: table_add_wf)
  show "take_arule i c = (None, c)" if "i \<notin> arule_id ` set (listed c)"
    using that wf tbl.del_missing [of "cf_loops c" i] tbl.del_missing [of "cf_rules c" i]
    unfolding ids_listed by (simp add: take_arule_def ids_def)
  assume "i \<in> arule_id ` set (listed c)"
  then consider "i \<in> ids (cf_loops c)" | "i \<in> ids (cf_rules c)" "i \<notin> ids (cf_loops c)"
    unfolding ids_listed by blast
  then show "\<exists>a c'. take_arule i c = (Some a, c') \<and> arule_id a = i \<and>
      mset (listed c) = add_mset a (mset (listed c')) \<and> tables_ok c'"
  proof cases
    case 1
    then obtain l where l: "l \<in> set (table_all (cf_loops c))" "ar_id l = i" by (auto simp: ids_def)
    obtain m where m: "table_delete_id (ar_id l) (cf_loops c) = (Some l, m)"
      "mset (table_all (cf_loops c)) = add_mset l (mset (table_all m))" "table_wf m"
      "ar_id l \<notin> ar_id ` set (table_all m)" "set (table_all (cf_loops c)) = insert l (set (table_all m))"
      by (rule tbl.del_member [OF wf(1) l(1)])
    have "take_arule i c = (Some (ALoop l), c\<lparr>cf_loops := m\<rparr>)"
      using m(1) l(2) by (simp add: take_arule_def)
    with l m ok show ?thesis by (auto simp: mset_listed tables_ok_def ids_def)
  next
    case 2
    then obtain r where r: "r \<in> set (table_all (cf_rules c))" "ar_id r = i" by (auto simp: ids_def)
    obtain m where m: "table_delete_id (ar_id r) (cf_rules c) = (Some r, m)"
      "mset (table_all (cf_rules c)) = add_mset r (mset (table_all m))" "table_wf m"
      "ar_id r \<notin> ar_id ` set (table_all m)" "set (table_all (cf_rules c)) = insert r (set (table_all m))"
      by (rule tbl.del_member [OF wf(2) r(1)])
    have "take_arule i c = (Some (ARule r), c\<lparr>cf_rules := m\<rparr>)"
      using m(1) r(2) 2(2) tbl.del_missing [OF wf(1), of i] by (simp add: take_arule_def ids_def)
    with r m ok show ?thesis by (auto simp: mset_listed tables_ok_def ids_def)
  qed
qed

text \<open>The deletions of \<open>swapPriorities\<close> with their validity checks.\<close>

lemma take_arule_ops:
  assumes "config_wf c"
  shows "take_arule i c =
    (let (l, c1) = deleteLoop_id i True c in
     if arule_isValid l then (Some (ALoop l), c1)
     else let (r, c2) = deleteRule_id i True c1 in
          if rule_isValid r then (Some (ARule r), c2) else (None, c2))"
proof -
  obtain l c1 where l: "deleteLoop_id i True c = (l, c1)" by fastforce
  obtain r c2 where r: "deleteRule_id i True c = (r, c2)" by fastforce
  show ?thesis
  proof (cases rule: deleteLoop_id_cases [OF assms l])
    case 1
    then show ?thesis
      using l by (auto simp: take_arule_def deleteLoop_id_def arule_isValid_def Loop0_def
          split: prod.splits option.splits)
  next
    case 2
    then have none: "table_delete_id i (cf_loops c) = (None, cf_loops c)"
      using assms tbl.del_missing [of "cf_loops c" i] by (simp add: config_wf_def stores_wf_def ids_def)
    show ?thesis
    proof (cases rule: deleteRule_id_cases [OF assms r])
      case 1
      with 2 l r none show ?thesis
        by (auto simp: take_arule_def deleteRule_id_def rule_isValid_def arule_isValid_def Rule0_def
            split: prod.splits option.splits)
    next
      case missing: 2
      then have "table_delete_id i (cf_rules c) = (None, cf_rules c)"
        using assms tbl.del_missing [of "cf_rules c" i] by (simp add: config_wf_def stores_wf_def ids_def)
      with 2 l r none missing show ?thesis by (simp add: take_arule_def)
    qed
  qed
qed

lemma take_arule_wf:
  assumes "config_wf c" "take_arule i c = (x, c')"
  shows "config_wf c'"
proof -
  obtain l c1 where l: "deleteLoop_id i True c = (l, c1)" by fastforce
  show ?thesis
  proof (cases rule: deleteLoop_id_cases [OF assms(1) l])
    case 1
    with assms l show ?thesis by (simp add: take_arule_ops)
  next
    case 2
    obtain r c2 where r: "deleteRule_id i True c = (r, c2)" by fastforce
    show ?thesis
      using assms l r 2 by (cases rule: deleteRule_id_cases [OF assms(1) r]) (simp_all add: take_arule_ops)
  qed
qed

fun swap_signal :: "arule \<Rightarrow> arule \<Rightarrow> signal" where
  "swap_signal (ALoop l) (ALoop m) = LoopsChanged False"
| "swap_signal (ARule r) (ARule s) = RulesChanged False"
| "swap_signal a b = AllRulesChanged False"

lemma swapPriorities_eq:
  assumes "config_wf c"
  shows "swapPriorities i j c =
    (case take_arule i c of
       (None, c1) \<Rightarrow> c1
     | (Some a, c1) \<Rightarrow>
         (case take_arule j c1 of
            (None, c2) \<Rightarrow> c2
          | (Some b, c2) \<Rightarrow>
              emit (swap_signal a b)
                (put_arule (with_priority (arule_priority a) b)
                  (put_arule (with_priority (arule_priority b) a) c2))))"
proof -
  obtain x c1 where x: "take_arule i c = (x, c1)" by fastforce
  note wf = take_arule_wf [OF assms x]
  show ?thesis
    using x unfolding take_arule_ops [OF assms]
    by (auto simp: swapPriorities_def swap_priorities_def Let_def take_arule_ops [OF wf]
        split: prod.splits if_splits)
qed

definition arule_ok :: "int \<Rightarrow> arule \<Rightarrow> bool" where
  "arule_ok n a = (InvalidId < arule_id a \<and> arule_id a \<le> n \<and>
     (case a of ALoop l \<Rightarrow> True | ARule r \<Rightarrow> transit_to r \<noteq> Domain0))"

lemma listed_ok: "config_wf c \<Longrightarrow> a \<in> set (listed c) \<Longrightarrow> arule_ok (idCounter c) a"
  by (auto simp: listed_def allAbstractRules_def arule_ok_def config_wf_def stores_wf_def ids_def)

lemma put_arule_wf:
  assumes "config_wf c" "arule_ok (idCounter c) a" "arule_id a \<notin> arule_id ` set (listed c)"
  shows "config_wf (put_arule a c)"
  using assms unfolding ids_listed
  by (cases a) (auto simp: arule_ok_def intro: addLoop_wf addRule_wf)

lemma with_priority_fields [simp]:
  "arule_id (with_priority p a) = arule_id a" "arule_ok n (with_priority p a) = arule_ok n a"
  "arule_priority (with_priority p a) = p"
  by (cases a; simp add: arule_ok_def)+

lemma take_arule_counter: "take_arule i c = (x, c') \<Longrightarrow> idCounter c' = idCounter c"
  by (auto simp: take_arule_def split: prod.splits option.splits)

lemma put_arule_counter [simp]: "idCounter (put_arule a c) = idCounter c"
  by (cases a) simp_all

lemma take_arule_out:
  assumes "config_wf c" "take_arule i c = (Some a, c')"
  shows "a \<in> set (listed c)" "arule_id a = i" "i \<notin> arule_id ` set (listed c')"
    "mset (listed c) = add_mset a (mset (listed c'))" "set (listed c) = insert a (set (listed c'))"
proof -
  have "i \<in> arule_id ` set (listed c)"
    using assms ct.del_missing [OF config_wf_tables, of c i] by fastforce
  then obtain y where y: "y \<in> set (listed c)" "arule_id y = i" by blast
  from ct.del_member [OF config_wf_tables [OF assms(1)] y(1)] assms(2) y
  show "a \<in> set (listed c)" "arule_id a = i" "i \<notin> arule_id ` set (listed c')"
    "mset (listed c) = add_mset a (mset (listed c'))" "set (listed c) = insert a (set (listed c'))"
    by (auto 4 3)
qed

text \<open>Two abstract rules are taken out of a configuration.\<close>

lemma take_two:
  assumes "config_wf c" "take_arule i c = (Some a, c1)" "take_arule j c1 = (Some b, c2)"
  shows "a \<in> set (listed c)" "b \<in> set (listed c)" "arule_id a = i" "arule_id b = j" "i \<noteq> j"
    "config_wf c2" "idCounter c2 = idCounter c" "i \<notin> arule_id ` set (listed c2)" "j \<notin> arule_id ` set (listed c2)"
    "mset (listed c) = {#a, b#} + mset (listed c2)"
proof -
  note wf1 = take_arule_wf [OF assms(1,2)]
  note 1 = take_arule_out [OF assms(1,2)] and 2 = take_arule_out [OF wf1 assms(3)]
  show "config_wf c2" by (rule take_arule_wf [OF wf1 assms(3)])
  show "idCounter c2 = idCounter c"
    using take_arule_counter [OF assms(2)] take_arule_counter [OF assms(3)] by simp
  show "a \<in> set (listed c)" "b \<in> set (listed c)" "arule_id a = i" "arule_id b = j" "i \<noteq> j"
    "i \<notin> arule_id ` set (listed c2)" "j \<notin> arule_id ` set (listed c2)"
    "mset (listed c) = {#a, b#} + mset (listed c2)"
    using 1 2 by auto
qed

lemma swapPriorities_wf:
  assumes "config_wf c"
  shows "config_wf (swapPriorities i j c)"
proof -
  obtain x c1 where x: "take_arule i c = (x, c1)" by fastforce
  obtain y c2 where y: "take_arule j c1 = (y, c2)" by fastforce
  note wf1 = take_arule_wf [OF assms x]
  note wf2 = take_arule_wf [OF wf1 y]
  show ?thesis
  proof (cases "x = None \<or> y = None")
    case True
    then show ?thesis
      using x y wf1 wf2 by (auto simp: swapPriorities_eq [OF assms] split: option.split)
  next
    case False
    then obtain a b where ab: "x = Some a" "y = Some b" by auto
    note t = take_two [OF assms x [unfolded ab] y [unfolded ab]]
    have ok: "arule_ok (idCounter c2) a" "arule_ok (idCounter c2) b"
      using listed_ok [OF assms] t(1,2,7) by simp_all
    let ?a = "with_priority (arule_priority b) a" and ?b = "with_priority (arule_priority a) b"
    have wfa: "config_wf (put_arule ?a c2)"
      using t ok by (intro put_arule_wf) simp_all
    have "set (listed (put_arule ?a c2)) = insert ?a (set (listed c2))"
      using ct.add_all [OF config_wf_tables [OF t(6)], of ?a] by (metis set_mset_add_mset_insert set_mset_mset)
    then have "config_wf (put_arule ?b (put_arule ?a c2))"
      using t ok wfa by (intro put_arule_wf) auto
    then show ?thesis
      using x y ab by (simp add: swapPriorities_eq [OF assms])
  qed
qed

text \<open>The rule of an identifier.\<close>

lemma table_find_member:
  assumes "table_wf m" "r \<in> set (table_all m)"
  shows "table_find (ar_id r) m = Some r"
proof (cases "table_find (ar_id r) m")
  case None
  with assms(2) show ?thesis by (auto simp: table_find_spec(1))
next
  case (Some r')
  from table_find_spec(2) [OF this] tbl.id_unique [OF assms(1) _ assms(2)] Some show ?thesis by auto
qed

lemma findAbstractRule_listed:
  assumes "config_wf c" "a \<in> set (listed c)"
  shows "findAbstractRule (arule_id a) c = a"
proof -
  have ok: "arule_ok (idCounter c) a" by (rule listed_ok [OF assms])
  have wf: "table_wf (cf_loops c)" "table_wf (cf_rules c)"
    using assms(1) by (simp_all add: config_wf_def stores_wf_def)
  show ?thesis
  proof (cases a)
    case (ALoop l)
    with assms(2) have "l \<in> set (table_all (cf_loops c))"
      by (auto simp: listed_def allAbstractRules_def)
    with table_find_member [OF wf(1)] ok ALoop show ?thesis
      by (simp add: findAbstractRule_def findLoop_def arule_isValid_def arule_ok_def)
  next
    case (ARule r)
    with assms(2) have r: "r \<in> set (table_all (cf_rules c))"
      by (auto simp: listed_def allAbstractRules_def)
    then have "ar_id r \<notin> ids (cf_loops c)"
      using config_wf_ids(2) [OF assms(1)] by (simp add: ids_def)
    then have "table_find (ar_id r) (cf_loops c) = None"
      by (simp add: table_find_spec(1) ids_def)
    with table_find_member [OF wf(2) r] ok ARule show ?thesis
      by (simp add: findAbstractRule_def findLoop_def findRule_def Loop0_def arule_isValid_def
          rule_isValid_def arule_ok_def)
  qed
qed

text \<open>What an exchange of the priorities of \<open>i\<close> and \<open>j\<close> makes of an abstract rule.\<close>

definition exchanged :: "int \<Rightarrow> int \<Rightarrow> configuration \<Rightarrow> arule \<Rightarrow> arule" where
  "exchanged i j c a =
     (if arule_id a = i then with_priority (arule_priority (findAbstractRule j c)) a
      else if arule_id a = j then with_priority (arule_priority (findAbstractRule i c)) a
      else a)"

lemma take_arule_member:
  assumes "config_wf c" "i \<in> arule_id ` set (listed c)"
  obtains a c1 where "take_arule i c = (Some a, c1)"
  using ct.del_found [OF config_wf_tables [OF assms(1)] assms(2)] by blast

end
