(* ===== verification/Configuration_Edits.thy ===== *)
theory Configuration_Edits
  imports Configuration_Invariant
begin

text \<open>
  Editing sessions.  The handlers of the configuration editor that create, edit and delete rules
  (\<open>browserdock.cpp\<close>, \<open>ruledialog.cpp\<close>, \<open>loopdialog.cpp\<close>, \<open>domaindialog.cpp\<close>) on top of the operations of
  the configuration, and that they keep the invariant.  A dialog is what the user leaves in it.
\<close>

section \<open>Handlers\<close>

datatype dialog_result = Cancelled | Created | Edited | Deleted

record rule_dialog =
  dg_result :: dialog_result
  dg_display_name :: string
  dg_program :: program
  dg_target :: domain
  dg_notify :: bool
  dg_prompt :: bool
  dg_domains :: "trule list"
  dg_mrules :: "mrule list"

definition edited_loop :: "framework \<Rightarrow> rule_dialog \<Rightarrow> loop \<Rightarrow> loop" where
  "edited_loop F dialog l =
     (let l = l\<lparr>ar_display_name := dg_display_name dialog\<rparr>;
          l = snd (setProgram F (dg_program dialog) False l);
          l = l\<lparr>ar_notify := dg_notify dialog\<rparr>;
          l = l\<lparr>ar_prompt := dg_prompt dialog\<rparr>;
          l = l\<lparr>trules := []\<rparr>;
          l = fold addTRule (dg_domains dialog) l;
          l = l\<lparr>mrules := []\<rparr>
      in fold addMRule (dg_mrules dialog) l)"

definition editLoop :: "framework \<Rightarrow> int \<Rightarrow> rule_dialog \<Rightarrow> configuration \<Rightarrow> configuration" where
  "editLoop F i dialog c =
     (case dg_result dialog of
        Edited \<Rightarrow> updateLoop (edited_loop F dialog (findLoop i c)) False c
      | Deleted \<Rightarrow> deleteLoop (findLoop i c) False c
      | _ \<Rightarrow> c)"

definition edited_rule :: "framework \<Rightarrow> rule_dialog \<Rightarrow> rule \<Rightarrow> rule" where
  "edited_rule F dialog r =
     (let r = r\<lparr>ar_display_name := dg_display_name dialog\<rparr>;
          r = snd (setProgram F (dg_program dialog) False r);
          r = snd (setTransitTo (dg_target dialog) r);
          r = r\<lparr>ar_notify := dg_notify dialog\<rparr>;
          r = r\<lparr>ar_prompt := dg_prompt dialog\<rparr>;
          r = r\<lparr>trules := []\<rparr>;
          r = fold addTRule (dg_domains dialog) r;
          r = r\<lparr>mrules := []\<rparr>
      in fold addMRule (dg_mrules dialog) r)"

definition editRule :: "framework \<Rightarrow> int \<Rightarrow> rule_dialog \<Rightarrow> configuration \<Rightarrow> configuration" where
  "editRule F i dialog c =
     (case dg_result dialog of
        Edited \<Rightarrow> updateRule (edited_rule F dialog (findRule i c)) False c
      | Deleted \<Rightarrow> deleteRule (findRule i c) False c
      | _ \<Rightarrow> c)"

text \<open>The creation of a loop or a rule; \<open>p\<close> and \<open>n\<close> are the garbage in the flags before they are set.\<close>

definition newLoop :: "bool \<Rightarrow> bool \<Rightarrow> rule_dialog \<Rightarrow> configuration \<Rightarrow> configuration" where
  "newLoop p n dialog c =
     (if dg_result dialog = Created then
        let (l, counter) = Loop p n (dg_program dialog) (dg_display_name dialog) (idCounter c);
            c = c\<lparr>idCounter := counter\<rparr>;
            l = l\<lparr>ar_notify := dg_notify dialog\<rparr>;
            l = l\<lparr>ar_prompt := dg_prompt dialog\<rparr>;
            l = fold addMRule (dg_mrules dialog) l;
            l = fold addTRule (dg_domains dialog) l
        in addLoop l False c
      else c)"

definition newRule :: "bool \<Rightarrow> bool \<Rightarrow> rule_dialog \<Rightarrow> configuration \<Rightarrow> configuration" where
  "newRule p n dialog c =
     (if dg_result dialog = Created then
        let (r, counter) = Rule p n (dg_program dialog) (dg_target dialog) (dg_display_name dialog) (idCounter c);
            c = c\<lparr>idCounter := counter\<rparr>;
            r = r\<lparr>ar_notify := dg_notify dialog\<rparr>;
            r = r\<lparr>ar_prompt := dg_prompt dialog\<rparr>;
            r = fold addMRule (dg_mrules dialog) r;
            r = fold addTRule (dg_domains dialog) r
        in addRule r False c
      else c)"

definition editDomain :: "string \<Rightarrow> bool \<Rightarrow> domain \<Rightarrow> bool \<Rightarrow> configuration \<Rightarrow> configuration" where
  "editDomain name edited d set_default c =
     (if \<not> domain_eq (getDomainByName c name) Domain0 then
        if edited then updateDomain name d set_default c else c
      else c)"

text \<open>The deletion of a domain: when it is the default one and not the last, the user picks another one,
  or cancels (\<open>None\<close>).\<close>

definition onDomainDelete :: "string \<Rightarrow> string option \<Rightarrow> configuration \<Rightarrow> configuration" where
  "onDomainDelete name choice c =
     (if dom_name (default_domain c) = name \<and> 1 < domainCount c then
        case choice of
          None \<Rightarrow> c
        | Some new_default \<Rightarrow> snd (deleteDomain name new_default c)
      else snd (deleteDomain name [] c))"

section \<open>What the handlers do to the rules\<close>

lemma fold_addTRule: "fold addTRule ts r = r\<lparr>trules := trules r @ ts\<rparr>"
  by (induction ts arbitrary: r) (simp_all add: addTRule_def)

lemma fold_addMRule: "fold addMRule ms r = r\<lparr>mrules := mrules r @ ms\<rparr>"
  by (induction ms arbitrary: r) (simp_all add: addMRule_def)

lemma setProgram_fields [simp]:
  "ar_id (snd (setProgram F p ai r)) = ar_id r" "ar_priority (snd (setProgram F p ai r)) = ar_priority r"
  "rule_key (snd (setProgram F p ai r)) = (if program_isValid F p \<or> ai then app_name p else rule_key r)"
  by (simp_all add: setProgram_def rule_key_def)

lemma setProgram_transit_to [simp]: "transit_to (snd (setProgram F p ai r)) = transit_to r"
  by (simp add: setProgram_def)

lemma edited_loop_fields [simp]:
  "ar_id (edited_loop F dialog l) = ar_id l"
  "rule_key (edited_loop F dialog l) =
     (if program_isValid F (dg_program dialog) then app_name (dg_program dialog) else rule_key l)"
  by (simp_all add: edited_loop_def fold_addTRule fold_addMRule Let_def setProgram_def rule_key_def)

lemma edited_rule_fields [simp]:
  "ar_id (edited_rule F dialog r) = ar_id r"
  "rule_key (edited_rule F dialog r) =
     (if program_isValid F (dg_program dialog) then app_name (dg_program dialog) else rule_key r)"
  "transit_to (edited_rule F dialog r) = (if dg_target dialog = Domain0 then transit_to r else dg_target dialog)"
  by (simp_all add: edited_rule_def fold_addTRule fold_addMRule Let_def setProgram_def setTransitTo_def
      rule_key_def)

section \<open>Updates\<close>

lemma stores_update_loop:
  assumes "stores_wf L R n" "l0 \<in> set (table_all L)" "ar_id l = ar_id l0" "rule_key l = rule_key l0"
  shows "stores_wf (table_update l L) R n"
proof -
  have wf: "table_wf L" using assms(1) by (simp add: stores_wf_def)
  have rep: "replaces L l0 [l] (table_update l L)" by (rule replaces_update [OF wf assms(2-4)])
  show ?thesis
    by (rule stores_wf_loops [OF assms(1)])
      (use rep replaces_ids [OF rep assms(2)] in \<open>simp_all add: replaces_def ids_def\<close>)
qed

lemma stores_update_rule:
  assumes "stores_wf L R n" "r0 \<in> set (table_all R)" "ar_id r = ar_id r0" "rule_key r = rule_key r0"
    "transit_to r \<noteq> Domain0"
  shows "stores_wf L (table_update r R) n"
proof -
  have wf: "table_wf R" and to: "\<forall>r \<in> set (table_all R). transit_to r \<noteq> Domain0"
    using assms(1) by (simp_all add: stores_wf_def)
  have rep: "replaces R r0 [r] (table_update r R)" by (rule replaces_update [OF wf assms(2-4)])
  then have "add_mset r0 (mset (table_all (table_update r R))) = add_mset r (mset (table_all R))"
    by (simp add: replaces_def)
  then have "set (table_all (table_update r R)) \<subseteq> insert r (set (table_all R))"
    by (metis set_mset_add_mset_insert set_mset_mset subset_insertI)
  with to assms(5) have "\<forall>r \<in> set (table_all (table_update r R)). transit_to r \<noteq> Domain0" by blast
  then show ?thesis
    by (intro stores_wf_rules [OF assms(1)])
      (use rep replaces_ids [OF rep assms(2)] in \<open>simp_all add: replaces_def ids_def\<close>)
qed

lemma updateLoop_fields [simp]:
  "cf_loops (updateLoop l q c) = table_update l (cf_loops c)" "cf_rules (updateLoop l q c) = cf_rules c"
  "domains (updateLoop l q c) = domains c" "programs (updateLoop l q c) = programs c"
  "idCounter (updateLoop l q c) = idCounter c"
  by (simp_all add: updateLoop_def table_update_def)

lemma updateRule_fields [simp]:
  "cf_rules (updateRule r q c) = table_update r (cf_rules c)" "cf_loops (updateRule r q c) = cf_loops c"
  "domains (updateRule r q c) = domains c" "programs (updateRule r q c) = programs c"
  "idCounter (updateRule r q c) = idCounter c"
  by (simp_all add: updateRule_def table_update_def)

lemma findLoop_member:
  assumes "config_wf c" "i \<in> ids (cf_loops c)"
  shows "findLoop i c \<in> set (table_all (cf_loops c))" "ar_id (findLoop i c) = i"
  using assms table_find_member [of "cf_loops c"]
  by (auto simp: findLoop_def ids_def config_wf_def stores_wf_def)

lemma findRule_member:
  assumes "config_wf c" "i \<in> ids (cf_rules c)"
  shows "findRule i c \<in> set (table_all (cf_rules c))" "ar_id (findRule i c) = i"
  using assms table_find_member [of "cf_rules c"]
  by (auto simp: findRule_def ids_def config_wf_def stores_wf_def)

lemma editLoop_wf:
  assumes "config_wf c" "i \<in> ids (cf_loops c)"
    "\<not> program_isValid F (dg_program dialog) \<or> app_name (dg_program dialog) = rule_key (findLoop i c)"
  shows "config_wf (editLoop F i dialog c)"
proof (cases "dg_result dialog")
  case Edited
  have "stores_wf (table_update (edited_loop F dialog (findLoop i c)) (cf_loops c)) (cf_rules c) (idCounter c)"
    using assms findLoop_member [OF assms(1,2)]
    by (intro stores_update_loop [of _ _ _ "findLoop i c"]) (auto simp: config_wf_def)
  with assms(1) Edited show ?thesis by (simp add: editLoop_def config_wf_def)
qed (use assms(1) deleteLoop_wf in \<open>simp_all add: editLoop_def\<close>)

lemma editRule_wf:
  assumes "config_wf c" "i \<in> ids (cf_rules c)"
    "\<not> program_isValid F (dg_program dialog) \<or> app_name (dg_program dialog) = rule_key (findRule i c)"
  shows "config_wf (editRule F i dialog c)"
proof (cases "dg_result dialog")
  case Edited
  have "stores_wf (cf_loops c) (table_update (edited_rule F dialog (findRule i c)) (cf_rules c)) (idCounter c)"
    using assms findRule_member [OF assms(1,2)]
    by (intro stores_update_rule [of _ _ _ "findRule i c"]) (auto simp: config_wf_def stores_wf_def)
  with assms(1) Edited show ?thesis by (simp add: editRule_def config_wf_def)
qed (use assms(1) deleteRule_wf in \<open>simp_all add: editRule_def\<close>)

section \<open>Creation\<close>

lemma config_wf_counter:
  assumes "config_wf c"
  shows "config_wf (c\<lparr>idCounter := idCounter c + 1\<rparr>)"
    "idCounter c + 1 \<notin> ids (cf_loops c)" "idCounter c + 1 \<notin> ids (cf_rules c)"
proof -
  have bounds: "\<forall>i \<in> ids (cf_loops c) \<union> ids (cf_rules c). InvalidId < i \<and> i \<le> idCounter c"
    using assms by (simp add: config_wf_def stores_wf_def)
  have "idCounter c + 1 \<notin> ids (cf_loops c) \<union> ids (cf_rules c)"
  proof
    assume "idCounter c + 1 \<in> ids (cf_loops c) \<union> ids (cf_rules c)"
    with bounds have "idCounter c + 1 \<le> idCounter c" by blast
    then show False by simp
  qed
  then show "idCounter c + 1 \<notin> ids (cf_loops c)" "idCounter c + 1 \<notin> ids (cf_rules c)" by simp_all
  from bounds have "\<forall>i \<in> ids (cf_loops c) \<union> ids (cf_rules c). InvalidId < i \<and> i \<le> idCounter c + 1"
    by (metis add_increasing2 zero_le_one)
  with assms show "config_wf (c\<lparr>idCounter := idCounter c + 1\<rparr>)"
    by (simp add: config_wf_def stores_wf_def)
qed

lemma newLoop_wf:
  assumes "config_wf c"
  shows "config_wf (newLoop p n dialog c)"
proof (cases "dg_result dialog = Created")
  case True
  have "InvalidId \<le> idCounter c" using assms by (simp add: config_wf_def)
  then show ?thesis
    using True config_wf_counter [OF assms]
    by (simp add: newLoop_def Loop_def fold_addTRule fold_addMRule Let_def addLoop_wf)
qed (simp add: newLoop_def assms)

lemma newRule_wf:
  assumes "config_wf c" "dg_target dialog \<noteq> Domain0"
  shows "config_wf (newRule p n dialog c)"
proof (cases "dg_result dialog = Created")
  case True
  have "InvalidId \<le> idCounter c" using assms by (simp add: config_wf_def)
  then show ?thesis
    using True config_wf_counter [OF assms(1)] assms(2)
    by (simp add: newRule_def Rule_def fold_addTRule fold_addMRule Let_def addRule_wf)
qed (simp add: newRule_def assms)

section \<open>Programs\<close>

lemma table_setProgram_eq:
  "table_setProgram F p ai k m =
     oinsert k (map (\<lambda>r. snd (setProgram F p ai r)) (ovalue [] m k)) (snd (oindex [] k m))"
  by (simp add: table_setProgram_def oindex_value [symmetric] case_prod_beta)

lemma table_setProgram_mset:
  assumes "osorted m"
  shows "mset (table_all (table_setProgram F p ai k m)) + mset (ovalue [] m k) =
    image_mset (\<lambda>r. snd (setProgram F p ai r)) (mset (ovalue [] m k)) + mset (table_all m)"
  using table_all_ovalue [OF assms, of k] by (simp add: table_setProgram_eq)

lemma table_setProgram_ids:
  assumes "osorted m"
  shows "image_mset ar_id (mset (table_all (table_setProgram F p ai k m))) = image_mset ar_id (mset (table_all m))"
    and "ids (table_setProgram F p ai k m) = ids m"
proof -
  have "image_mset ar_id (mset (table_all (table_setProgram F p ai k m)) + mset (ovalue [] m k)) =
      image_mset ar_id (mset (ovalue [] m k)) + image_mset ar_id (mset (table_all m))"
    by (simp add: table_setProgram_mset [OF assms] image_mset.compositionality o_def)
  then show eq: "image_mset ar_id (mset (table_all (table_setProgram F p ai k m))) = image_mset ar_id (mset (table_all m))"
    by simp
  from arg_cong [OF this, of set_mset] show "ids (table_setProgram F p ai k m) = ids m"
    by (simp add: ids_def)
qed

lemma table_setProgram_wf:
  assumes "table_wf m" "app_name p = k"
  shows "table_wf (table_setProgram F p ai k m)"
proof -
  have sorted: "osorted m" using assms(1) by (simp add: table_wf_def)
  have "mset (map ar_id (table_all (table_setProgram F p ai k m))) = mset (map ar_id (table_all m))"
    using table_setProgram_ids(1) [OF sorted] by simp
  then have "distinct (map ar_id (table_all (table_setProgram F p ai k m)))"
    using assms(1) by (metis mset_eq_imp_distinct_iff table_wf_def)
  then show ?thesis
    unfolding table_setProgram_eq using table_wf_values [OF assms(1)] assms(2)
    by (intro table_wf_oinsert assms(1)) (auto simp: o_def)
qed

lemma table_setProgram_transit_to:
  assumes "osorted m" "\<forall>r \<in> set (table_all m). transit_to r \<noteq> Domain0" "\<forall>r \<in> set (ovalue [] m k). transit_to r \<noteq> Domain0"
  shows "\<forall>r \<in> set (table_all (table_setProgram F p ai k m)). transit_to r \<noteq> Domain0"
proof
  fix r
  assume "r \<in> set (table_all (table_setProgram F p ai k m))"
  then have "r \<in># mset (table_all (table_setProgram F p ai k m)) + mset (ovalue [] m k)" by simp
  then show "transit_to r \<noteq> Domain0"
    unfolding table_setProgram_mset [OF assms(1)] using assms(2,3) by auto
qed

lemma stores_setProgram:
  assumes "stores_wf L R n" "app_name p = k"
  shows "stores_wf (table_setProgram F p ai k L) (table_setProgram F p aj k R) n"
proof -
  have wf: "table_wf L" "table_wf R" "osorted L" "osorted R" and to: "\<forall>r \<in> set (table_all R). transit_to r \<noteq> Domain0"
    using assms(1) by (simp_all add: stores_wf_def table_wf_def)
  have "set (ovalue [] R k) \<subseteq> set (table_all R)"
    using in_table_all [OF wf(2)] table_wf_values(1) [OF wf(2)] by blast
  with to have to': "\<forall>r \<in> set (ovalue [] R k). transit_to r \<noteq> Domain0" by blast
  have "stores_wf (table_setProgram F p ai k L) R n"
    by (rule stores_wf_loops [OF assms(1) table_setProgram_wf [OF wf(1) assms(2)]])
      (simp add: table_setProgram_ids wf)
  then show ?thesis
    by (rule stores_wf_rules [OF _ table_setProgram_wf [OF wf(2) assms(2)]])
      (simp add: table_setProgram_ids wf, rule table_setProgram_transit_to [OF wf(4) to to'])
qed

lemma addProgram_wf:
  assumes "config_wf c"
  shows "config_wf (snd (addProgram F p quiet c))"
  using assms stores_setProgram [of "cf_loops c" "cf_rules c" "idCounter c" p "app_name p" F False False]
  by (simp add: addProgram_def config_wf_def Let_def names_wf_def osorted_oinsert)

lemma updateProgram_wf:
  assumes "config_wf c" "app_name p = old_name"
  shows "config_wf (snd (updateProgram F old_name p c))"
  using assms stores_setProgram [of "cf_loops c" "cf_rules c" "idCounter c" p old_name F True True]
  by (simp add: updateProgram_def config_wf_def Let_def names_wf_def osorted_oinsert osorted_oremove ofind_oremove)

lemma deleteProgram_wf:
  assumes "config_wf c"
  shows "config_wf (snd (deleteProgram F name c))"
  using assms stores_setProgram [of "cf_loops c" "cf_rules c" "idCounter c" "unknown_program name" name F True True]
  by (simp add: deleteProgram_def config_wf_def Let_def names_wf_def osorted_oremove ofind_oremove
      unknown_program_def Program_def)

section \<open>Domains\<close>

text \<open>The sources of a loop or rule, as the texts that they are (a source may be an expression that matches
  several domains), the transition rules without the first one for a source, and with the first
  one for a source renamed and moved to the end.\<close>

definition sources :: "'a abstract_rule_scheme \<Rightarrow> string set" where
  "sources r = from_domain ` set (trules r)"

definition sources_distinct :: "'a abstract_rule_scheme \<Rightarrow> bool" where
  "sources_distinct r = distinct (map from_domain (trules r))"

fun drop_source :: "string \<Rightarrow> trule list \<Rightarrow> trule list" where
  "drop_source name [] = []"
| "drop_source name (t # ts) = (if from_domain t = name then ts else t # drop_source name ts)"

definition rename_source :: "string \<Rightarrow> string \<Rightarrow> trule list \<Rightarrow> trule list" where
  "rename_source old new ts =
     (case find (\<lambda>t. from_domain t = old) ts of
        None \<Rightarrow> ts
      | Some t \<Rightarrow> drop_source old ts @ [t\<lparr>from_domain := new\<rparr>])"

lemma delete_trule_eq:
  "delete_trule name ts =
     (case find (\<lambda>t. from_domain t = name) ts of None \<Rightarrow> TRule0 | Some t \<Rightarrow> t, drop_source name ts)"
  by (induction ts) auto

lemma drop_source_absent: "name \<notin> from_domain ` set ts \<Longrightarrow> drop_source name ts = ts"
  by (induction ts) auto

lemma drop_source_distinct:
  "distinct (map from_domain ts) \<Longrightarrow> from_domain ` set (drop_source name ts) = from_domain ` set ts - {name}"
  by (induction ts) (auto simp: image_iff)

lemma find_source:
  "find (\<lambda>t. from_domain t = name) (trules r) = None \<longleftrightarrow> name \<notin> sources r"
  "find (\<lambda>t. from_domain t = name) ts = Some t \<Longrightarrow> from_domain t = name"
  by (auto simp: find_None_iff find_Some_iff sources_def)

lemma deleteTRule_spec:
  assumes "name \<noteq> []"
  obtains t where "deleteTRule name r = (t, r\<lparr>trules := drop_source name (trules r)\<rparr>)"
    "trule_isValid t \<longleftrightarrow> name \<in> sources r"
    "\<forall>new. rename_source name new (trules r) =
       (if name \<in> sources r then drop_source name (trules r) @ [t\<lparr>from_domain := new\<rparr>] else trules r)"
proof (cases "find (\<lambda>t. from_domain t = name) (trules r)")
  case None
  with find_source(1) [of name r] that [of TRule0] show thesis
    by (simp add: deleteTRule_def delete_trule_eq trule_isValid_def TRule0_def TRule_def rename_source_def)
next
  case (Some t)
  with find_source(1) [of name r] find_source(2) [OF Some] that [of t] assms show thesis
    by (simp add: deleteTRule_def delete_trule_eq trule_isValid_def rename_source_def)
qed

lemma dl_effect_eq:
  assumes "name \<noteq> []"
  shows "dl_effect name l =
    (if name \<in> sources l \<and> drop_source name (trules l) = [] then [] else [l\<lparr>trules := drop_source name (trules l)\<rparr>])"
proof -
  obtain t where "deleteTRule name l = (t, l\<lparr>trules := drop_source name (trules l)\<rparr>)" "trule_isValid t \<longleftrightarrow> name \<in> sources l"
    by (rule deleteTRule_spec [OF assms])
  then show ?thesis by (simp add: dl_effect_def drop_source_absent sources_def)
qed

lemma dr_effect_eq:
  assumes "name \<noteq> []"
  shows "dr_effect name r =
    (if dom_name (transit_to r) = name \<or> name \<in> sources r \<and> drop_source name (trules r) = [] then []
     else [r\<lparr>trules := drop_source name (trules r)\<rparr>])"
proof -
  obtain t where "deleteTRule name r = (t, r\<lparr>trules := drop_source name (trules r)\<rparr>)" "trule_isValid t \<longleftrightarrow> name \<in> sources r"
    by (rule deleteTRule_spec [OF assms])
  then show ?thesis by (simp add: dr_effect_def drop_source_absent sources_def)
qed

lemma set_of_mset_eq: "mset xs = mset ys \<Longrightarrow> set xs = set ys"
  by (metis set_mset_mset)

lemma deleteDomain_stores:
  assumes "config_wf c" "c' = snd (deleteDomain name new_default c)"
  shows "set (allLoops c') = \<Union> (set ` dl_effect name ` set (allLoops c))"
    and "set (allRules c') = \<Union> (set ` dr_effect name ` set (allRules c))"
    and "table_wf (cf_loops c')" "table_wf (cf_rules c')"
    and "ids (cf_loops c') \<subseteq> ids (cf_loops c)" "ids (cf_rules c') \<subseteq> ids (cf_rules c)"
proof -
  have wf: "table_wf (cf_loops c)" "table_wf (cf_rules c)"
    using assms(1) by (simp_all add: config_wf_def stores_wf_def)
  have eq: "cf_loops c' = fold (dl_step name) (table_all (cf_loops c)) (cf_loops c)"
    "cf_rules c' = fold (dr_step name) (table_all (cf_rules c)) (cf_rules c)"
    by (simp_all add: assms(2) deleteDomain_fields allLoops_def allRules_def)
  note dl = dl.full_pass [OF wf(1), of name, folded eq] and dr = dr.full_pass [OF wf(2), of name, folded eq]
  show "set (allLoops c') = \<Union> (set ` dl_effect name ` set (allLoops c))"
    "set (allRules c') = \<Union> (set ` dr_effect name ` set (allRules c))"
    using set_of_mset_eq [OF dl(2)] set_of_mset_eq [OF dr(2)] by (simp_all add: allLoops_def allRules_def)
  show "table_wf (cf_loops c')" "table_wf (cf_rules c')"
    "ids (cf_loops c') \<subseteq> ids (cf_loops c)" "ids (cf_rules c') \<subseteq> ids (cf_rules c)"
    using dl dr by (simp_all add: ids_def)
qed

lemma dr_effect_transit_to:
  assumes "r' \<in> set (dr_effect name r)"
  shows "transit_to r' = transit_to r"
proof -
  obtain t r1 where d: "deleteTRule name r = (t, r1)" by fastforce
  from assms deleteTRule_transit_to [OF d] show ?thesis
    by (auto simp: dr_effect_def d split: if_splits)
qed

lemma deleteDomain_wf:
  assumes "config_wf c"
  shows "config_wf (snd (deleteDomain name new_default c))"
proof -
  define c' where "c' = snd (deleteDomain name new_default c)"
  note st = deleteDomain_stores [OF assms c'_def]
  have old: "stores_wf (cf_loops c) (cf_rules c) (idCounter c)" and to: "\<forall>r \<in> set (allRules c). transit_to r \<noteq> Domain0"
    using assms by (simp_all add: config_wf_def stores_wf_def allRules_def)
  from to have "\<forall>r \<in> set (table_all (cf_rules c')). transit_to r \<noteq> Domain0"
    using st(2) dr_effect_transit_to unfolding allRules_def by auto
  then have "stores_wf (cf_loops c') (cf_rules c') (idCounter c)"
    by (rule stores_wf_rules [OF stores_wf_loops [OF old st(3,5)] st(4,6)])
  with assms show ?thesis
    by (simp add: c'_def config_wf_def deleteDomain_fields names_wf_def osorted_oremove osorted_oindex
        ofind_oremove ofind_oindex)
qed

lemma ul_effect_eq:
  assumes "old \<noteq> []"
  shows "ul_effect old d l = [l\<lparr>trules := rename_source old (dom_name d) (trules l)\<rparr>]"
proof -
  obtain t where "deleteTRule old l = (t, l\<lparr>trules := drop_source old (trules l)\<rparr>)" "trule_isValid t \<longleftrightarrow> old \<in> sources l"
    "\<forall>new. rename_source old new (trules l) =
       (if old \<in> sources l then drop_source old (trules l) @ [t\<lparr>from_domain := new\<rparr>] else trules l)"
    by (rule deleteTRule_spec [OF assms])
  then show ?thesis by (simp add: ul_effect_def addTRule_def)
qed

lemma ur_effect_eq:
  assumes "old \<noteq> []"
  shows "ur_effect old d r =
    [r\<lparr>trules := rename_source old (dom_name d) (trules r),
       transit_to := if dom_name (transit_to r) = old \<and> d \<noteq> Domain0 then d else transit_to r\<rparr>]"
proof -
  obtain t where t: "deleteTRule old r = (t, r\<lparr>trules := drop_source old (trules r)\<rparr>)" "trule_isValid t \<longleftrightarrow> old \<in> sources r"
    "\<forall>new. rename_source old new (trules r) =
       (if old \<in> sources r then drop_source old (trules r) @ [t\<lparr>from_domain := new\<rparr>] else trules r)"
    by (rule deleteTRule_spec [OF assms])
  show ?thesis
  proof (cases "old \<in> sources r")
    case True
    with t show ?thesis by (simp add: ur_effect_def addTRule_def setTransitTo_def Let_def)
  next
    case False
    then have "drop_source old (trules r) = trules r" by (simp add: drop_source_absent sources_def)
    with t False show ?thesis by (simp add: ur_effect_def setTransitTo_def Let_def)
  qed
qed

lemma updateDomain_stores:
  assumes "config_wf c" "ocontains (domains c) old" "c' = updateDomain old d sd c"
  shows "set (allLoops c') = \<Union> (set ` ul_effect old d ` set (allLoops c))"
    and "set (allRules c') = \<Union> (set ` ur_effect old d ` set (allRules c))"
    and "table_wf (cf_loops c')" "table_wf (cf_rules c')"
    and "ids (cf_loops c') \<subseteq> ids (cf_loops c)" "ids (cf_rules c') \<subseteq> ids (cf_rules c)"
proof -
  have wf: "table_wf (cf_loops c)" "table_wf (cf_rules c)"
    using assms(1) by (simp_all add: config_wf_def stores_wf_def)
  have eq: "cf_loops c' = fold (ul_step old d) (table_all (cf_loops c)) (cf_loops c)"
    "cf_rules c' = fold (ur_step old d) (table_all (cf_rules c)) (cf_rules c)"
    by (simp_all add: assms(3) updateDomain_fields [OF assms(2)] allLoops_def allRules_def)
  note ul = ul.full_pass [OF wf(1), of old d, folded eq] and ur = ur.full_pass [OF wf(2), of old d, folded eq]
  show "set (allLoops c') = \<Union> (set ` ul_effect old d ` set (allLoops c))"
    "set (allRules c') = \<Union> (set ` ur_effect old d ` set (allRules c))"
    using set_of_mset_eq [OF ul(2)] set_of_mset_eq [OF ur(2)] by (simp_all add: allLoops_def allRules_def)
  show "table_wf (cf_loops c')" "table_wf (cf_rules c')"
    "ids (cf_loops c') \<subseteq> ids (cf_loops c)" "ids (cf_rules c') \<subseteq> ids (cf_rules c)"
    using ul ur by (simp_all add: ids_def)
qed

lemma ur_effect_transit_to:
  assumes "r' \<in> set (ur_effect old d r)" "transit_to r \<noteq> Domain0"
  shows "transit_to r' \<noteq> Domain0"
proof -
  obtain t r1 where del: "deleteTRule old r = (t, r1)" by fastforce
  note to = deleteTRule_transit_to [OF del]
  from assms to show ?thesis
    by (auto simp: ur_effect_def del Let_def setTransitTo_def split: if_splits)
qed

lemma updateDomain_wf:
  assumes "config_wf c"
  shows "config_wf (updateDomain old d sd c)"
proof (cases "ocontains (domains c) old")
  case True
  define c' where "c' = updateDomain old d sd c"
  note st = updateDomain_stores [OF assms True c'_def]
  have old: "stores_wf (cf_loops c) (cf_rules c) (idCounter c)" and to: "\<forall>r \<in> set (allRules c). transit_to r \<noteq> Domain0"
    using assms by (simp_all add: config_wf_def stores_wf_def allRules_def)
  from to have "\<forall>r \<in> set (table_all (cf_rules c')). transit_to r \<noteq> Domain0"
    using st(2) ur_effect_transit_to unfolding allRules_def by auto
  then have "stores_wf (cf_loops c') (cf_rules c') (idCounter c)"
    by (rule stores_wf_rules [OF stores_wf_loops [OF old st(3,5)] st(4,6)])
  with assms show ?thesis
    by (simp add: c'_def config_wf_def updateDomain_fields [OF True] names_wf_def osorted_oremove osorted_oinsert
        ofind_oremove)
qed (simp add: updateDomain_def assms)

lemma addDomain_wf:
  assumes "config_wf c"
  shows "config_wf (addDomain d sd c)"
  using assms by (simp add: addDomain_def Let_def config_wf_def names_wf_def osorted_oinsert)

lemma deleteLoop_id_wf:
  assumes "config_wf c"
  shows "config_wf (snd (deleteLoop_id i quiet c))"
proof -
  obtain l c' where d: "deleteLoop_id i True c = (l, c')" by fastforce
  have "config_wf c'" by (cases rule: deleteLoop_id_cases [OF assms d]) (simp_all add: assms)
  with d show ?thesis by (auto simp: deleteLoop_id_def Let_def split: prod.splits option.splits)
qed

lemma deleteRule_id_wf:
  assumes "config_wf c"
  shows "config_wf (snd (deleteRule_id i quiet c))"
proof -
  obtain r c' where d: "deleteRule_id i True c = (r, c')" by fastforce
  have "config_wf c'" by (cases rule: deleteRule_id_cases [OF assms d]) (simp_all add: assms)
  with d show ?thesis by (auto simp: deleteRule_id_def Let_def split: prod.splits option.splits)
qed

lemma Configuration0_wf: "config_wf Configuration0"
  by (simp add: Configuration0_def config_wf_def stores_wf_def names_wf_def table_wf_def ids_def
      InvalidId_def InvalidPriority_def osorted_def)

end
