(* ===== verification/Configuration_XML.thy ===== *)
theory Configuration_XML
  imports Program_XML Configuration_Edits
begin

text \<open>
  The configuration in its file: the functions of \<open>configuration.cpp\<close> that read the transitions file and
  the programs, and \<open>retrieveTransitionsDOM\<close>, which writes the file.  The contents of the disk are the
  parameter \<open>disk\<close>: a file that cannot be opened is \<open>None\<close>.  The warnings of the parser are not modelled.
\<close>

record 'doc disk =
  transitions_file :: "string \<Rightarrow> 'doc option"
  program_files :: "'doc option list"

section \<open>Reading\<close>

definition parse_condition :: "dnode \<Rightarrow> mrule \<times> assigned \<Rightarrow> mrule \<times> assigned" where
  "parse_condition child ma = (case ma of (m, a) \<Rightarrow> snd (addCondition (tagName child) (dom_text child) m a))"

definition parse_mrule ::
    "dnode \<Rightarrow> 'a abstract_rule_scheme \<times> assigned \<Rightarrow> 'a abstract_rule_scheme \<times> assigned" where
  "parse_mrule element ra =
     (case ra of (r, a) \<Rightarrow>
        if hasChildNodes element then
          let mrule = MRule (ar_program r) (attribute element ACTION_TAG) (attribute element DISPLAY_NAME_TAG);
              (mrule, a) = fold parse_condition (child_elements element) (mrule, a)
          in (addMRule mrule r, a)
        else (r, a))"

definition parseMRules ::
    "dnode \<Rightarrow> 'a abstract_rule_scheme \<Rightarrow> assigned \<Rightarrow> bool \<times> 'a abstract_rule_scheme \<times> assigned" where
  "parseMRules parent r a =
     (case firstChildElement RULE_MATCHING_TAG parent of
        None \<Rightarrow> (False, r, a)
      | Some root \<Rightarrow> (True, fold parse_mrule (children_named RULE_MRULE_TAG root) (r, a)))"

text \<open>The body of the loop over transition rules, which the code has once for loops and once for rules,
  with different names of the attribute for the source domain.\<close>

definition parse_trule :: "string \<Rightarrow> dnode \<Rightarrow> 'a abstract_rule_scheme \<Rightarrow> 'a abstract_rule_scheme" where
  "parse_trule from_tag element r =
     (let name = attribute element from_tag
      in if name \<noteq> [] then
           let t = TRule name;
               notify = attribute element RULE_NOTIFY_TAG;
               t = (if notify \<noteq> [] then trule_setNotify (notify = RULE_TRUE) t else t);
               prompt = attribute element RULE_PROMPT_TAG;
               t = (if prompt \<noteq> [] then trule_setPrompt (prompt = RULE_TRUE) t else t)
           in addTRule t r
         else r)"

definition parseTRulesForLoop :: "dnode \<Rightarrow> loop \<Rightarrow> bool \<times> loop" where
  "parseTRulesForLoop parent l =
     (case firstChildElement LOOP_DOMAINS_TAG parent of
        None \<Rightarrow> (False, l)
      | Some root \<Rightarrow> (True, fold (parse_trule LOOP_DOMAIN_NAME_TAG) (children_named LOOP_DOMAIN_TAG root) l))"

definition parseTRulesForRule :: "dnode \<Rightarrow> rule \<Rightarrow> bool \<times> rule" where
  "parseTRulesForRule parent r =
     (case firstChildElement RULE_TRANSITIONS_TAG parent of
        None \<Rightarrow> (False, r)
      | Some root \<Rightarrow>
          (case firstChildElement ALLOW_TAG root of
             None \<Rightarrow> (False, r)
           | Some allowed \<Rightarrow>
               (True, fold (parse_trule RULE_TRANSIT_FROM_TAG) (children_named RULE_TRANSIT_TAG allowed) r)))"

definition table_push :: "string \<Rightarrow> 'a abstract_rule_scheme \<Rightarrow> 'a table \<Rightarrow> 'a table" where
  "table_push key r m = (let (l, m) = oindex [] key m in oinsert key (l @ [r]) m)"

definition program_of :: "(string, program) omap \<Rightarrow> string \<Rightarrow> program" where
  "program_of ps appName =
     (if \<not> ocontains ps appName then unknown_program appName else ovalue Program0 ps appName)"

text \<open>The attributes \<open>notify\<close> and \<open>prompt\<close> of a rule or loop; an absent one has its default.\<close>

definition parse_flags :: "dnode \<Rightarrow> 'a abstract_rule_scheme \<Rightarrow> 'a abstract_rule_scheme" where
  "parse_flags element r =
     (let notify = attribute element RULE_NOTIFY_TAG;
          prompt = attribute element RULE_PROMPT_TAG;
          notify = (if notify = [] then RULE_DEFAULT_NOTIFY else notify);
          prompt = (if prompt = [] then RULE_DEFAULT_PROMPT else prompt)
      in r\<lparr>ar_notify := (notify = RULE_TRUE), ar_prompt := (prompt = RULE_TRUE)\<rparr>)"

definition parseLoop :: "dnode \<Rightarrow> configuration \<Rightarrow> configuration" where
  "parseLoop element c =
     (let appName = attribute element RULE_APP_NAME_TAG;
          displayName = attribute element RULE_DISPLAY_NAME_TAG;
          (tmpLoop, n) = Loop False False (program_of (programs c) appName) displayName (idCounter c);
          (ok, tmpLoop, a) = parseMRules element (parse_flags element tmpLoop) (assigned_values c);
          c = c\<lparr>idCounter := n, assigned_values := a\<rparr>
      in if \<not> ok then c
         else
           let (ok, tmpLoop) = parseTRulesForLoop element tmpLoop
           in if \<not> ok then c else c\<lparr>cf_loops := table_push appName tmpLoop (cf_loops c)\<rparr>)"

definition parseRule :: "dnode \<Rightarrow> configuration \<Rightarrow> configuration" where
  "parseRule element c =
     (let appName = attribute element RULE_APP_NAME_TAG;
          strTransitTo = attribute element RULE_TRANSIT_TO_TAG;
          displayName = attribute element RULE_DISPLAY_NAME_TAG;
          (transitTo, ds) = oindex Domain0 strTransitTo (domains c);
          c = c\<lparr>domains := ds\<rparr>
      in if domain_eq transitTo Domain0 then c
         else
           let (tmpRule, n) =
                 Rule False False (program_of (programs c) appName) transitTo displayName (idCounter c);
               (ok, tmpRule, a) = parseMRules element (parse_flags element tmpRule) (assigned_values c);
               c = c\<lparr>idCounter := n, assigned_values := a\<rparr>
           in if \<not> ok then c
              else
                let (ok, tmpRule) = parseTRulesForRule element tmpRule
                in if \<not> ok then c else c\<lparr>cf_rules := table_push appName tmpRule (cf_rules c)\<rparr>)"

text \<open>\<open>QString::toInt\<close> gives 0 for a text that is not a number.\<close>

definition toInt0 :: "framework \<Rightarrow> string \<Rightarrow> int" where
  "toInt0 F s = (case to_int F s of None \<Rightarrow> 0 | Some i \<Rightarrow> i)"

definition parseDomain :: "framework \<Rightarrow> dnode \<Rightarrow> configuration \<Rightarrow> configuration" where
  "parseDomain F element c =
     (let name = attribute element NAME_TAG;
          displayName = attribute element DISPLAY_NAME_TAG;
          iconPath = attribute element ICON_TAG;
          confidentiality = toInt0 F (dom_attribute element CONFIDENTIALITY_TAG (of_int_str F ConfidentialityDefault));
          reliability = toInt0 F (dom_attribute element RELIABILITY_TAG (of_int_str F ReliabilityDefault));
          description = (case firstChildElement DESCRIPTION_TAG element of None \<Rightarrow> [] | Some child \<Rightarrow> dom_text child)
      in if name \<noteq> [] \<and> \<not> ocontains (domains c) name then
           let d = Domain name displayName iconPath description confidentiality reliability;
               c = c\<lparr>domains := oinsert name d (domains c)\<rparr>
           in if dom_attribute element DEFAULT_TAG RULE_FALSE = RULE_TRUE then c\<lparr>default_domain := d\<rparr> else c
         else c)"

definition parseNoKillProgram :: "framework \<Rightarrow> dnode \<Rightarrow> configuration \<Rightarrow> configuration" where
  "parseNoKillProgram F element c =
     (let path = attribute element FULLPATH_TAG
      in if path = [] then c
         else if is_absolute F path then c\<lparr>no_kill_programs := no_kill_programs c @ [path]\<rparr>
         else c)"

definition parse_element :: "dnode \<Rightarrow> configuration \<Rightarrow> configuration" where
  "parse_element element c =
     (if tagName element = LOOP_TAG then parseLoop element c
      else if tagName element = RULE_TAG then parseRule element c
      else c)"

definition parse_transitions :: "framework \<Rightarrow> dnode \<Rightarrow> configuration \<Rightarrow> configuration" where
  "parse_transitions F root c =
     (let c = fold (parseDomain F) (children_named DOMAIN_TAG root) c;
          c = (case firstChildElement NOKILL_ROOT_TAG root of
                 None \<Rightarrow> c
               | Some e \<Rightarrow> fold (parseNoKillProgram F) (children_named NOKILL_PROGRAM_TAG e) c)
      in fold parse_element (child_elements root) c)"

definition parseTransitionsFile ::
    "framework \<Rightarrow> 'doc xml \<Rightarrow> 'doc disk \<Rightarrow> string \<Rightarrow> configuration \<Rightarrow> configuration" where
  "parseTransitionsFile F X disk path c =
     (if path = [] then c
      else case transitions_file disk path of
        None \<Rightarrow> c
      | Some doc \<Rightarrow>
          (case of_text X doc of
             None \<Rightarrow> c
           | Some root \<Rightarrow> if tagName root \<noteq> TRANSITIONS_XML_ROOT then c else parse_transitions F root c))"

definition put_program :: "program \<Rightarrow> configuration \<Rightarrow> configuration" where
  "put_program p c = c\<lparr>programs := oinsert (app_name p) p (programs c)\<rparr>"

definition parse_program_file :: "framework \<Rightarrow> 'doc xml \<Rightarrow> 'doc option \<Rightarrow> configuration \<Rightarrow> configuration" where
  "parse_program_file F X file1 c =
     (let p = Program_file F X file1
      in if program_isValid F p \<and> \<not> ocontains (programs c) (app_name p)
         then put_program p c else c)"

definition parsePrograms :: "framework \<Rightarrow> 'doc xml \<Rightarrow> 'doc disk \<Rightarrow> configuration \<Rightarrow> configuration" where
  "parsePrograms F X disk c = fold (parse_program_file F X) (program_files disk) c"

definition readConf :: "framework \<Rightarrow> 'doc xml \<Rightarrow> 'doc disk \<Rightarrow> string \<Rightarrow> configuration \<Rightarrow> configuration" where
  "readConf F X disk path c =
     parseTransitionsFile F X disk path
       (c\<lparr>cf_rules := [], cf_loops := [], domains := [], no_kill_programs := []\<rparr>)"

text \<open>The constructor; the counter and the table of assigned values are shared by all objects.\<close>

definition Configuration ::
    "framework \<Rightarrow> 'doc xml \<Rightarrow> 'doc disk \<Rightarrow> string \<Rightarrow> bool \<Rightarrow> program list \<Rightarrow> int \<Rightarrow> assigned \<Rightarrow> configuration" where
  "Configuration F X disk path parse_programs ps n a =
     (let c = Configuration0\<lparr>idCounter := n, assigned_values := a\<rparr>;
          c = fold put_program ps c;
          c = (if parse_programs then parsePrograms F X disk c else c)
      in readConf F X disk path c)"

definition updateRules ::
    "framework \<Rightarrow> 'doc xml \<Rightarrow> 'doc disk \<Rightarrow> string \<Rightarrow> bool \<Rightarrow> configuration \<Rightarrow> configuration" where
  "updateRules F X disk path parse_programs c =
     (let c = c\<lparr>programs := []\<rparr>;
          c = (if parse_programs then parsePrograms F X disk c else c)
      in emit ConfigurationChanged (readConf F X disk path c))"

text \<open>The assignment operator, which also is the copy constructor; the class-wide state and the signals
  sent stay.\<close>

definition config_assign :: "configuration \<Rightarrow> configuration \<Rightarrow> configuration" where
  "config_assign other c =
     c\<lparr>cf_rules := cf_rules other, cf_loops := cf_loops other, domains := domains other,
       default_domain := default_domain other, programs := programs other,
       no_kill_programs := no_kill_programs other\<rparr>"

section \<open>Writing\<close>

definition domain_elem :: "framework \<Rightarrow> domain \<Rightarrow> domain \<Rightarrow> dnode" where
  "domain_elem F default_dom d =
     Element DOMAIN_TAG
       ([(ICON_TAG, dom_icon_path d), (DISPLAY_NAME_TAG, dom_display_name d), (NAME_TAG, dom_name d),
         (CONFIDENTIALITY_TAG, of_int_str F (dom_confidentiality d)),
         (RELIABILITY_TAG, of_int_str F (dom_reliability d))] @
        (if domain_eq default_dom d then [(DEFAULT_TAG, RULE_TRUE)] else []))
       [Element DESCRIPTION_TAG [] [TextNode (dom_description d)]]"

definition nokill_elem :: "string \<Rightarrow> dnode" where
  "nokill_elem path = Element NOKILL_PROGRAM_TAG [(FULLPATH_TAG, path)] []"

definition condition_elem :: "string \<times> string \<Rightarrow> dnode" where
  "condition_elem cond = Element (fst cond) [] [TextNode (snd cond)]"

definition mrule_elem :: "mrule \<Rightarrow> dnode" where
  "mrule_elem m =
     Element RULE_MRULE_TAG [(ACTION_TAG, mr_action m), (DISPLAY_NAME_TAG, mr_display_name m)]
       (map condition_elem (conditions m))"

text \<open>Both branches of the conditional expressions for \<open>notify\<close> and \<open>prompt\<close> are \<open>RULE_TRUE\<close> in the code.\<close>

definition trule_elem :: "string \<Rightarrow> string \<Rightarrow> trule \<Rightarrow> dnode" where
  "trule_elem tag from_tag t =
     Element tag
       ([(from_tag, from_domain t)] @
        (if has_notify t then [(RULE_NOTIFY_TAG, if tr_notify t then RULE_TRUE else RULE_TRUE)] else []) @
        (if has_prompt t then [(RULE_PROMPT_TAG, if tr_prompt t then RULE_TRUE else RULE_TRUE)] else [])) []"

definition rule_attributes :: "'a abstract_rule_scheme \<Rightarrow> (string \<times> string) list" where
  "rule_attributes r =
     [(DISPLAY_NAME_TAG, ar_display_name r), (RULE_PROMPT_TAG, if ar_prompt r then RULE_TRUE else RULE_FALSE),
      (RULE_NOTIFY_TAG, if ar_notify r then RULE_TRUE else RULE_FALSE), (RULE_APP_NAME_TAG, app_name (ar_program r))]"

definition matching_elem :: "'a abstract_rule_scheme \<Rightarrow> dnode" where
  "matching_elem r = Element RULE_MATCHING_TAG [] (map mrule_elem (mrules r))"

fun arule_elem :: "arule \<Rightarrow> dnode" where
  "arule_elem (ALoop l) =
     Element LOOP_TAG (rule_attributes l)
       [matching_elem l,
        Element LOOP_DOMAINS_TAG [] (map (trule_elem LOOP_DOMAIN_TAG LOOP_DOMAIN_NAME_TAG) (trules l))]"
| "arule_elem (ARule r) =
     Element RULE_TAG (rule_attributes r @ [(RULE_TRANSIT_TO_TAG, dom_name (transit_to r))])
       [matching_elem r,
        Element RULE_TRANSITIONS_TAG []
          [Element ALLOW_TAG [] (map (trule_elem RULE_TRANSIT_TAG RULE_TRANSIT_FROM_TAG) (trules r))]]"

definition transitions_dom :: "framework \<Rightarrow> configuration \<Rightarrow> dnode" where
  "transitions_dom F c =
     Element TRANSITIONS_XML_ROOT []
       (map (domain_elem F (default_domain c)) (ovals (domains c)) @
        [Element NOKILL_ROOT_TAG [] (map nokill_elem (no_kill_programs c))] @
        map arule_elem (allAbstractRules True c))"

definition retrieveTransitionsDOM :: "framework \<Rightarrow> 'doc xml \<Rightarrow> configuration \<Rightarrow> 'doc" where
  "retrieveTransitionsDOM F X c = to_text X (transitions_dom F c)"

section \<open>What reading changes\<close>

lemma addMRule_addTRule_fields [simp]:
  "addMRule m r = r\<lparr>mrules := mrules r @ [m]\<rparr>" "addTRule t r = r\<lparr>trules := trules r @ [t]\<rparr>"
  by (simp_all add: addMRule_def addTRule_def)

lemma parse_mrules_effect: "\<exists>ms b. fold parse_mrule es (r, a) = (r\<lparr>mrules := ms\<rparr>, b)"
proof (induction es arbitrary: r a)
  case Nil
  show ?case by (rule exI [of _ "mrules r"]) simp
next
  case (Cons e es)
  obtain ms b where "parse_mrule e (r, a) = (r\<lparr>mrules := ms\<rparr>, b)"
    by (cases "hasChildNodes e")
      (auto simp: parse_mrule_def Let_def case_prod_beta intro: that [of "mrules r" a])
  with Cons [of "r\<lparr>mrules := ms\<rparr>" b] show ?case by auto
qed

lemma parseMRules_effect: "\<exists>ok ms b. parseMRules e r a = (ok, r\<lparr>mrules := ms\<rparr>, b)"
proof (cases "firstChildElement RULE_MATCHING_TAG e")
  case None
  then show ?thesis by (auto simp: parseMRules_def intro: exI [of _ "mrules r"])
next
  case (Some root)
  with parse_mrules_effect [of "children_named RULE_MRULE_TAG root" r a] show ?thesis
    by (auto simp: parseMRules_def)
qed

lemma parse_trules_effect: "\<exists>ts. fold (parse_trule tag) es r = r\<lparr>trules := ts\<rparr>"
proof (induction es arbitrary: r)
  case Nil
  show ?case by (rule exI [of _ "trules r"]) simp
next
  case (Cons e es)
  have "\<exists>ts. parse_trule tag e r = r\<lparr>trules := ts\<rparr>"
    by (cases "attribute e tag = []") (auto simp: parse_trule_def Let_def intro: exI [of _ "trules r"])
  then obtain ts where "parse_trule tag e r = r\<lparr>trules := ts\<rparr>" by blast
  with Cons [of "r\<lparr>trules := ts\<rparr>"] show ?case by auto
qed

lemma trules_same: "\<exists>ts. r = r\<lparr>trules := ts\<rparr>"
  by (rule exI [of _ "trules r"]) simp

lemma parseTRules_effect:
  "\<exists>ts. snd (parseTRulesForLoop e l) = l\<lparr>trules := ts\<rparr>"
  "\<exists>ts. snd (parseTRulesForRule e r) = r\<lparr>trules := ts\<rparr>"
  by (simp_all add: parseTRulesForLoop_def parseTRulesForRule_def trules_same parse_trules_effect split: option.split)

text \<open>What a loop or rule element does to the configuration: it may add one loop or rule, made with the
  next identifier, under the name of its program.\<close>

lemma parseLoop_effect:
  obtains L b where "parseLoop e c = c\<lparr>idCounter := idCounter c + 1, assigned_values := b, cf_loops := L\<rparr>"
    "L = cf_loops c \<or>
     (\<exists>l. L = table_push (attribute e RULE_APP_NAME_TAG) l (cf_loops c) \<and> ar_id l = idCounter c + 1 \<and>
        ar_priority l = idCounter c + 1 \<and> ar_program l = program_of (programs c) (attribute e RULE_APP_NAME_TAG))"
proof -
  define l0 where "l0 = parse_flags e (fst (Loop False False (program_of (programs c) (attribute e RULE_APP_NAME_TAG))
      (attribute e RULE_DISPLAY_NAME_TAG) (idCounter c)))"
  have l0: "ar_id l0 = idCounter c + 1" "ar_priority l0 = idCounter c + 1"
    "ar_program l0 = program_of (programs c) (attribute e RULE_APP_NAME_TAG)"
    by (simp_all add: l0_def parse_flags_def Loop_def Let_def)
  obtain ok ms b where m: "parseMRules e l0 (assigned_values c) = (ok, l0\<lparr>mrules := ms\<rparr>, b)"
    using parseMRules_effect by blast
  obtain ok2 ts where t: "parseTRulesForLoop e (l0\<lparr>mrules := ms\<rparr>) = (ok2, l0\<lparr>mrules := ms, trules := ts\<rparr>)"
    using parseTRules_effect(1) [of e "l0\<lparr>mrules := ms\<rparr>"] prod.collapse by metis
  define L where "L = (if ok \<and> ok2 then table_push (attribute e RULE_APP_NAME_TAG) (l0\<lparr>mrules := ms, trules := ts\<rparr>) (cf_loops c)
      else cf_loops c)"
  have "parseLoop e c = c\<lparr>idCounter := idCounter c + 1, assigned_values := b, cf_loops := L\<rparr>"
    using m t unfolding parseLoop_def L_def l0_def by (simp add: Loop_def Let_def)
  then show thesis
    by (rule that) (use l0 in \<open>auto simp: L_def\<close>)
qed

lemma parseRule_effect:
  obtains R b n where "parseRule e c = c\<lparr>idCounter := n, assigned_values := b, cf_rules := R,
      domains := snd (oindex Domain0 (attribute e RULE_TRANSIT_TO_TAG) (domains c))\<rparr>"
    "n = idCounter c \<or> n = idCounter c + 1"
    "R = cf_rules c \<or>
     (\<exists>r. R = table_push (attribute e RULE_APP_NAME_TAG) r (cf_rules c) \<and> ar_id r = idCounter c + 1 \<and>
        n = idCounter c + 1 \<and> ar_priority r = idCounter c + 1 \<and>
        ar_program r = program_of (programs c) (attribute e RULE_APP_NAME_TAG) \<and>
        transit_to r = ovalue Domain0 (domains c) (attribute e RULE_TRANSIT_TO_TAG) \<and> transit_to r \<noteq> Domain0)"
proof (cases "ovalue Domain0 (domains c) (attribute e RULE_TRANSIT_TO_TAG) = Domain0")
  case True
  let ?ds = "snd (oindex Domain0 (attribute e RULE_TRANSIT_TO_TAG) (domains c))"
  have "parseRule e c = c\<lparr>domains := ?ds\<rparr>"
    using True by (simp add: parseRule_def Let_def case_prod_beta oindex_value)
  then have "parseRule e c = c\<lparr>idCounter := idCounter c, assigned_values := assigned_values c, cf_rules := cf_rules c, domains := ?ds\<rparr>"
    by simp
  then show thesis by (rule that) simp_all
next
  case False
  let ?ds = "snd (oindex Domain0 (attribute e RULE_TRANSIT_TO_TAG) (domains c))"
  define r0 where "r0 = parse_flags e (fst (Rule False False (program_of (programs c) (attribute e RULE_APP_NAME_TAG))
      (ovalue Domain0 (domains c) (attribute e RULE_TRANSIT_TO_TAG)) (attribute e RULE_DISPLAY_NAME_TAG) (idCounter c)))"
  have r0: "ar_id r0 = idCounter c + 1" "ar_priority r0 = idCounter c + 1"
    "ar_program r0 = program_of (programs c) (attribute e RULE_APP_NAME_TAG)"
    "transit_to r0 = ovalue Domain0 (domains c) (attribute e RULE_TRANSIT_TO_TAG)"
    by (simp_all add: r0_def parse_flags_def Rule_def Let_def)
  obtain ok ms b where m: "parseMRules e r0 (assigned_values c) = (ok, r0\<lparr>mrules := ms\<rparr>, b)"
    using parseMRules_effect by blast
  obtain ok2 ts where t: "parseTRulesForRule e (r0\<lparr>mrules := ms\<rparr>) = (ok2, r0\<lparr>mrules := ms, trules := ts\<rparr>)"
    using parseTRules_effect(2) [of e "r0\<lparr>mrules := ms\<rparr>"] prod.collapse by metis
  define R where "R = (if ok \<and> ok2 then table_push (attribute e RULE_APP_NAME_TAG) (r0\<lparr>mrules := ms, trules := ts\<rparr>) (cf_rules c)
      else cf_rules c)"
  have "parseRule e c = c\<lparr>idCounter := idCounter c + 1, assigned_values := b, cf_rules := R, domains := ?ds\<rparr>"
    using m t False unfolding parseRule_def R_def r0_def
    by (simp add: Rule_def Let_def case_prod_beta oindex_value)
  then show thesis
    by (rule that) (use r0 False in \<open>auto simp: R_def\<close>)
qed

section \<open>What was read is well-formed\<close>

text \<open>Rules come out of the file in the order of their new identifiers, so appending one is inserting it
  by priority.\<close>

lemma insert_prio_last: "\<forall>x \<in> set l. ar_priority x \<le> ar_priority r \<Longrightarrow> insert_prio r l = l @ [r]"
  by (induction l) auto

lemma table_push_add:
  assumes "rule_key r = key" "table_wf m" "\<forall>x \<in> set (table_all m). ar_priority x \<le> ar_priority r"
  shows "table_push key r m = table_add r m"
proof -
  have "set (ovalue [] m key) \<subseteq> set (table_all m)"
    using in_table_all [OF assms(2)] table_wf_values(1) [OF assms(2)] by auto
  then have "insert_prio r (ovalue [] m key) = ovalue [] m key @ [r]"
    using assms(3) by (intro insert_prio_last) blast
  with assms(1) show ?thesis
    by (simp add: table_push_def table_add_def Let_def case_prod_beta oindex_value)
qed

definition low_priorities :: "'a table \<Rightarrow> int \<Rightarrow> bool" where
  "low_priorities m n = (\<forall>x \<in> set (table_all m). ar_priority x \<le> n)"

definition read_wf :: "configuration \<Rightarrow> bool" where
  "read_wf c = (config_wf c \<and> low_priorities (cf_loops c) (idCounter c) \<and> low_priorities (cf_rules c) (idCounter c))"

lemma program_of_name:
  assumes "names_wf D P"
  shows "app_name (program_of P name) = name"
  using assms
  by (auto simp: program_of_def unknown_program_def Program_def names_wf_def ocontains_def ovalue_def)

lemma low_priorities_mono: "low_priorities m n \<Longrightarrow> n \<le> n' \<Longrightarrow> low_priorities m n'"
  by (auto simp: low_priorities_def)

lemma low_priorities_push:
  assumes "table_wf m" "low_priorities m n" "rule_key r = key" "ar_priority r = n + 1"
  shows "table_push key r m = table_add r m" "low_priorities (table_add r m) (n + 1)"
proof -
  have le: "\<forall>x \<in> set (table_all m). ar_priority x \<le> ar_priority r"
    using assms(2,4) by (auto simp: low_priorities_def)
  show "table_push key r m = table_add r m" using assms(3,1) le by (rule table_push_add)
  show "low_priorities (table_add r m) (n + 1)"
    using le assms(4) by (auto simp: low_priorities_def set_table_add [OF assms(1)])
qed

lemma stores_wf_ids: "stores_wf L R n \<Longrightarrow> i \<in> ids L \<union> ids R \<Longrightarrow> InvalidId < i \<and> i \<le> n"
  unfolding stores_wf_def by blast

lemma stores_wf_counter:
  assumes "stores_wf L R n"
  shows "stores_wf L R (n + 1)"
proof -
  have "\<forall>i \<in> ids L \<union> ids R. InvalidId < i \<and> i \<le> n + 1"
    using stores_wf_ids [OF assms] by fastforce
  with assms show ?thesis unfolding stores_wf_def by blast
qed

lemma stores_wf_fresh:
  assumes "stores_wf L R n"
  shows "n + 1 \<notin> ids L \<and> n + 1 \<notin> ids R"
  using stores_wf_ids [OF assms, of "n + 1"] by auto

lemma stores_wf_add:
  assumes "stores_wf L R n" "InvalidId \<le> n"
  shows "ar_id l = n + 1 \<Longrightarrow> stores_wf (table_add l L) R (n + 1)"
    and "ar_id r = n + 1 \<Longrightarrow> transit_to r \<noteq> Domain0 \<Longrightarrow> stores_wf L (table_add r R) (n + 1)"
proof -
  have wf: "table_wf L" "table_wf R" using assms(1) by (simp_all add: stores_wf_def)
  note fresh = stores_wf_fresh [OF assms(1)]
  note st = stores_wf_counter [OF assms(1)]
  show "stores_wf (table_add l L) R (n + 1)" if "ar_id l = n + 1"
    using st that fresh assms(2) wf
    by (simp add: stores_wf_def ids_def set_table_add table_add_wf)
  show "stores_wf L (table_add r R) (n + 1)" if "ar_id r = n + 1" "transit_to r \<noteq> Domain0"
    using st that fresh assms(2) wf
    by (simp add: stores_wf_def ids_def set_table_add table_add_wf)
qed

lemma parseLoop_wf:
  assumes "read_wf c"
  shows "read_wf (parseLoop e c)"
proof -
  obtain L b where e: "parseLoop e c = c\<lparr>idCounter := idCounter c + 1, assigned_values := b, cf_loops := L\<rparr>"
    and L: "L = cf_loops c \<or>
     (\<exists>l. L = table_push (attribute e RULE_APP_NAME_TAG) l (cf_loops c) \<and> ar_id l = idCounter c + 1 \<and>
        ar_priority l = idCounter c + 1 \<and> ar_program l = program_of (programs c) (attribute e RULE_APP_NAME_TAG))"
    using parseLoop_effect [of e c] by blast
  have st: "stores_wf (cf_loops c) (cf_rules c) (idCounter c)" "InvalidId \<le> idCounter c"
    "names_wf (domains c) (programs c)" "low_priorities (cf_loops c) (idCounter c)"
    "low_priorities (cf_rules c) (idCounter c)" "table_wf (cf_loops c)"
    using assms by (simp_all add: read_wf_def config_wf_def stores_wf_def)
  have "stores_wf L (cf_rules c) (idCounter c + 1) \<and> low_priorities L (idCounter c + 1)"
    using L
  proof
    assume "L = cf_loops c"
    then show ?thesis using stores_wf_counter [OF st(1)] low_priorities_mono [OF st(4)] by simp
  next
    assume "\<exists>l. L = table_push (attribute e RULE_APP_NAME_TAG) l (cf_loops c) \<and> ar_id l = idCounter c + 1 \<and>
        ar_priority l = idCounter c + 1 \<and> ar_program l = program_of (programs c) (attribute e RULE_APP_NAME_TAG)"
    then obtain l where l: "L = table_push (attribute e RULE_APP_NAME_TAG) l (cf_loops c)" "ar_id l = idCounter c + 1"
        "ar_priority l = idCounter c + 1" "ar_program l = program_of (programs c) (attribute e RULE_APP_NAME_TAG)"
      by blast
    have "rule_key l = attribute e RULE_APP_NAME_TAG"
      using program_of_name [OF st(3)] l(4) by (simp add: rule_key_def)
    from low_priorities_push [OF st(6,4) this l(3)] stores_wf_add(1) [OF st(1,2) l(2)]
    show ?thesis by (simp add: l(1))
  qed
  then show ?thesis
    using st low_priorities_mono [OF st(5)] by (simp add: read_wf_def config_wf_def e)
qed

lemma parseRule_wf:
  assumes "read_wf c" "ocontains (domains c) (attribute e RULE_TRANSIT_TO_TAG)"
  shows "read_wf (parseRule e c)"
proof -
  let ?new = "\<lambda>r R n. R = table_push (attribute e RULE_APP_NAME_TAG) r (cf_rules c) \<and> ar_id r = idCounter c + 1 \<and>
        n = idCounter c + 1 \<and> ar_priority r = idCounter c + 1 \<and>
        ar_program r = program_of (programs c) (attribute e RULE_APP_NAME_TAG) \<and>
        transit_to r = ovalue Domain0 (domains c) (attribute e RULE_TRANSIT_TO_TAG) \<and> transit_to r \<noteq> Domain0"
  obtain R b n where e: "parseRule e c = c\<lparr>idCounter := n, assigned_values := b, cf_rules := R,
      domains := snd (oindex Domain0 (attribute e RULE_TRANSIT_TO_TAG) (domains c))\<rparr>"
    and n: "n = idCounter c \<or> n = idCounter c + 1" and R: "R = cf_rules c \<or> (\<exists>r. ?new r R n)"
    using parseRule_effect [of e c] by blast
  have st: "stores_wf (cf_loops c) (cf_rules c) (idCounter c)" "InvalidId \<le> idCounter c"
    "names_wf (domains c) (programs c)" "low_priorities (cf_loops c) (idCounter c)"
    "low_priorities (cf_rules c) (idCounter c)" "table_wf (cf_rules c)"
    using assms by (simp_all add: read_wf_def config_wf_def stores_wf_def)
  have "stores_wf (cf_loops c) R n \<and> low_priorities R n"
    using R
  proof
    assume "R = cf_rules c"
    then show ?thesis using n st stores_wf_counter [OF st(1)] low_priorities_mono [OF st(5)] by auto
  next
    assume "\<exists>r. ?new r R n"
    then obtain r where r: "?new r R n" by blast
    have "rule_key r = attribute e RULE_APP_NAME_TAG"
      using program_of_name [OF st(3)] r by (simp add: rule_key_def)
    from low_priorities_push [OF st(6,5) this] stores_wf_add(2) [OF st(1,2), of r] r
    show ?thesis by metis
  qed
  moreover have "low_priorities (cf_loops c) n" using st(4) n low_priorities_mono [OF st(4)] by auto
  ultimately show ?thesis
    using st n by (auto simp: read_wf_def config_wf_def e oindex_present [OF assms(2)])
qed

section \<open>The domains of a file\<close>

lemma parseDomain_domains:
  obtains d dd where "parseDomain F e c =
      (if attribute e NAME_TAG \<noteq> [] \<and> \<not> ocontains (domains c) (attribute e NAME_TAG)
       then c\<lparr>domains := oinsert (attribute e NAME_TAG) d (domains c), default_domain := dd\<rparr> else c)"
    "dom_name d = attribute e NAME_TAG"
proof -
  define d where "d = Domain (attribute e NAME_TAG) (attribute e DISPLAY_NAME_TAG) (attribute e ICON_TAG)
      (case firstChildElement DESCRIPTION_TAG e of None \<Rightarrow> [] | Some child \<Rightarrow> dom_text child)
      (toInt0 F (dom_attribute e CONFIDENTIALITY_TAG (of_int_str F ConfidentialityDefault)))
      (toInt0 F (dom_attribute e RELIABILITY_TAG (of_int_str F ReliabilityDefault)))"
  have "parseDomain F e c =
      (if attribute e NAME_TAG \<noteq> [] \<and> \<not> ocontains (domains c) (attribute e NAME_TAG)
       then c\<lparr>domains := oinsert (attribute e NAME_TAG) d (domains c),
              default_domain := (if dom_attribute e DEFAULT_TAG RULE_FALSE = RULE_TRUE then d else default_domain c)\<rparr> else c)"
    by (simp add: parseDomain_def Let_def d_def)
  then show thesis by (rule that) (simp add: d_def Domain_def)
qed

lemma parseDomain_keys:
  "set (okeys (domains (parseDomain F e c))) = set (okeys (domains c)) \<union> ({attribute e NAME_TAG} - {[]})"
  by (rule parseDomain_domains [of F e c]) (auto simp: okeys_oinsert in_okeys_iff)

lemma parseDomains_keys:
  "set (okeys (domains (fold (parseDomain F) es c))) =
     set (okeys (domains c)) \<union> ((\<lambda>e. attribute e NAME_TAG) ` set es - {[]})"
  by (induction es arbitrary: c) (auto simp: parseDomain_keys)

lemma parseNoKill_effect: "\<exists>ps. fold (parseNoKillProgram F) es c = c\<lparr>no_kill_programs := ps\<rparr>"
proof (induction es arbitrary: c)
  case Nil
  show ?case by (rule exI [of _ "no_kill_programs c"]) simp
next
  case (Cons e es)
  have "\<exists>ps. parseNoKillProgram F e c = c\<lparr>no_kill_programs := ps\<rparr>"
    unfolding parseNoKillProgram_def Let_def
    by (cases "attribute e FULLPATH_TAG = [] \<or> \<not> is_absolute F (attribute e FULLPATH_TAG)")
      (auto intro: exI [of _ "no_kill_programs c"])
  then obtain ps where "parseNoKillProgram F e c = c\<lparr>no_kill_programs := ps\<rparr>" by blast
  with Cons [of "c\<lparr>no_kill_programs := ps\<rparr>"] show ?case by auto
qed

text \<open>The names of the target domains of rules.\<close>

definition target_names :: "dnode list \<Rightarrow> string set" where
  "target_names es = (\<lambda>e. attribute e RULE_TRANSIT_TO_TAG) ` set (filter (\<lambda>e. tagName e = RULE_TAG) es)"

lemma target_names_Cons:
  "target_names (e # es) =
     (if tagName e = RULE_TAG then insert (attribute e RULE_TRANSIT_TO_TAG) (target_names es) else target_names es)"
  by (auto simp: target_names_def)

lemma parse_element_domains:
  "domains (parse_element e c) =
     (if tagName e = RULE_TAG then snd (oindex Domain0 (attribute e RULE_TRANSIT_TO_TAG) (domains c)) else domains c)"
  by (rule parseLoop_effect [of e c]; rule parseRule_effect [of e c]) (simp add: parse_element_def)

lemma parse_elements_domains:
  "ofind (domains (fold parse_element es c)) name =
     (case ofind (domains c) name of
        Some d \<Rightarrow> Some d
      | None \<Rightarrow> if name \<in> target_names es then Some Domain0 else None)"
proof (induction es arbitrary: c)
  case Nil
  show ?case by (simp add: target_names_def split: option.split)
next
  case (Cons e es)
  show ?case
    by (simp add: Cons parse_element_domains target_names_Cons ofind_oindex ovalue_def split: option.split)
qed

definition declared :: "dnode \<Rightarrow> string set" where
  "declared root = (\<lambda>e. attribute e NAME_TAG) ` set (children_named DOMAIN_TAG root) - {[]}"

lemma parse_domains_root:
  obtains ps where "(case firstChildElement NOKILL_ROOT_TAG root of None \<Rightarrow> c
      | Some e \<Rightarrow> fold (parseNoKillProgram F) (children_named NOKILL_PROGRAM_TAG e) c) = c\<lparr>no_kill_programs := ps\<rparr>"
proof (cases "firstChildElement NOKILL_ROOT_TAG root")
  case None
  then show thesis using that [of "no_kill_programs c"] by simp
next
  case (Some e)
  with parseNoKill_effect [of F "children_named NOKILL_PROGRAM_TAG e" c] that show thesis by auto
qed

lemma parse_transitions_eq:
  obtains ps where "parse_transitions F root c =
    fold parse_element (child_elements root) (fold (parseDomain F) (children_named DOMAIN_TAG root) c\<lparr>no_kill_programs := ps\<rparr>)"
  by (rule parse_domains_root [where root = root and F = F and
        c = "fold (parseDomain F) (children_named DOMAIN_TAG root) c"], rule that)
    (simp add: parse_transitions_def Let_def)

lemma parse_transitions_domains:
  assumes "domains c = []"
  shows "set (domainNameList (parse_transitions F root c)) = declared root \<union> target_names (child_elements root)"
    "name \<in> target_names (child_elements root) - declared root \<Longrightarrow>
       getDomainByName (parse_transitions F root c) name = Domain0"
proof -
  obtain ps where eq: "parse_transitions F root c =
    fold parse_element (child_elements root) (fold (parseDomain F) (children_named DOMAIN_TAG root) c\<lparr>no_kill_programs := ps\<rparr>)"
    by (rule parse_transitions_eq)
  let ?c = "fold (parseDomain F) (children_named DOMAIN_TAG root) c"
  have keys: "set (okeys (domains ?c)) = declared root"
    using assms by (simp add: parseDomains_keys declared_def)
  have look: "ofind (domains (parse_transitions F root c)) name =
      (case ofind (domains ?c) name of Some d \<Rightarrow> Some d
       | None \<Rightarrow> if name \<in> target_names (child_elements root) then Some Domain0 else None)" for name
    by (simp add: eq parse_elements_domains)
  have known: "name \<in> declared root \<longleftrightarrow> (\<exists>d. ofind (domains ?c) name = Some d)" for name
    by (simp add: keys [symmetric] set_okeys domIff)
  show "set (domainNameList (parse_transitions F root c)) = declared root \<union> target_names (child_elements root)"
    by (auto simp: domainNameList_def set_okeys dom_def look known split: option.split)
  show "getDomainByName (parse_transitions F root c) name = Domain0"
    if "name \<in> target_names (child_elements root) - declared root"
    using that known [of name] by (auto simp: getDomainByName_def ovalue_def look split: option.split)
qed

lemma parseDomain_wf:
  assumes "read_wf c"
  shows "read_wf (parseDomain F e c)"
proof -
  obtain d dd where "parseDomain F e c =
      (if attribute e NAME_TAG \<noteq> [] \<and> \<not> ocontains (domains c) (attribute e NAME_TAG)
       then c\<lparr>domains := oinsert (attribute e NAME_TAG) d (domains c), default_domain := dd\<rparr> else c)"
    "dom_name d = attribute e NAME_TAG"
    by (rule parseDomain_domains)
  with assms show ?thesis
    by (simp add: read_wf_def config_wf_def names_wf_def osorted_oinsert)
qed

lemma parse_element_wf:
  assumes "read_wf c" "tagName e = RULE_TAG \<Longrightarrow> ocontains (domains c) (attribute e RULE_TRANSIT_TO_TAG)"
  shows "read_wf (parse_element e c)"
  using assms parseLoop_wf parseRule_wf by (auto simp: parse_element_def)

lemma parse_elements_wf:
  assumes "read_wf c" "target_names es \<subseteq> set (okeys (domains c))"
  shows "read_wf (fold parse_element es c)"
  using assms
proof (induction es arbitrary: c)
  case (Cons e es)
  have "read_wf (parse_element e c)"
    using Cons.prems by (intro parse_element_wf) (auto simp: target_names_Cons in_okeys_iff)
  moreover have "set (okeys (domains c)) \<subseteq> set (okeys (domains (parse_element e c)))"
    by (auto simp: parse_element_domains set_okeys ofind_oindex)
  moreover have "target_names es \<subseteq> set (okeys (domains c))"
    using Cons.prems(2) by (auto simp: target_names_Cons split: if_splits)
  ultimately have "read_wf (fold parse_element es (parse_element e c))" by (intro Cons.IH) auto
  then show ?case by simp
qed simp

text \<open>A file in which every rule leads to a domain the file declares.\<close>

definition targets_declared :: "dnode \<Rightarrow> bool" where
  "targets_declared root = (\<forall>name \<in> target_names (child_elements root). name \<in> declared root)"

lemma parse_transitions_wf:
  assumes "read_wf c" "domains c = []" "targets_declared root"
  shows "read_wf (parse_transitions F root c)"
proof -
  let ?c = "fold (parseDomain F) (children_named DOMAIN_TAG root) c"
  obtain ps where eq: "parse_transitions F root c =
    fold parse_element (child_elements root) (?c\<lparr>no_kill_programs := ps\<rparr>)"
    by (rule parse_transitions_eq)
  have "read_wf (fold (parseDomain F) es c)" for es
    using assms(1) by (induction es arbitrary: c) (simp_all add: parseDomain_wf)
  then have "read_wf (?c\<lparr>no_kill_programs := ps\<rparr>)"
    by (simp add: read_wf_def config_wf_def)
  moreover have "target_names (child_elements root) \<subseteq> set (okeys (domains ?c))"
    using assms(2,3) by (auto simp: parseDomains_keys targets_declared_def declared_def)
  ultimately show ?thesis unfolding eq by (intro parse_elements_wf) simp_all
qed

lemma put_program_wf:
  assumes "read_wf c"
  shows "read_wf (put_program p c)"
  using assms by (simp add: put_program_def read_wf_def config_wf_def names_wf_def osorted_oinsert)

lemma put_programs_wf: "read_wf c \<Longrightarrow> read_wf (fold put_program ps c)"
  by (induction ps arbitrary: c) (simp_all add: put_program_wf)

lemma parse_program_file_wf: "read_wf c \<Longrightarrow> read_wf (parse_program_file F X f c)"
  by (simp add: parse_program_file_def Let_def put_program_wf)

lemma parsePrograms_wf: "read_wf c \<Longrightarrow> read_wf (parsePrograms F X disk c)"
  using fold_invariant [of "program_files disk" "\<lambda>_. True" read_wf c "parse_program_file F X"]
  by (simp add: parsePrograms_def parse_program_file_wf)

definition file_declares_targets :: "'doc xml \<Rightarrow> 'doc disk \<Rightarrow> string \<Rightarrow> bool" where
  "file_declares_targets X disk path =
     (case transitions_file disk path of
        None \<Rightarrow> True
      | Some doc \<Rightarrow> (case of_text X doc of None \<Rightarrow> True | Some root \<Rightarrow> targets_declared root))"

lemma readConf_wf:
  assumes "InvalidId \<le> idCounter c" "names_wf D (programs c)" "file_declares_targets X disk path"
  shows "read_wf (readConf F X disk path c)"
proof -
  let ?c = "c\<lparr>cf_rules := [], cf_loops := [], domains := [], no_kill_programs := []\<rparr>"
  have "read_wf ?c"
    using assms(1,2)
    by (simp add: read_wf_def config_wf_def stores_wf_def names_wf_def table_wf_def ids_def low_priorities_def)
  with assms(3) parse_transitions_wf [of ?c _ F] show ?thesis
    by (simp add: readConf_def parseTransitionsFile_def file_declares_targets_def split: option.splits)
qed

section \<open>Properties\<close>

lemma Configuration_wf:
  assumes "InvalidId \<le> n" "file_declares_targets X disk path"
  shows "config_wf (Configuration F X disk path parse_programs ps n a)"
proof -
  let ?c = "Configuration0\<lparr>idCounter := n, assigned_values := a\<rparr>"
  have "read_wf ?c"
    using assms(1) by (simp add: read_wf_def config_wf_def stores_wf_def names_wf_def table_wf_def ids_def
        low_priorities_def Configuration0_def)
  then have "read_wf (if parse_programs then parsePrograms F X disk (fold put_program ps ?c) else fold put_program ps ?c)"
    by (simp add: put_programs_wf parsePrograms_wf)
  then show ?thesis
    using readConf_wf [OF _ _ assms(2)] unfolding Configuration_def Let_def read_wf_def config_wf_def by blast
qed

text \<open>
  C10: whatever programs are given or found on the disk, and whatever the transitions file holds (it may be
  missing or malformed), the constructor gives a configuration that satisfies the invariant, provided every rule in
  the file leads to a domain the file declares.
\<close>

theorem construction_wf:
  assumes "InvalidId \<le> n" "file_declares_targets X disk path"
  shows "config_wf (Configuration F X disk path parse_programs ps n a)"
  by (rule Configuration_wf [OF assms])

text \<open>
  After reading a file the names of domains are those the file declares and also every name that
  a rule of the file leads to; a name that is not declared stands for the invalid domain.
\<close>

theorem targets_become_domains:
  assumes "domains c = []"
  shows "set (domainNameList (parse_transitions F root c)) = declared root \<union> target_names (child_elements root) \<and>
    (\<forall>name \<in> target_names (child_elements root) - declared root.
       getDomainByName (parse_transitions F root c) name = Domain0)"
  using parse_transitions_domains [OF assms] by blast

definition sample_typo :: dnode where
  "sample_typo =
     Element TRANSITIONS_XML_ROOT []
       [Element DOMAIN_TAG [(NAME_TAG, ''work'')] [],
        Element RULE_TAG [(RULE_APP_NAME_TAG, ''mutt''), (RULE_TRANSIT_TO_TAG, ''wrok'')] []]"

theorem construction_wf_witness:
  "file_declares_targets tree_xml \<lparr>transitions_file = (\<lambda>_. Some (Element TRANSITIONS_XML_ROOT []
       [Element DOMAIN_TAG [(NAME_TAG, ''work'')] [],
        Element RULE_TAG [(RULE_APP_NAME_TAG, ''mutt''), (RULE_TRANSIT_TO_TAG, ''work'')] []])), program_files = []\<rparr> ''t.xml'' \<and>
   config_wf (Configuration simple_framework tree_xml \<lparr>transitions_file = (\<lambda>_. Some (Element TRANSITIONS_XML_ROOT []
       [Element DOMAIN_TAG [(NAME_TAG, ''work'')] [],
        Element RULE_TAG [(RULE_APP_NAME_TAG, ''mutt''), (RULE_TRANSIT_TO_TAG, ''work'')] []])), program_files = []\<rparr>
        ''t.xml'' True [] 0 clearAssignedValues)"
proof -
  have "file_declares_targets tree_xml \<lparr>transitions_file = (\<lambda>_. Some (Element TRANSITIONS_XML_ROOT []
       [Element DOMAIN_TAG [(NAME_TAG, ''work'')] [],
        Element RULE_TAG [(RULE_APP_NAME_TAG, ''mutt''), (RULE_TRANSIT_TO_TAG, ''work'')] []])), program_files = []\<rparr> ''t.xml''"
    by (auto simp: file_declares_targets_def tree_xml_def targets_declared_def target_names_def declared_def
        child_elements_def children_named_def)
  with construction_wf [of 0, OF _ this] show ?thesis by (simp add: InvalidId_def)
qed

theorem targets_become_domains_witness:
  "set (domainNameList (parse_transitions simple_framework sample_typo Configuration0)) = {''work'', ''wrok''} \<and>
   getDomainByName (parse_transitions simple_framework sample_typo Configuration0) ''wrok'' = Domain0"
proof -
  have "declared sample_typo = {''work''}" "target_names (child_elements sample_typo) = {''wrok''}"
    by (simp_all add: declared_def target_names_def sample_typo_def child_elements_def children_named_def)
  then show ?thesis
    using targets_become_domains [of Configuration0 simple_framework sample_typo]
    by (simp add: Configuration0_def insert_commute)
qed

end
