(* ===== verification/Prog_Registry.thy ===== *)
theory Prog_Registry
  imports Prelude
begin

text \<open>
  The table of monitored programs of the kernel module (\<open>security/auditsec/share.c\<close>).

  The table is the kernel list \<open>prog_list\<close>, most recently added entry first; an entry is the array
  \<open>execname\<close> of \<open>TASK_COMM_LEN\<close> bytes.  A pointer to a string is an option of its characters (\<open>None\<close>
  the null pointer); whether an allocation succeeds is an argument.  \<open>prog_liste\<close>, which prints the
  table into a growing buffer, works on buffers whose bytes may be uninitialised and returns a fault
  where the C code would leave its objects.

  The interface \<open>program_table\<close> is what the system calls rely on: a program is watched exactly if its
  name was registered and not removed since, names being told apart by their first 16 characters.
\<close>

definition TASK_COMM_LEN :: nat where "TASK_COMM_LEN = 16"

type_synonym prog = "char list"

section \<open>Operations\<close>

definition get_task_comm :: "char list \<Rightarrow> char list" where
  "get_task_comm comm = strncpy_k comm TASK_COMM_LEN"

fun prog_listed :: "prog list \<Rightarrow> char list \<Rightarrow> bool" where
  "prog_listed [] name = False"
| "prog_listed (p # ps) name =
     (if strncmp_k p name TASK_COMM_LEN = 0 then True else prog_listed ps name)"

definition prog_is_monitored :: "char list \<Rightarrow> prog list \<Rightarrow> int" where
  "prog_is_monitored comm ps = (if prog_listed ps (get_task_comm comm) then 1 else 0)"

definition register_prog :: "bool \<Rightarrow> char list option \<Rightarrow> prog list \<Rightarrow> int \<times> prog list" where
  "register_prog kmalloc_ok prog_name ps =
     (case prog_name of
        None \<Rightarrow> (- EFAULT, ps)
      | Some name \<Rightarrow>
          if prog_listed ps name then (- EFAULT, ps)
          else if \<not> kmalloc_ok then (- ENOMEM, ps)
          else (0, strncpy_k name TASK_COMM_LEN # ps))"

fun unregister_loop :: "char list \<Rightarrow> prog list \<Rightarrow> prog list option" where
  "unregister_loop name [] = None"
| "unregister_loop name (p # ps) =
     (if strncmp_k p name TASK_COMM_LEN = 0 then Some ps
      else map_option ((#) p) (unregister_loop name ps))"

definition unregister_prog :: "char list \<Rightarrow> prog list \<Rightarrow> int \<times> prog list" where
  "unregister_prog prog_name ps =
     (if ps = [] then (- 1, ps)
      else case unregister_loop prog_name ps of
             None \<Rightarrow> (- 1, ps)
           | Some ps' \<Rightarrow> (0, ps'))"

fun clean_loop :: "prog list \<Rightarrow> prog list" where
  "clean_loop [] = []"
| "clean_loop (p # ps) = clean_loop ps"

definition clean_prog_list :: "prog list \<Rightarrow> int \<times> prog list" where
  "clean_prog_list ps = (let ps' = clean_loop ps in if ps' \<noteq> [] then (- 1, ps') else (0, ps'))"

subsection \<open>Printing the table\<close>

type_synonym buffer = "char option list"

definition buf_alloc :: "nat \<Rightarrow> buffer" where
  "buf_alloc n = replicate n None"

definition buf_write :: "buffer \<Rightarrow> nat \<Rightarrow> char list \<Rightarrow> fault + buffer" where
  "buf_write b off s =
     (if off + length s \<le> length b
      then Inr (take off b @ map Some s @ drop (off + length s) b) else Inl OutOfBounds)"

fun buf_cstring :: "buffer \<Rightarrow> fault + string" where
  "buf_cstring [] = Inl OutOfBounds"
| "buf_cstring (None # b) = Inl Uninitialised"
| "buf_cstring (Some c # b) =
     (if c = NUL then Inr [] else bind_fault (buf_cstring b) (\<lambda>s. Inr (c # s)))"

text \<open>\<open>sprintf(b + off, "%s\n", execname)\<close>: the buffer and the number of characters printed.\<close>

definition sprintf_line :: "buffer \<Rightarrow> nat \<Rightarrow> prog \<Rightarrow> fault + (buffer \<times> nat)" where
  "sprintf_line b off p =
     (if \<not> terminated p then Inl OutOfBounds
      else bind_fault (buf_write b off (cstring p @ [CHR 0x0A, NUL]))
             (\<lambda>b'. Inr (b', length (cstring p) + 1)))"

fun prog_liste_loop :: "(nat \<Rightarrow> bool) \<Rightarrow> prog list \<Rightarrow> buffer \<Rightarrow> nat \<Rightarrow> nat \<Rightarrow> fault + buffer" where
  "prog_liste_loop kmalloc_ok [] result alloc res_len = Inr result"
| "prog_liste_loop kmalloc_ok (p # ps) result alloc res_len =
     (if res_len + TASK_COMM_LEN + 1 < alloc then
        bind_fault (sprintf_line result res_len p)
          (\<lambda>(result', n). prog_liste_loop kmalloc_ok ps result' alloc (res_len + n))
      else
        let alloc' = alloc + 20 * (TASK_COMM_LEN + 1) in
        if \<not> kmalloc_ok alloc' then Inl NullDeref
        else bind_fault (buf_cstring result)
          (\<lambda>s. bind_fault (buf_write (buf_alloc alloc') 0 (strncpy_k s alloc'))
          (\<lambda>tmp. bind_fault (sprintf_line tmp res_len p)
          (\<lambda>(result', n). prog_liste_loop kmalloc_ok ps result' alloc' (res_len + n)))))"

definition prog_liste :: "(nat \<Rightarrow> bool) \<Rightarrow> prog list \<Rightarrow> fault + buffer option" where
  "prog_liste kmalloc_ok ps =
     (let alloc = 20 * (TASK_COMM_LEN + 1) in
      if \<not> kmalloc_ok alloc then Inr None
      else bind_fault (prog_liste_loop kmalloc_ok ps (buf_alloc alloc) alloc 0) (\<lambda>b. Inr (Some b)))"

section \<open>The table as a set of names\<close>

text \<open>What the comparisons see of a name, and the names in the table.\<close>

definition comm_key :: "char list \<Rightarrow> string" where
  "comm_key name = take TASK_COMM_LEN (cstring name)"

definition prog_keys :: "prog list \<Rightarrow> string list" where
  "prog_keys ps = map comm_key ps"

definition prog_list_wf :: "prog list \<Rightarrow> bool" where
  "prog_list_wf ps = ((\<forall>p \<in> set ps. length p = TASK_COMM_LEN) \<and> distinct (prog_keys ps))"

lemma prog_keys_simps [simp]: "prog_keys [] = []" "prog_keys (p # ps) = comm_key p # prog_keys ps"
  by (simp_all add: prog_keys_def)

lemma prog_list_wf_Nil [simp]: "prog_list_wf []"
  by (simp add: prog_list_wf_def)

lemma comm_key_strncpy [simp]: "comm_key (strncpy_k name TASK_COMM_LEN) = comm_key name"
  by (simp add: comm_key_def cstring_strncpy_k)

lemma strncmp_key: "strncmp_k a b TASK_COMM_LEN = 0 \<longleftrightarrow> comm_key a = comm_key b"
  by (simp add: strncmp_k_eq_0_iff comm_key_def)

lemma prog_listed_iff: "prog_listed ps name \<longleftrightarrow> comm_key name \<in> set (prog_keys ps)"
  by (induction ps) (auto simp: strncmp_key)

lemma prog_is_monitored_iff: "prog_is_monitored comm ps \<noteq> 0 \<longleftrightarrow> comm_key comm \<in> set (prog_keys ps)"
  by (simp add: prog_is_monitored_def prog_listed_iff get_task_comm_def)

lemma unregister_loop_None: "unregister_loop name ps = None \<longleftrightarrow> comm_key name \<notin> set (prog_keys ps)"
  by (induction ps) (auto simp: strncmp_key)

lemma unregister_loop_Some:
  "unregister_loop name ps = Some ps' \<Longrightarrow>
     prog_keys ps' = remove1 (comm_key name) (prog_keys ps) \<and> set ps' \<subseteq> set ps"
  by (induction ps arbitrary: ps') (auto simp: strncmp_key split: if_splits)

lemma clean_loop_empty [simp]: "clean_loop ps = []"
  by (induction ps) auto

lemma register_prog_keys:
  "prog_keys (snd (register_prog ok name ps)) =
     (case name of
        Some n \<Rightarrow> if ok \<and> comm_key n \<notin> set (prog_keys ps) then comm_key n # prog_keys ps else prog_keys ps
      | None \<Rightarrow> prog_keys ps)"
  by (auto simp: register_prog_def prog_listed_iff split: option.split)

lemma unregister_prog_keys:
  "prog_keys (snd (unregister_prog name ps)) = remove1 (comm_key name) (prog_keys ps)"
  by (auto simp: unregister_prog_def unregister_loop_None remove1_idem
      dest!: unregister_loop_Some split: option.split)

lemma register_prog_wf [wf_intros]:
  "prog_list_wf ps \<Longrightarrow> prog_list_wf (snd (register_prog ok name ps))"
  by (auto simp: register_prog_def prog_list_wf_def prog_listed_iff split: option.split)

lemma unregister_prog_wf [wf_intros]:
  assumes "prog_list_wf ps"
  shows "prog_list_wf (snd (unregister_prog name ps))"
proof -
  have "set (snd (unregister_prog name ps)) \<subseteq> set ps"
    by (auto simp: unregister_prog_def split: option.split dest!: unregister_loop_Some)
  then show ?thesis
    using assms by (auto simp: prog_list_wf_def unregister_prog_keys)
qed

lemma clean_prog_list_eq: "clean_prog_list ps = (0, [])"
  by (simp add: clean_prog_list_def)

section \<open>The interface of the table\<close>

datatype table_op = TReg bool "char list option" | TUnreg "char list" | TClean

text \<open>A sequence of operations on a table, and what it should do to one name: a registration that
  finds memory starts the monitoring of its name, a removal or a clean-up ends it.\<close>

fun table_run :: "(bool \<Rightarrow> char list option \<Rightarrow> 's \<Rightarrow> int \<times> 's) \<Rightarrow> (char list \<Rightarrow> 's \<Rightarrow> int \<times> 's) \<Rightarrow>
    ('s \<Rightarrow> int \<times> 's) \<Rightarrow> table_op list \<Rightarrow> 's \<Rightarrow> 's" where
  "table_run reg unreg clean [] s = s"
| "table_run reg unreg clean (TReg ok n # ops) s = table_run reg unreg clean ops (snd (reg ok n s))"
| "table_run reg unreg clean (TUnreg n # ops) s = table_run reg unreg clean ops (snd (unreg n s))"
| "table_run reg unreg clean (TClean # ops) s = table_run reg unreg clean ops (snd (clean s))"

fun watched_after :: "(char list \<Rightarrow> string) \<Rightarrow> char list \<Rightarrow> table_op list \<Rightarrow> bool \<Rightarrow> bool" where
  "watched_after key n [] b = b"
| "watched_after key n (TReg ok None # ops) b = watched_after key n ops b"
| "watched_after key n (TReg ok (Some m) # ops) b = watched_after key n ops (b \<or> ok \<and> key n = key m)"
| "watched_after key n (TUnreg m # ops) b = watched_after key n ops (b \<and> key n \<noteq> key m)"
| "watched_after key n (TClean # ops) b = watched_after key n ops False"

locale program_table =
  fixes watched :: "'s \<Rightarrow> char list \<Rightarrow> bool"
    and reg :: "bool \<Rightarrow> char list option \<Rightarrow> 's \<Rightarrow> int \<times> 's"
    and unreg :: "char list \<Rightarrow> 's \<Rightarrow> int \<times> 's"
    and clean :: "'s \<Rightarrow> int \<times> 's"
    and key :: "char list \<Rightarrow> string"
    and inv :: "'s \<Rightarrow> bool"
  assumes watched_key: "key a = key b \<Longrightarrow> watched s a = watched s b"
    and reg_null: "reg ok None s = (- EFAULT, s)"
    and reg_listed: "watched s n \<Longrightarrow> reg ok (Some n) s = (- EFAULT, s)"
    and reg_nomem: "\<not> watched s n \<Longrightarrow> reg False (Some n) s = (- ENOMEM, s)"
    and reg_result: "\<not> watched s n \<Longrightarrow> fst (reg True (Some n) s) = 0"
    and reg_watched: "\<not> watched s n \<Longrightarrow>
          watched (snd (reg True (Some n) s)) m \<longleftrightarrow> watched s m \<or> key m = key n"
    and unreg_missing: "\<not> watched s n \<Longrightarrow> unreg n s = (- 1, s)"
    and unreg_result: "watched s n \<Longrightarrow> fst (unreg n s) = 0"
    and unreg_watched: "inv s \<Longrightarrow> watched s n \<Longrightarrow>
          watched (snd (unreg n s)) m \<longleftrightarrow> watched s m \<and> key m \<noteq> key n"
    and clean_result: "fst (clean s) = 0"
    and clean_watched: "\<not> watched (snd (clean s)) m"
    and inv_reg: "inv s \<Longrightarrow> inv (snd (reg ok nm s))"
    and inv_unreg: "inv s \<Longrightarrow> inv (snd (unreg n s))"
    and inv_clean: "inv (snd (clean s))"
begin

lemma reg_effect: "watched (snd (reg ok (Some n) s)) m \<longleftrightarrow> watched s m \<or> ok \<and> key m = key n"
proof (cases "watched s n")
  case True
  then show ?thesis using watched_key reg_listed by (metis snd_conv)
next
  case False
  then show ?thesis using reg_nomem reg_watched by (cases ok) auto
qed

lemma unreg_effect: "inv s \<Longrightarrow> watched (snd (unreg n s)) m \<longleftrightarrow> watched s m \<and> key m \<noteq> key n"
  by (cases "watched s n") (use unreg_watched unreg_missing watched_key in \<open>metis snd_conv\<close>)+

lemma reg_unreg_restores:
  assumes "inv s" "\<not> watched s n"
  shows "watched (snd (unreg n (snd (reg ok (Some n) s)))) m = watched s m"
  using assms unreg_effect [OF inv_reg [OF assms(1)]] reg_effect watched_key by metis

lemma run_inv: "inv s \<Longrightarrow> inv (table_run reg unreg clean ops s)"
proof (induction ops arbitrary: s)
  case (Cons a ops)
  then show ?case
    by (cases a) (simp_all add: inv_reg inv_unreg inv_clean)
qed simp

lemma run_watched:
  "inv s \<Longrightarrow> watched (table_run reg unreg clean ops s) n = watched_after key n ops (watched s n)"
proof (induction ops arbitrary: s)
  case (Cons a ops)
  show ?case
  proof (cases a)
    case (TReg ok name)
    with Cons show ?thesis
      by (cases name) (simp_all add: inv_reg reg_effect reg_null)
  next
    case (TUnreg m)
    with Cons show ?thesis
      by (simp add: inv_unreg unreg_effect)
  next
    case TClean
    with Cons show ?thesis
      by (simp add: inv_clean clean_watched)
  qed
qed simp

end

definition prog_watched :: "prog list \<Rightarrow> char list \<Rightarrow> bool" where
  "prog_watched ps name = (prog_is_monitored name ps \<noteq> 0)"

lemma prog_watched_iff: "prog_watched ps name \<longleftrightarrow> comm_key name \<in> set (prog_keys ps)"
  by (simp add: prog_watched_def prog_is_monitored_iff)

interpretation pt: program_table prog_watched register_prog unregister_prog clean_prog_list
    comm_key prog_list_wf
proof unfold_locales
  fix s n m
  show "\<not> prog_watched s n \<Longrightarrow> prog_watched (snd (register_prog True (Some n) s)) m \<longleftrightarrow>
      prog_watched s m \<or> comm_key m = comm_key n"
    by (auto simp: prog_watched_iff register_prog_keys)
  show "prog_list_wf s \<Longrightarrow> prog_watched s n \<Longrightarrow>
      prog_watched (snd (unregister_prog n s)) m \<longleftrightarrow> prog_watched s m \<and> comm_key m \<noteq> comm_key n"
    by (auto simp: prog_watched_iff unregister_prog_keys prog_list_wf_def)
  show "prog_watched s n \<Longrightarrow> fst (unregister_prog n s) = 0"
    by (cases "unregister_loop n s")
      (auto simp: prog_watched_iff unregister_prog_def unregister_loop_None)
  show "\<not> prog_watched s n \<Longrightarrow> unregister_prog n s = (- 1, s)"
    by (auto simp: prog_watched_iff unregister_prog_def unregister_loop_None[symmetric])
  show "prog_list_wf (snd (clean_prog_list s))"
    by (simp add: clean_prog_list_eq prog_list_wf_def)
  show "prog_list_wf s \<Longrightarrow> prog_list_wf (snd (register_prog ok nm s))" for ok nm
    by (rule register_prog_wf)
  show "prog_list_wf s \<Longrightarrow> prog_list_wf (snd (unregister_prog n s))"
    by (rule unregister_prog_wf)
qed (simp_all add: prog_watched_iff register_prog_def prog_listed_iff clean_prog_list_eq)

section \<open>Printing the table\<close>

definition prog_lines :: "prog list \<Rightarrow> string" where
  "prog_lines ps = concat (map (\<lambda>p. cstring p @ [CHR 0x0A]) ps)"

text \<open>What the print loop keeps: \<open>done\<close> has been printed, and the buffer is filled up to the zero
  byte after it (nothing need be initialised while nothing has been printed).\<close>

definition liste_inv :: "string \<Rightarrow> buffer \<Rightarrow> nat \<Rightarrow> nat \<Rightarrow> bool" where
  "liste_inv printed result alloc res_len =
     (length result = alloc \<and> res_len = length printed \<and> NUL \<notin> set printed
      \<and> 20 * (TASK_COMM_LEN + 1) \<le> alloc
      \<and> (printed = [] \<or> (\<exists>r. result = map Some (printed @ [NUL]) @ r)))"

lemma buf_cstring_printed [simp]:
  "NUL \<notin> set s \<Longrightarrow> buf_cstring (map Some s @ Some NUL # r) = Inr s"
  by (induction s) auto

lemma length_cstring_terminated: "terminated p \<Longrightarrow> length (cstring p) < length p"
  by (induction p) (auto simp: terminated_def split: if_splits)

lemma sprintf_line_inv:
  assumes "liste_inv printed b alloc res_len" "terminated p" "length p = TASK_COMM_LEN"
    and "res_len + TASK_COMM_LEN + 1 \<le> alloc"
  obtains b' where "sprintf_line b res_len p = Inr (b', length (cstring p) + 1)"
    "liste_inv (printed @ cstring p @ [CHR 0x0A]) b' alloc (res_len + (length (cstring p) + 1))"
proof -
  let ?line = "cstring p @ [CHR 0x0A, NUL]"
  have fits: "res_len + length ?line \<le> length b"
    using assms length_cstring_terminated [of p] by (auto simp: liste_inv_def)
  let ?b' = "take res_len b @ map Some ?line @ drop (res_len + length ?line) b"
  have "take res_len b = map Some printed"
    using assms(1) by (auto simp: liste_inv_def)
  moreover have "length ?b' = length b"
    using fits by simp
  ultimately have "liste_inv (printed @ cstring p @ [CHR 0x0A]) ?b' alloc (res_len + (length (cstring p) + 1))"
    using assms(1) by (auto simp: liste_inv_def)
  moreover have "sprintf_line b res_len p = Inr (?b', length (cstring p) + 1)"
    using assms(2) fits by (simp add: sprintf_line_def buf_write_def)
  ultimately show ?thesis using that by blast
qed

lemma liste_grow_inv:
  assumes "liste_inv printed b alloc res_len" "printed \<noteq> []" "alloc \<le> alloc'"
  obtains tmp where "buf_cstring b = Inr printed"
    "buf_write (buf_alloc alloc') 0 (strncpy_k printed alloc') = Inr tmp"
    "liste_inv printed tmp alloc' res_len" "res_len < alloc"
proof -
  obtain r where b: "b = map Some (printed @ [NUL]) @ r"
    using assms by (auto simp: liste_inv_def)
  have nonul: "NUL \<notin> set printed" and len: "length printed < alloc"
    using assms(1) b by (auto simp: liste_inv_def)
  let ?tmp = "map Some (strncpy_k printed alloc')"
  have "strncpy_k printed alloc' = printed @ NUL # replicate (alloc' - length printed - 1) NUL"
    using len nonul assms(3)
    by (subst strncpy_k_fits) (auto simp: cstring_id Suc_diff_Suc simp flip: replicate_Suc)
  then have "liste_inv printed ?tmp alloc' res_len"
    using assms(1,3) by (auto simp: liste_inv_def)
  moreover have "buf_write (buf_alloc alloc') 0 (strncpy_k printed alloc') = Inr ?tmp"
    by (simp add: buf_write_def buf_alloc_def)
  moreover have "buf_cstring b = Inr printed"
    using b nonul by simp
  ultimately show ?thesis
    using that len assms(1) by (auto simp: liste_inv_def)
qed

lemma prog_liste_loop_step:
  assumes "liste_inv printed b alloc res_len" "\<forall>n. ok n" "terminated p" "length p = TASK_COMM_LEN"
  obtains b' alloc' n where
    "prog_liste_loop ok (p # ps) b alloc res_len = prog_liste_loop ok ps b' alloc' n"
    "liste_inv (printed @ cstring p @ [CHR 0x0A]) b' alloc' n"
proof (cases "res_len + TASK_COMM_LEN + 1 < alloc")
  case True
  with sprintf_line_inv [OF assms(1,3,4)] that show ?thesis
    by fastforce
next
  case False
  let ?alloc' = "alloc + 20 * (TASK_COMM_LEN + 1)"
  have "printed \<noteq> []"
    using False assms(1) by (auto simp: liste_inv_def TASK_COMM_LEN_def)
  then obtain tmp where tmp: "buf_cstring b = Inr printed"
      "buf_write (buf_alloc ?alloc') 0 (strncpy_k printed ?alloc') = Inr tmp"
      "liste_inv printed tmp ?alloc' res_len" "res_len < alloc"
    by (rule liste_grow_inv [OF assms(1), of ?alloc']) auto
  have "res_len + TASK_COMM_LEN + 1 \<le> ?alloc'"
    using tmp(4) by (simp add: TASK_COMM_LEN_def)
  then obtain b' where "sprintf_line tmp res_len p = Inr (b', length (cstring p) + 1)"
      "liste_inv (printed @ cstring p @ [CHR 0x0A]) b' ?alloc' (res_len + (length (cstring p) + 1))"
    by (rule sprintf_line_inv [OF tmp(3) assms(3,4)])
  with False tmp assms(2) that show ?thesis
    by (simp add: Let_def)
qed

lemma prog_liste_loop_inv:
  assumes "liste_inv printed b alloc res_len" "\<forall>n. ok n"
    and "\<forall>p \<in> set ps. terminated p \<and> length p = TASK_COMM_LEN"
  shows "\<exists>b' alloc' n. prog_liste_loop ok ps b alloc res_len = Inr b' \<and>
           liste_inv (printed @ prog_lines ps) b' alloc' n"
  using assms(1,3)
proof (induction ps arbitrary: printed b alloc res_len)
  case (Cons p ps)
  then have "terminated p" "length p = TASK_COMM_LEN" by auto
  from prog_liste_loop_step [OF Cons.prems(1) assms(2) this] obtain b' alloc' n where
    "prog_liste_loop ok (p # ps) b alloc res_len = prog_liste_loop ok ps b' alloc' n"
    "liste_inv (printed @ cstring p @ [CHR 0x0A]) b' alloc' n" .
  with Cons show ?case
    by (fastforce simp: prog_lines_def)
qed (auto simp: prog_lines_def)

lemma liste_inv_init:
  "liste_inv [] (buf_alloc (20 * (TASK_COMM_LEN + 1))) (20 * (TASK_COMM_LEN + 1)) 0"
  by (simp add: liste_inv_def buf_alloc_def)

lemma prog_liste_string:
  assumes "\<forall>n. ok n" "ps \<noteq> []"
    and "\<forall>p \<in> set ps. terminated p \<and> length p = TASK_COMM_LEN"
  shows "\<exists>b. prog_liste ok ps = Inr (Some b) \<and> buf_cstring b = Inr (prog_lines ps)"
proof -
  obtain b a n where "prog_liste_loop ok ps (buf_alloc (20 * (TASK_COMM_LEN + 1))) (20 * (TASK_COMM_LEN + 1)) 0 = Inr b"
    and inv: "liste_inv (prog_lines ps) b a n"
    using prog_liste_loop_inv [OF liste_inv_init assms(1,3)] by auto
  moreover have ne: "prog_lines ps \<noteq> []"
    using assms(2) by (cases ps) (auto simp: prog_lines_def)
  moreover have "buf_cstring b = Inr (prog_lines ps)"
    using inv ne by (auto simp: liste_inv_def)
  ultimately show ?thesis
    using assms(1) by (auto simp: prog_liste_def Let_def)
qed

section \<open>Properties\<close>

text \<open>C27: the table behaves as a set of names.  After any sequence of registrations (with or without
  memory), removals and clean-ups, the hooks consider a task monitored exactly if the last operation
  that concerned its name (compared on 16 characters) was a registration that found memory, or if it
  was monitored at the start and no operation ended that.\<close>

theorem registry_tracks_history:
  assumes "prog_list_wf ps"
  shows "prog_is_monitored comm (table_run register_prog unregister_prog clean_prog_list ops ps) \<noteq> 0 \<longleftrightarrow>
           watched_after comm_key comm ops (prog_is_monitored comm ps \<noteq> 0)"
  using pt.run_watched [OF assms] by (simp add: prog_watched_def)

theorem registry_tracks_history_witness:
  "prog_is_monitored ''vi'' (table_run register_prog unregister_prog clean_prog_list
      [TReg True (Some ''vi''), TReg True (Some ''cat''), TUnreg ''cat''] []) \<noteq> 0"
proof -
  have "prog_list_wf []" by (simp add: prog_list_wf_def)
  from registry_tracks_history [OF this, of "''vi''"
      "[TReg True (Some ''vi''), TReg True (Some ''cat''), TUnreg ''cat'']"] show ?thesis
    by (simp add: comm_key_def TASK_COMM_LEN_def del: table_run.simps)
qed

text \<open>\<open>prog_liste\<close> prints the table.  When no allocation fails and every name in the table is
  shorter than its array, the print loop stays inside its buffers however often they grow, and the
  string it returns is the names in list order, each followed by a newline.\<close>

theorem prog_liste_prints:
  assumes "\<forall>n. ok n" "ps \<noteq> []"
    and "\<forall>p \<in> set ps. terminated p \<and> length p = TASK_COMM_LEN"
  shows "\<exists>b. prog_liste ok ps = Inr (Some b) \<and> buf_cstring b = Inr (prog_lines ps)"
  using assms by (rule prog_liste_string)

theorem prog_liste_prints_witness:
  "\<exists>b. prog_liste (\<lambda>n. True) (replicate 30 (strncpy_k ''firefox'' 16)) = Inr (Some b) \<and>
       buf_cstring b = Inr (prog_lines (replicate 30 (strncpy_k ''firefox'' 16)))"
  by (rule prog_liste_prints)
    (simp_all add: terminated_strncpy_k TASK_COMM_LEN_def)

text \<open>An empty table prints as garbage.  The buffer \<open>prog_liste\<close> returns for it was never
  written, so reading it as a string uses uninitialised memory.\<close>

theorem prog_liste_empty_uninitialised:
  "ok (20 * (TASK_COMM_LEN + 1)) \<Longrightarrow>
     \<exists>b. prog_liste ok [] = Inr (Some b) \<and> buf_cstring b = Inl Uninitialised"
  by (auto simp: prog_liste_def buf_alloc_def TASK_COMM_LEN_def numeral_eq_Suc)

theorem prog_liste_empty_uninitialised_witness:
  "\<exists>b. prog_liste (\<lambda>n. n < 4096) [] = Inr (Some b) \<and> buf_cstring b = Inl Uninitialised"
  by (rule prog_liste_empty_uninitialised) (simp add: TASK_COMM_LEN_def)

text \<open>A name of 16 characters or more is stored without its terminating zero, and printing the
  table then reads past the entry.\<close>

theorem long_name_overreads:
  assumes "TASK_COMM_LEN \<le> length (cstring name)" "ok (20 * (TASK_COMM_LEN + 1))"
    and "register_prog True (Some name) ps = (0, ps')"
  shows "prog_liste ok ps' = Inl OutOfBounds"
  using assms
  by (auto simp: register_prog_def prog_liste_def sprintf_line_def terminated_strncpy_k
      TASK_COMM_LEN_def EFAULT_def split: if_splits)

theorem long_name_overreads_witness:
  "prog_liste (\<lambda>n. True) (snd (register_prog True (Some ''abcdefghijklmnop'') [])) = Inl OutOfBounds"
  by (rule long_name_overreads [of "''abcdefghijklmnop''" _ "[]"])
    (simp_all add: register_prog_def TASK_COMM_LEN_def)

end
