(* ===== verification/Auditsec_Paths.thy ===== *)
theory Auditsec_Paths
  imports Prog_Registry
begin

text \<open>
  The paths the kernel module reports (\<open>calculate_path\<close>, \<open>dir_path\<close> and \<open>file_path\<close> of
  \<open>security/auditsec/hooks.c\<close>).

  A directory entry is the root of its file system or a named entry below a parent.  The functions
  write into a caller's buffer of \<open>PATH_MAX + 1\<close> bytes, of which they know neither the size nor the
  bound they pass on; every store is checked against the buffer's length, and a store outside is the
  fault \<open>OutOfBounds\<close>.
\<close>

definition NAME_MAX :: nat where "NAME_MAX = 255"
definition PATH_MAX :: nat where "PATH_MAX = 4096"

datatype dentry = IS_ROOT | Dentry (d_parent: dentry) (d_name: string)

record vfile =
  f_dentry :: dentry
  mnt_devname :: string

section \<open>Operations\<close>

fun calculate_path :: "dentry \<Rightarrow> nat \<Rightarrow> nat \<Rightarrow> buffer \<Rightarrow> fault + (int \<times> buffer)" where
  "calculate_path IS_ROOT off len path = Inr (0, path)"
| "calculate_path (Dentry parent name) off len path =
     bind_fault (calculate_path parent off len path) (\<lambda>(pos, path).
       if pos \<noteq> - 1 then
         let size = length name in
         if pos + int size + 1 < int len then
           bind_fault (buf_write path (off + nat pos) ''/'') (\<lambda>path.
           bind_fault (buf_write path (off + nat pos + 1) (strncpy_k name size)) (\<lambda>path.
           Inr (pos + int size + 1, path)))
         else Inr (- 1, path)
       else Inr (- 1, path))"

text \<open>The store \<open>path[n] = '\0'\<close>, at an index that may be negative.\<close>

definition store_NUL :: "int \<Rightarrow> buffer \<Rightarrow> fault + buffer" where
  "store_NUL n path = (if n < 0 then Inl OutOfBounds else buf_write path (nat n) [NUL])"

definition file_path :: "vfile \<Rightarrow> buffer \<Rightarrow> fault + (int \<times> buffer)" where
  "file_path file path =
     (let mnt_point = mnt_devname file;
          n = (if mnt_point \<noteq> ''/dev/root'' then length mnt_point else 0)
      in bind_fault (buf_write path 0 (strncpy_k mnt_point n)) (\<lambda>path.
         bind_fault (calculate_path (f_dentry file) n (NAME_MAX + PATH_MAX - n) path) (\<lambda>(n, path).
         bind_fault (store_NUL n path) (\<lambda>path. Inr (n + 1, path)))))"

definition dir_path :: "dentry \<Rightarrow> buffer \<Rightarrow> fault + (int \<times> buffer)" where
  "dir_path dentry path =
     bind_fault (calculate_path dentry 0 (NAME_MAX + PATH_MAX) path) (\<lambda>(n, path).
     bind_fault (store_NUL n path) (\<lambda>path. Inr (n + 1, path)))"

section \<open>What they compute\<close>

text \<open>The path of an entry within its file system; the root itself has the empty path.\<close>

fun dentry_path :: "dentry \<Rightarrow> string" where
  "dentry_path IS_ROOT = []"
| "dentry_path (Dentry parent name) = dentry_path parent @ ''/'' @ name"

fun names_ok :: "dentry \<Rightarrow> bool" where
  "names_ok IS_ROOT = True"
| "names_ok (Dentry parent name) = (NUL \<notin> set name \<and> names_ok parent)"

definition put :: "buffer \<Rightarrow> nat \<Rightarrow> char list \<Rightarrow> buffer" where
  "put b off s = take off b @ map Some s @ drop (off + length s) b"

lemma buf_write_put: "buf_write b off s = (if off + length s \<le> length b then Inr (put b off s) else Inl OutOfBounds)"
  by (simp add: buf_write_def put_def)

lemma length_put [simp]: "off + length s \<le> length b \<Longrightarrow> length (put b off s) = length b"
  by (simp add: put_def)

lemma put_append: "off + length s + length t \<le> length b \<Longrightarrow>
    put (put b off s) (off + length s) t = put b off (s @ t)"
  by (simp add: put_def add.assoc add.commute add.left_commute)

lemma put_Nil [simp]: "put b off [] = b"
  by (simp add: put_def)

lemma names_ok_no_NUL: "names_ok d \<Longrightarrow> NUL \<notin> set (dentry_path d)"
  by (induction d) auto

lemma calculate_path_fits:
  assumes "names_ok d" "off + length (dentry_path d) \<le> length b" "length (dentry_path d) < len"
  shows "calculate_path d off len b = Inr (int (length (dentry_path d)), put b off (dentry_path d))"
  using assms
proof (induction d)
  case (Dentry parent name)
  let ?p = "dentry_path parent"
  have "calculate_path parent off len b = Inr (int (length ?p), put b off ?p)"
    using Dentry by simp
  moreover have "put (put b off ?p) (off + length ?p) ''/'' = put b off (?p @ ''/'')"
    using Dentry.prems by (intro put_append) simp
  moreover have "put (put b off (?p @ ''/'')) (off + length (?p @ ''/'')) name =
      put b off ((?p @ ''/'') @ name)"
    using Dentry.prems by (intro put_append) simp
  ultimately show ?case
    using Dentry.prems by (simp add: buf_write_put strncpy_k_exact)
qed simp

lemma calculate_path_result:
  "calculate_path d off len b = Inr (n, b') \<Longrightarrow>
     (n = - 1 \<or> n = int (length (dentry_path d))) \<and> length b' = length b \<and>
     (n \<noteq> - 1 \<longrightarrow> d \<noteq> IS_ROOT \<longrightarrow> off + length (dentry_path d) \<le> length b)"
proof (induction d arbitrary: n b')
  case (Dentry parent name)
  from Dentry.prems obtain pos b1 where 1: "calculate_path parent off len b = Inr (pos, b1)"
    by (auto simp: bind_fault_Inr_iff)
  note IH = Dentry.IH [OF 1]
  show ?case
  proof (cases "pos = - 1")
    case True
    with Dentry.prems 1 IH show ?thesis by simp
  next
    case False
    with Dentry.prems 1 IH show ?thesis
      by (auto simp: bind_fault_Inr_iff buf_write_put Let_def split: if_splits)
  qed
qed simp

lemma calculate_path_faults: "calculate_path d off len b = Inl e \<Longrightarrow> e = OutOfBounds"
  by (induction d)
    (auto simp: buf_write_put Let_def split: if_splits elim!: bind_fault.elims)

lemma buf_cstring_put:
  assumes "NUL \<notin> set s" "length s < length b"
  shows "buf_cstring (put b 0 (s @ [NUL])) = Inr s"
  using assms by (simp add: put_def)

lemma dir_path_overflow:
  assumes "length b = PATH_MAX + 1" "PATH_MAX < length (dentry_path d)"
  shows "dir_path d b = Inl OutOfBounds"
proof (cases "calculate_path d 0 (NAME_MAX + PATH_MAX) b")
  case (Inl e)
  then show ?thesis
    using calculate_path_faults by (auto simp: dir_path_def)
next
  case (Inr r)
  then obtain n b' where r: "calculate_path d 0 (NAME_MAX + PATH_MAX) b = Inr (n, b')"
    by (cases r) auto
  from calculate_path_result [OF r] assms show ?thesis
    by (auto simp: dir_path_def r store_NUL_def buf_write_put)
qed

lemma put_truncate:
  assumes "length s \<le> length t" "length t \<le> length b" "length s < length b"
  shows "put (put b 0 t) (length s) [NUL] = put (put b 0 t) 0 (take (length s) t @ [NUL])"
  using assms by (simp add: put_def take_map)

section \<open>Properties\<close>

text \<open>C35: for a path that fits, \<open>dir_path\<close> fills its buffer of \<open>PATH_MAX + 1\<close> bytes with the entry's
  path from the root of its file system and returns the length including the zero byte.\<close>

theorem dir_path_correct:
  assumes "names_ok d" "length (dentry_path d) \<le> PATH_MAX"
  shows "\<exists>b. dir_path d (buf_alloc (PATH_MAX + 1)) = Inr (int (length (dentry_path d)) + 1, b) \<and>
             buf_cstring b = Inr (dentry_path d)"
proof -
  let ?b = "buf_alloc (PATH_MAX + 1)" and ?p = "dentry_path d"
  have len: "length ?b = PATH_MAX + 1" by (simp add: buf_alloc_def)
  have "calculate_path d 0 (NAME_MAX + PATH_MAX) ?b = Inr (int (length ?p), put ?b 0 ?p)"
    using assms len by (intro calculate_path_fits) (auto simp: NAME_MAX_def PATH_MAX_def)
  moreover have "put (put ?b 0 ?p) (length ?p) [NUL] = put ?b 0 (?p @ [NUL])"
    using put_append [of 0 ?p "[NUL]" ?b] assms len by simp
  ultimately show ?thesis
    using assms len by (simp add: dir_path_def store_NUL_def buf_write_put buf_cstring_put names_ok_no_NUL)
qed

theorem dir_path_correct_witness:
  "\<exists>b. dir_path (Dentry (Dentry IS_ROOT ''home'') ''a'') (buf_alloc (PATH_MAX + 1)) = Inr (8, b) \<and>
       buf_cstring b = Inr ''/home/a''"
  using dir_path_correct [of "Dentry (Dentry IS_ROOT ''home'') ''a''"] by (simp add: PATH_MAX_def)

text \<open>C37: the bound \<open>NAME_MAX + PATH_MAX\<close> that \<open>dir_path\<close> passes to \<open>calculate_path\<close> does not protect
  its buffer: every path longer than \<open>PATH_MAX\<close> is stored outside it, either because the path is
  written past the end or because the length \<open>-1\<close> of a path that was refused is used as an index.\<close>

theorem dir_path_overruns:
  "PATH_MAX < length (dentry_path d) \<Longrightarrow> dir_path d (buf_alloc (PATH_MAX + 1)) = Inl OutOfBounds"
  by (rule dir_path_overflow) (simp_all add: buf_alloc_def)

theorem dir_path_overruns_witness:
  "dir_path (Dentry IS_ROOT (replicate 4096 (CHR ''x''))) (buf_alloc (PATH_MAX + 1)) = Inl OutOfBounds"
  by (rule dir_path_overruns) (simp add: PATH_MAX_def)

text \<open>On a file system mounted from another device than \<open>/dev/root\<close>, the path \<open>file_path\<close> reports
  is cut: the device name is put in front of the entry's path, but the zero byte is stored at the
  length of the entry's path alone, so as many characters as the device name has are lost.\<close>

theorem file_path_truncates:
  assumes "names_ok (f_dentry file)" "NUL \<notin> set (mnt_devname file)" "mnt_devname file \<noteq> ''/dev/root''"
    and "length (mnt_devname file) + length (dentry_path (f_dentry file)) \<le> PATH_MAX"
  shows "\<exists>b. file_path file (buf_alloc (PATH_MAX + 1)) =
               Inr (int (length (dentry_path (f_dentry file))) + 1, b) \<and>
             buf_cstring b = Inr (take (length (dentry_path (f_dentry file)))
                                    (mnt_devname file @ dentry_path (f_dentry file)))"
proof -
  let ?b = "buf_alloc (PATH_MAX + 1)" and ?m = "mnt_devname file" and ?p = "dentry_path (f_dentry file)"
  let ?n = "length ?m"
  have len: "length ?b = PATH_MAX + 1" by (simp add: buf_alloc_def)
  have "calculate_path (f_dentry file) ?n (NAME_MAX + PATH_MAX - ?n) (put ?b 0 ?m) =
      Inr (int (length ?p), put (put ?b 0 ?m) ?n ?p)"
    using assms len by (intro calculate_path_fits) (auto simp: NAME_MAX_def)
  moreover have "put (put ?b 0 ?m) ?n ?p = put ?b 0 (?m @ ?p)"
    using put_append [of 0 ?m ?p ?b] assms len by simp
  moreover have "put (put ?b 0 (?m @ ?p)) (length ?p) [NUL] =
      put (put ?b 0 (?m @ ?p)) 0 (take (length ?p) (?m @ ?p) @ [NUL])"
    using assms len by (intro put_truncate) auto
  moreover have "NUL \<notin> set (take (length ?p) (?m @ ?p))"
    using assms(2) names_ok_no_NUL [OF assms(1)] by (auto dest: in_set_takeD)
  ultimately show ?thesis
    using assms len
    by (simp add: file_path_def Let_def store_NUL_def buf_write_put strncpy_k_exact buf_cstring_put
        del: take_append)
qed

theorem file_path_truncates_witness:
  "\<exists>b. file_path \<lparr>f_dentry = Dentry (Dentry IS_ROOT ''bob'') ''mail'', mnt_devname = ''/dev/sda3''\<rparr>
         (buf_alloc (PATH_MAX + 1)) = Inr (10, b) \<and> buf_cstring b = Inr ''/dev/sda3''"
  using file_path_truncates
    [of "\<lparr>f_dentry = Dentry (Dentry IS_ROOT ''bob'') ''mail'', mnt_devname = ''/dev/sda3''\<rparr>"]
  by (simp add: PATH_MAX_def)

end
