(* ===== verification/Auditsec_Kernel.thy ===== *)
theory Auditsec_Kernel
  imports Auditsec_Paths "HOL-Library.Word"
begin

text \<open>
  The kernel module: its shared state (\<open>security/auditsec/share.c\<close>), the three system calls
  (\<open>syscall.c\<close>), the hooks, the files under \<open>/proc/contextd\<close> and the initialisation (\<open>hooks.c\<close>).

  \<open>kstate\<close> collects the static variables behind the accessor functions of \<open>share.c\<close>; a semaphore is
  its value, as justified in theory \<open>Semaphores\<close>.  A blocking call (\<open>down_timeout\<close>,
  \<open>down_interruptible\<close>) is an argument of type \<open>wait\<close>: it takes the state in which the caller starts
  to wait and gives the call's result together with the state in which the caller runs again, so it
  stands for whatever the other threads did meanwhile.  Everything else is written out: guards, early
  returns, every store to the shared state.
\<close>

section \<open>State\<close>

datatype socket_type = AUDITSEC_IPV4 | AUDITSEC_IPV6

datatype auditsec_struct =
    AUDITSEC_FILE (file_name: "char list") (file_fullpath: "char list") (file_mask: int)
  | AUDITSEC_SOCKET socket_type "char list"
  | AUDITSEC_DIR (dir_name: "char list") (dir_fullpath: "char list") (dir_mode: int)
  | AUDITSEC_MSG "char list" int

record auditsec_info =
  ai_pid :: int
  ai_execname :: "char list"
  ai_struct :: auditsec_struct

record kstate =
  prog_list :: "prog list"
  k_auditsec_info :: "auditsec_info option"
  auditsec_answer :: int
  contextd_pid :: int
  auditsec_hook_lock :: nat
  auditsec_question_lock :: nat
  auditsec_answer_lock :: nat
  daemon_launched :: bool

record task_struct =
  task_pid :: int
  task_tgid :: int
  task_comm :: "char list"

type_synonym wait = "kstate \<Rightarrow> int \<times> kstate"

definition up_hook :: "kstate \<Rightarrow> kstate" where
  "up_hook s = s\<lparr>auditsec_hook_lock := auditsec_hook_lock s + 1\<rparr>"

definition up_question :: "kstate \<Rightarrow> kstate" where
  "up_question s = s\<lparr>auditsec_question_lock := auditsec_question_lock s + 1\<rparr>"

definition up_answer :: "kstate \<Rightarrow> kstate" where
  "up_answer s = s\<lparr>auditsec_answer_lock := auditsec_answer_lock s + 1\<rparr>"

definition trylock_question :: "kstate \<Rightarrow> kstate" where
  "trylock_question s = s\<lparr>auditsec_question_lock := auditsec_question_lock s - 1\<rparr>"

section \<open>System calls\<close>

definition sys_auditsec_reg :: "bool \<Rightarrow> int \<Rightarrow> int \<Rightarrow> char list option \<Rightarrow> kstate \<Rightarrow> int \<times> kstate" where
  "sys_auditsec_reg kmalloc_ok tgid state process_name s =
     (if contextd_pid s = - 1 then
        if state = 1 then
          (case process_name of
             None \<Rightarrow> (1, s\<lparr>contextd_pid := tgid, daemon_launched := True\<rparr>)
           | Some _ \<Rightarrow> (0, s))
        else if state = 0 then (0, s)
        else (- EFAULT, s)
      else if contextd_pid s = tgid then
        if state = 1 then
          (case process_name of
             None \<Rightarrow> (1, s)
           | Some name \<Rightarrow>
               let (r, ps) = register_prog kmalloc_ok (Some name) (prog_list s);
                   s = s\<lparr>prog_list := ps\<rparr>
               in if r = 0 then (1, s) else (- EFAULT, s))
        else if state = 0 then
          (case process_name of
             None \<Rightarrow>
               let s = s\<lparr>contextd_pid := - 1, daemon_launched := False\<rparr>;
                   (_, ps) = clean_prog_list (prog_list s)
               in (0, s\<lparr>prog_list := ps\<rparr>)
           | Some name \<Rightarrow>
               let (r, ps) = unregister_prog name (prog_list s);
                   s = s\<lparr>prog_list := ps\<rparr>
               in if r = 0 then (0, s) else (- EFAULT, s))
        else (- EFAULT, s)
      else (- EFAULT, s))"

text \<open>The result, what was copied to the caller, and the state.\<close>

definition sys_auditsec_question ::
    "wait \<Rightarrow> int \<Rightarrow> bool \<Rightarrow> bool \<Rightarrow> kstate \<Rightarrow> int \<times> auditsec_info option \<times> kstate" where
  "sys_auditsec_question down_question tgid user_not_null copy_ok s =
     (if \<not> daemon_launched s then (- EFAULT, None, s)
      else if contextd_pid s \<noteq> tgid then (- EFAULT, None, s)
      else case down_question s of (r, s) \<Rightarrow>
        if r \<noteq> 0 then (- EFAULT, None, s)
        else if user_not_null \<and> copy_ok then (0, k_auditsec_info s, s)
        else (- EFAULT, None, up_answer (s\<lparr>auditsec_answer := 0\<rparr>)))"

definition sys_auditsec_answer :: "int \<Rightarrow> int \<Rightarrow> kstate \<Rightarrow> int \<times> kstate" where
  "sys_auditsec_answer tgid answer s =
     (if \<not> daemon_launched s then (- EFAULT, s)
      else if contextd_pid s \<noteq> tgid then (- EFAULT, s)
      else (0, up_answer (s\<lparr>auditsec_answer := answer\<rparr>)))"

section \<open>Hooks\<close>

text \<open>The exchange with the daemon, the same in every hook: \<open>fill\<close> stores the request.\<close>

definition hook_read_answer :: "kstate \<Rightarrow> int \<times> kstate" where
  "hook_read_answer s =
     (let answer = (if auditsec_answer s = 0 then 1 else 0 :: int)
      in (if answer = 0 then 0 else - EACCES, up_hook s))"

definition hook_give_up :: "kstate \<Rightarrow> int \<times> kstate" where
  "hook_give_up s = (- EFAULT, up_hook (trylock_question s))"

definition hook_exchange ::
    "wait \<Rightarrow> wait \<Rightarrow> (kstate \<Rightarrow> fault + kstate) \<Rightarrow> kstate \<Rightarrow> fault + (int \<times> kstate)" where
  "hook_exchange down_hook down_answer fill s =
     (case down_hook s of (r, s) \<Rightarrow>
        if r \<noteq> 0 then Inr (- EFAULT, s)
        else bind_fault (fill s) (\<lambda>s.
          case down_answer (up_question s) of (r, s) \<Rightarrow>
            if r \<noteq> 0 then Inr (hook_give_up s) else Inr (hook_read_answer s)))"

definition set_info :: "task_struct \<Rightarrow> auditsec_struct \<Rightarrow> kstate \<Rightarrow> kstate" where
  "set_info cur d s =
     s\<lparr>k_auditsec_info := Some \<lparr>ai_pid = task_pid cur, ai_execname = get_task_comm (task_comm cur),
                               ai_struct = d\<rparr>\<rparr>"

fun dentry_name :: "dentry \<Rightarrow> string" where
  "dentry_name IS_ROOT = ''/''"
| "dentry_name (Dentry parent name) = name"

definition auditsec_inode_mkdir ::
    "task_struct \<Rightarrow> bool \<Rightarrow> wait \<Rightarrow> wait \<Rightarrow> dentry \<Rightarrow> int \<Rightarrow> kstate \<Rightarrow> fault + (int \<times> kstate)" where
  "auditsec_inode_mkdir cur kmalloc_ok down_hook down_answer dentry mode s =
     (if prog_is_monitored (task_comm cur) (prog_list s) \<noteq> 0 then
        if \<not> kmalloc_ok then Inr (- ENOMEM, s)
        else bind_fault (dir_path dentry (buf_alloc (PATH_MAX + 1))) (\<lambda>(_, fullpath).
          if daemon_launched s then
            hook_exchange down_hook down_answer
              (\<lambda>s. bind_fault (buf_cstring fullpath) (\<lambda>path. Inr (set_info cur
                 (AUDITSEC_DIR (strncpy_k (dentry_name dentry) (NAME_MAX + 1))
                    (strncpy_k path (PATH_MAX + 1)) mode) s))) s
          else Inr (- EFAULT, s))
      else Inr (0, s))"

definition auditsec_file_permission ::
    "task_struct \<Rightarrow> bool \<Rightarrow> wait \<Rightarrow> wait \<Rightarrow> vfile \<Rightarrow> int \<Rightarrow> kstate \<Rightarrow> fault + (int \<times> kstate)" where
  "auditsec_file_permission cur kmalloc_ok down_hook down_answer file fmask s =
     (if prog_is_monitored (task_comm cur) (prog_list s) \<noteq> 0 then
        if \<not> kmalloc_ok then Inr (- ENOMEM, s)
        else bind_fault (file_path file (buf_alloc (PATH_MAX + 1))) (\<lambda>(_, fullpath).
          if daemon_launched s then
            hook_exchange down_hook down_answer
              (\<lambda>s. bind_fault (buf_cstring fullpath) (\<lambda>path. Inr (set_info cur
                 (AUDITSEC_FILE (strncpy_k (dentry_name (f_dentry file)) (NAME_MAX + 1))
                    (strncpy_k path (PATH_MAX + 1)) fmask) s))) s
          else Inr (- EFAULT, s))
      else Inr (0, s))"

definition PF_INET :: nat where "PF_INET = 2"

definition sizeof_sockaddr_in :: nat where "sizeof_sockaddr_in = 16"

definition sizeof_sockaddr_in6 :: nat where "sizeof_sockaddr_in6 = 28"

definition memcpy_from :: "char list \<Rightarrow> nat \<Rightarrow> fault + char list" where
  "memcpy_from src n = (if n \<le> length src then Inr (take n src) else Inl OutOfBounds)"

definition auditsec_socket_bind ::
    "task_struct \<Rightarrow> wait \<Rightarrow> wait \<Rightarrow> nat \<Rightarrow> char list \<Rightarrow> kstate \<Rightarrow> fault + (int \<times> kstate)" where
  "auditsec_socket_bind cur down_hook down_answer sk_family address s =
     (if prog_is_monitored (task_comm cur) (prog_list s) \<noteq> 0 then
        if daemon_launched s then
          hook_exchange down_hook down_answer
            (\<lambda>s. if sk_family = PF_INET
                 then bind_fault (memcpy_from address sizeof_sockaddr_in) (\<lambda>a.
                        Inr (set_info cur (AUDITSEC_SOCKET AUDITSEC_IPV4 a) s))
                 else bind_fault (memcpy_from address sizeof_sockaddr_in6) (\<lambda>a.
                        Inr (set_info cur (AUDITSEC_SOCKET AUDITSEC_IPV6 a) s))) s
        else Inr (- EFAULT, s)
      else Inr (0, s))"

definition auditsec_socket_connect ::
    "task_struct \<Rightarrow> wait \<Rightarrow> wait \<Rightarrow> nat \<Rightarrow> char list \<Rightarrow> kstate \<Rightarrow> fault + (int \<times> kstate)" where
  "auditsec_socket_connect cur down_hook down_answer sk_family address s =
     auditsec_socket_bind cur down_hook down_answer sk_family address s"

definition auditsec_socket_sendmsg ::
    "task_struct \<Rightarrow> wait \<Rightarrow> wait \<Rightarrow> char list \<Rightarrow> int \<Rightarrow> kstate \<Rightarrow> fault + (int \<times> kstate)" where
  "auditsec_socket_sendmsg cur down_hook down_answer msg msize s =
     (if prog_is_monitored (task_comm cur) (prog_list s) \<noteq> 0 then
        if daemon_launched s then
          hook_exchange down_hook down_answer (\<lambda>s. Inr (set_info cur (AUDITSEC_MSG msg msize) s)) s
        else Inr (- EFAULT, s)
      else Inr (0, s))"

definition auditsec_socket_recvmsg ::
    "task_struct \<Rightarrow> wait \<Rightarrow> wait \<Rightarrow> char list \<Rightarrow> int \<Rightarrow> kstate \<Rightarrow> fault + (int \<times> kstate)" where
  "auditsec_socket_recvmsg cur down_hook down_answer msg msize s =
     auditsec_socket_sendmsg cur down_hook down_answer msg msize s"

section \<open>Files under \<open>/proc/contextd\<close>\<close>

definition PAGE_SIZE :: nat where "PAGE_SIZE = 4096"

text \<open>\<open>sprintf(buffer, "%s", tmp)\<close> into the page the proc file system provides; a null pointer prints
  as \<open>(null)\<close>.\<close>

definition auditsec_proc_programs_read :: "(nat \<Rightarrow> bool) \<Rightarrow> nat \<Rightarrow> kstate \<Rightarrow> fault + (nat \<times> buffer)" where
  "auditsec_proc_programs_read kmalloc_ok offset s =
     (if offset > 0 then Inr (0, buf_alloc PAGE_SIZE)
      else bind_fault (prog_liste kmalloc_ok (prog_list s)) (\<lambda>tmp.
           bind_fault (case tmp of None \<Rightarrow> Inr ''(null)'' | Some b \<Rightarrow> buf_cstring b) (\<lambda>str.
           bind_fault (buf_write (buf_alloc PAGE_SIZE) 0 (str @ [NUL])) (\<lambda>page.
           Inr (length str, page)))))"

definition sprintf_d :: "int \<Rightarrow> string" where
  "sprintf_d i = show_int i"

definition auditsec_proc_status_read :: "nat \<Rightarrow> kstate \<Rightarrow> nat \<times> string" where
  "auditsec_proc_status_read offset s =
     (if offset > 0 then (0, [])
      else let str = sprintf_d (contextd_pid s) @ [CHR 0x0A] in (length str, str))"

text \<open>\<open>simple_strtoul\<close> in base 10, on 64-bit words; the list ends at the string's zero byte.\<close>

fun simple_strtoul :: "string \<Rightarrow> 64 word \<Rightarrow> 64 word" where
  "simple_strtoul [] result = result"
| "simple_strtoul (c # cp) result =
     (case digit_val c of
        None \<Rightarrow> result
      | Some d \<Rightarrow> simple_strtoul cp (result * 10 + of_nat d))"

definition simple_strtol :: "string \<Rightarrow> 64 word" where
  "simple_strtol cp =
     (case cp of
        [] \<Rightarrow> simple_strtoul [] 0
      | c # cp' \<Rightarrow> if c = CHR ''-'' then - simple_strtoul cp' 0 else simple_strtoul cp 0)"

definition auditsec_proc_status_write :: "bool \<Rightarrow> char list \<Rightarrow> kstate \<Rightarrow> int \<times> kstate" where
  "auditsec_proc_status_write copy_ok buffer s =
     (if \<not> copy_ok then (- EFAULT, s)
      else let lecture = simple_strtol (cstring buffer) in
        (int (length buffer),
         if lecture = 0
         then let s = s\<lparr>daemon_launched := False, contextd_pid := - 1\<rparr>;
                  (_, ps) = clean_prog_list (prog_list s)
              in s\<lparr>prog_list := ps\<rparr>
         else s))"

section \<open>Initialisation\<close>

definition kstate_static :: kstate where
  "kstate_static = \<lparr>prog_list = [], k_auditsec_info = None, auditsec_answer = 1, contextd_pid = - 1,
     auditsec_hook_lock = 1, auditsec_question_lock = 1, auditsec_answer_lock = 1, daemon_launched = False\<rparr>"

text \<open>The flags say whether the module is selected, whether its registration fails, and whether the
  directory and the two files under \<open>/proc\<close> could be created.\<close>

definition auditsec_init ::
    "bool \<Rightarrow> bool \<Rightarrow> bool \<Rightarrow> bool \<Rightarrow> bool \<Rightarrow> kstate \<Rightarrow> fault + (int \<times> kstate)" where
  "auditsec_init enabled register_fails dir_ok programs_ok status_ok s =
     (if \<not> enabled then Inr (0, s)
      else if register_fails then Inl Panic
      else
        let s = s\<lparr>auditsec_hook_lock := 1, auditsec_question_lock := 1, auditsec_answer_lock := 1\<rparr>;
            s = s\<lparr>auditsec_question_lock := auditsec_question_lock s - 1\<rparr>;
            s = s\<lparr>auditsec_answer_lock := auditsec_answer_lock s - 1\<rparr>
        in if \<not> dir_ok then Inr (- ENOMEM, s)
           else if \<not> programs_ok then Inr (- ENOMEM, s)
           else if \<not> programs_ok then Inr (- ENOMEM, s)
           else if \<not> status_ok then Inl NullDeref
           else Inr (0, s))"

lemmas k_defs = up_hook_def up_question_def up_answer_def trylock_question_def hook_read_answer_def
  hook_give_up_def set_info_def

lemmas hook_defs = auditsec_inode_mkdir_def auditsec_file_permission_def auditsec_socket_bind_def
  auditsec_socket_connect_def auditsec_socket_sendmsg_def auditsec_socket_recvmsg_def

section \<open>Invariant of the shared state\<close>

text \<open>The module's variables agree with each other: the daemon counts as launched exactly while a
  process is recorded as the daemon, without one no program is monitored, and the table of programs
  is well formed.\<close>

definition kstate_wf :: "kstate \<Rightarrow> bool" where
  "kstate_wf s = ((daemon_launched s \<longleftrightarrow> contextd_pid s \<noteq> - 1) \<and>
     (contextd_pid s = - 1 \<longrightarrow> prog_list s = []) \<and> prog_list_wf (prog_list s))"

text \<open>A hook of the module called by a task, with its two waits.\<close>

datatype hook_call =
    HMkdir bool dentry int
  | HFile bool vfile int
  | HBind nat "char list"
  | HConnect nat "char list"
  | HSend "char list" int
  | HRecv "char list" int

fun hook_run :: "task_struct \<Rightarrow> wait \<Rightarrow> wait \<Rightarrow> hook_call \<Rightarrow> kstate \<Rightarrow> fault + (int \<times> kstate)" where
  "hook_run cur dh da (HMkdir ok d mode) s = auditsec_inode_mkdir cur ok dh da d mode s"
| "hook_run cur dh da (HFile ok f fmask) s = auditsec_file_permission cur ok dh da f fmask s"
| "hook_run cur dh da (HBind fam addr) s = auditsec_socket_bind cur dh da fam addr s"
| "hook_run cur dh da (HConnect fam addr) s = auditsec_socket_connect cur dh da fam addr s"
| "hook_run cur dh da (HSend msg msize) s = auditsec_socket_sendmsg cur dh da msg msize s"
| "hook_run cur dh da (HRecv msg msize) s = auditsec_socket_recvmsg cur dh da msg msize s"

lemma register_prog_keeps: "register_prog ok name ps = (r, ps') \<Longrightarrow> r \<noteq> 0 \<Longrightarrow> ps' = ps"
  by (auto simp: register_prog_def split: option.splits if_splits)

lemma unregister_prog_keeps: "unregister_prog name ps = (r, ps') \<Longrightarrow> r \<noteq> 0 \<Longrightarrow> ps' = ps"
  by (auto simp: unregister_prog_def split: option.splits if_splits)

lemma sys_auditsec_reg_wf [wf_intros]:
  assumes "kstate_wf s" "tgid \<noteq> - 1"
  shows "kstate_wf (snd (sys_auditsec_reg ok tgid state name s))"
proof (cases name)
  case None
  with assms show ?thesis
    by (simp add: sys_auditsec_reg_def kstate_wf_def clean_prog_list_eq)
next
  case (Some n)
  obtain r ps where reg: "register_prog ok name (prog_list s) = (r, ps)" by fastforce
  obtain r' ps' where unreg: "unregister_prog n (prog_list s) = (r', ps')" by fastforce
  have "prog_list_wf (prog_list s)"
    using assms by (simp add: kstate_wf_def)
  from register_prog_wf [OF this, of ok name] unregister_prog_wf [OF this, of n]
  have "prog_list_wf ps" "prog_list_wf ps'"
    by (simp_all add: reg unreg)
  with assms Some reg unreg show ?thesis
    by (auto simp: sys_auditsec_reg_def kstate_wf_def Let_def)
qed

lemma sys_auditsec_answer_wf [wf_intros]:
  "kstate_wf s \<Longrightarrow> kstate_wf (snd (sys_auditsec_answer tgid answer s))"
  by (simp add: sys_auditsec_answer_def kstate_wf_def up_answer_def)

lemma sys_auditsec_question_wf [wf_intros]:
  assumes "kstate_wf s" "\<And>s. kstate_wf s \<Longrightarrow> kstate_wf (snd (down_question s))"
  shows "kstate_wf (snd (snd (sys_auditsec_question down_question tgid nn cp s)))"
  using assms(1) assms(2) [of s]
  by (cases "down_question s") (auto simp: sys_auditsec_question_def kstate_wf_def up_answer_def)

lemma auditsec_proc_status_write_wf [wf_intros]:
  "kstate_wf s \<Longrightarrow> kstate_wf (snd (auditsec_proc_status_write ok buf s))"
  by (simp add: auditsec_proc_status_write_def kstate_wf_def Let_def clean_prog_list_eq)

lemma kstate_wf_updates [simp]:
  "kstate_wf (up_hook s) = kstate_wf s" "kstate_wf (up_question s) = kstate_wf s"
  "kstate_wf (up_answer s) = kstate_wf s" "kstate_wf (trylock_question s) = kstate_wf s"
  "kstate_wf (set_info cur d s) = kstate_wf s"
  by (simp_all add: kstate_wf_def k_defs)

text \<open>The outcomes of an exchange, in the order in which it can end.\<close>

lemma hook_exchange_cases:
  assumes "hook_exchange down_hook down_answer fill s = Inr (r, s')"
  obtains
    (hook_timeout) r1 s1 where "down_hook s = (r1, s1)" "r1 \<noteq> 0" "r = - EFAULT" "s' = s1"
  | (answer_timeout) s1 s2 r3 s3 where "down_hook s = (0, s1)" "fill s1 = Inr s2"
      "down_answer (up_question s2) = (r3, s3)" "r3 \<noteq> 0" "r = - EFAULT" "s' = up_hook (trylock_question s3)"
  | (answered) s1 s2 s3 where "down_hook s = (0, s1)" "fill s1 = Inr s2"
      "down_answer (up_question s2) = (0, s3)" "r = (if auditsec_answer s3 = 0 then - EACCES else 0)"
      "s' = up_hook s3"
proof (cases "down_hook s")
  case (Pair r1 s1)
  show ?thesis
  proof (cases "r1 = 0")
    case True
    with assms Pair obtain s2 where s2: "fill s1 = Inr s2"
      by (auto simp: hook_exchange_def bind_fault_Inr_iff)
    show ?thesis
    proof (cases "down_answer (up_question s2)")
      case (Pair r3 s3)
      with assms True s2 \<open>down_hook s = (r1, s1)\<close> answer_timeout answered show ?thesis
        by (cases "r3 = 0") (auto simp: hook_exchange_def hook_give_up_def hook_read_answer_def)
    qed
  next
    case False
    with assms Pair hook_timeout show ?thesis
      by (simp add: hook_exchange_def)
  qed
qed

text \<open>A hook stores nothing but the request of the calling task.\<close>

definition fills :: "task_struct \<Rightarrow> (kstate \<Rightarrow> fault + kstate) \<Rightarrow> bool" where
  "fills cur fill = (\<forall>t t'. fill t = Inr t' \<longrightarrow> (\<exists>d. t' = set_info cur d t))"

lemma fills_intros:
  "fills cur (\<lambda>s. Inr (set_info cur d s))"
  "fills cur (\<lambda>s. bind_fault m (\<lambda>x. Inr (set_info cur (f x) s)))"
  "fills cur g \<Longrightarrow> fills cur h \<Longrightarrow> fills cur (\<lambda>s. if c then g s else h s)"
  by (auto simp: fills_def bind_fault_Inr_iff)

definition exchanges :: "task_struct \<Rightarrow> wait \<Rightarrow> wait \<Rightarrow> kstate \<Rightarrow> int \<times> kstate \<Rightarrow> bool" where
  "exchanges cur dh da s r = (\<exists>fill. fills cur fill \<and> hook_exchange dh da fill s = Inr r)"

lemma exchangesI: "hook_exchange dh da fill s = Inr r \<Longrightarrow> fills cur fill \<Longrightarrow> exchanges cur dh da s r"
  by (auto simp: exchanges_def)

lemma hook_run_monitored:
  assumes "prog_is_monitored (task_comm cur) (prog_list s) \<noteq> 0" "hook_run cur dh da c s = Inr r"
  shows "r \<in> {(- ENOMEM, s), (- EFAULT, s)} \<or> daemon_launched s \<and> exchanges cur dh da s r"
  using assms
  by (cases c)
    (auto simp: hook_defs bind_fault_Inr_iff split: if_splits intro!: exchangesI fills_intros)

lemma hook_run_unmonitored:
  "prog_is_monitored (task_comm cur) (prog_list s) = 0 \<Longrightarrow> hook_run cur dh da c s = Inr (0, s)"
  by (cases c) (simp_all add: hook_defs)

subsection \<open>Entry points\<close>

text \<open>Everything that runs the module's code after its initialisation.\<close>

datatype kcall =
    KReg bool int int "char list option"
  | KQuestion wait int bool bool
  | KAnswer int int
  | KStatusWrite bool "char list"
  | KHook task_struct wait wait hook_call

fun kcall_run :: "kcall \<Rightarrow> kstate \<Rightarrow> kstate" where
  "kcall_run (KReg ok tgid state name) s = snd (sys_auditsec_reg ok tgid state name s)"
| "kcall_run (KQuestion dq tgid nn cp) s = snd (snd (sys_auditsec_question dq tgid nn cp s))"
| "kcall_run (KAnswer tgid answer) s = snd (sys_auditsec_answer tgid answer s)"
| "kcall_run (KStatusWrite ok buf) s = snd (auditsec_proc_status_write ok buf s)"
| "kcall_run (KHook cur dh da c) s = (case hook_run cur dh da c s of Inl _ \<Rightarrow> s | Inr (_, s') \<Rightarrow> s')"

definition keeps_wf :: "wait \<Rightarrow> bool" where
  "keeps_wf w = (\<forall>s. kstate_wf s \<longrightarrow> kstate_wf (snd (w s)))"

fun kcall_ok :: "kcall \<Rightarrow> bool" where
  "kcall_ok (KReg ok tgid state name) = (tgid \<noteq> - 1)"
| "kcall_ok (KQuestion dq tgid nn cp) = keeps_wf dq"
| "kcall_ok (KAnswer tgid answer) = True"
| "kcall_ok (KStatusWrite ok buf) = True"
| "kcall_ok (KHook cur dh da c) = (keeps_wf dh \<and> keeps_wf da)"

lemma keeps_wfD: "keeps_wf w \<Longrightarrow> kstate_wf s \<Longrightarrow> w s = (r, s') \<Longrightarrow> kstate_wf s'"
  by (metis keeps_wf_def snd_conv)

lemma exchanges_wf:
  assumes "exchanges cur dh da s (r, s')" "keeps_wf dh" "keeps_wf da" "kstate_wf s"
  shows "kstate_wf s'"
proof -
  from assms(1) obtain fill where f: "fills cur fill" "hook_exchange dh da fill s = Inr (r, s')"
    by (auto simp: exchanges_def)
  have filled: "fill t = Inr t' \<Longrightarrow> kstate_wf t \<Longrightarrow> kstate_wf t'" for t t'
    using f(1) unfolding fills_def by (metis kstate_wf_updates(5))
  from f(2) show ?thesis
  proof (cases rule: hook_exchange_cases)
    case hook_timeout
    with assms show ?thesis by (auto intro: keeps_wfD)
  next
    case (answer_timeout s1 s2 r3 s3)
    with assms filled have "kstate_wf (up_question s2)"
      by (auto dest: keeps_wfD)
    from keeps_wfD [OF assms(3) this answer_timeout(3)] answer_timeout(6) show ?thesis
      by simp
  next
    case (answered s1 s2 s3)
    with assms filled have "kstate_wf (up_question s2)"
      by (auto dest: keeps_wfD)
    from keeps_wfD [OF assms(3) this answered(3)] answered(5) show ?thesis
      by simp
  qed
qed

lemma hook_run_wf:
  assumes "hook_run cur dh da c s = Inr (r, s')" "keeps_wf dh" "keeps_wf da" "kstate_wf s"
  shows "kstate_wf s'"
proof (cases "prog_is_monitored (task_comm cur) (prog_list s) = 0")
  case True
  with assms show ?thesis by (simp add: hook_run_unmonitored)
next
  case False
  from hook_run_monitored [OF this assms(1)] assms show ?thesis
    by (auto intro: exchanges_wf)
qed

lemma kcall_run_wf [wf_intros]:
  assumes "kstate_wf s" "kcall_ok c"
  shows "kstate_wf (kcall_run c s)"
proof (cases c)
  case (KHook cur dh da h)
  with assms show ?thesis
    by (auto split: sum.split intro: hook_run_wf)
qed (use assms in \<open>auto simp: keeps_wf_def intro: wf_intros\<close>)

lemma kcalls_run_wf: "kstate_wf s \<Longrightarrow> \<forall>c \<in> set cs. kcall_ok c \<Longrightarrow> kstate_wf (fold kcall_run cs s)"
  by (induction cs arbitrary: s) (auto intro: kcall_run_wf)

lemma kstate_static_wf: "kstate_wf kstate_static"
  by (simp add: kstate_wf_def kstate_static_def)

lemma auditsec_init_locks:
  "auditsec_init True False True True True s =
     Inr (0, s\<lparr>auditsec_hook_lock := 1, auditsec_question_lock := 0, auditsec_answer_lock := 0\<rparr>)"
  by (simp add: auditsec_init_def Let_def)

subsection \<open>Numbers in the status file\<close>

lemma simple_strtoul_digits:
  "simple_strtoul (digits_of n @ rest) r =
     simple_strtoul rest (r * 10 ^ length (digits_of n) + of_nat n)"
proof (induction n arbitrary: r rest rule: digits_of.induct)
  case (1 n)
  show ?case
  proof (cases "n < 10")
    case True
    then show ?thesis
      by (simp add: digits_of.simps [of n] digit_val_char)
  next
    case False
    have "(of_nat n :: 64 word) = of_nat (n div 10 * 10 + n mod 10)" by simp
    also have "\<dots> = of_nat (n div 10) * 10 + of_nat (n mod 10)" by (simp only: of_nat_add of_nat_mult) simp
    finally have split: "(of_nat n :: 64 word) = of_nat (n div 10) * 10 + of_nat (n mod 10)" .
    show ?thesis
      using False 1 [OF False, where r = r]
      by (simp add: digits_of.simps [of n] digit_val_char split algebra_simps)
  qed
qed

lemma simple_strtol_sprintf_d:
  "simple_strtol (sprintf_d i @ [CHR 0x0A]) = word_of_int i"
proof -
  have nl: "simple_strtoul [CHR 0x0A] r = r" for r
    by (simp add: digit_val_def)
  have nat: "simple_strtoul (digits_of n @ [CHR 0x0A]) 0 = of_nat n" for n
    by (simp only: simple_strtoul_digits nl) simp
  obtain c rest where c: "digits_of (nat i) = c # rest" "c \<noteq> CHR ''-''"
    using digits_of_no_minus by blast
  show ?thesis
  proof (cases "i < 0")
    case True
    then have "word_of_int i = - (of_nat (nat (- i)) :: 64 word)" by simp
    with True show ?thesis
      by (simp add: simple_strtol_def sprintf_d_def show_int_def nat)
  next
    case False
    then show ?thesis
      using c nat [of "nat i"] by (simp add: simple_strtol_def sprintf_d_def show_int_def)
  qed
qed

section \<open>Properties\<close>

text \<open>C4: the hooks fail closed.  Whenever a hook allows an operation (returns 0), either the calling
  task is not monitored and nothing was changed, or the daemon counted as launched, the task got the
  hook lock and stored its request, it was woken by the answer lock, and the answer it found was not
  zero.  No allocation failure, time-out or missing daemon lets a monitored task through.\<close>

theorem hooks_fail_closed:
  assumes "hook_run cur down_hook down_answer c s = Inr (0, s')"
  shows "prog_is_monitored (task_comm cur) (prog_list s) = 0 \<and> s' = s \<or>
         daemon_launched s \<and>
         (\<exists>s1 d s3. down_hook s = (0, s1) \<and> down_answer (up_question (set_info cur d s1)) = (0, s3) \<and>
            auditsec_answer s3 \<noteq> 0 \<and> s' = up_hook s3)"
proof (cases "prog_is_monitored (task_comm cur) (prog_list s) = 0")
  case True
  with assms show ?thesis by (simp add: hook_run_unmonitored)
next
  case False
  from hook_run_monitored [OF this assms] have "daemon_launched s"
    and "exchanges cur down_hook down_answer s (0, s')"
    by (auto simp: errno_defs)
  then obtain fill where f: "fills cur fill" "hook_exchange down_hook down_answer fill s = Inr (0, s')"
    by (auto simp: exchanges_def)
  from f(2) have "\<exists>s1 d s3. down_hook s = (0, s1) \<and>
      down_answer (up_question (set_info cur d s1)) = (0, s3) \<and> auditsec_answer s3 \<noteq> 0 \<and> s' = up_hook s3"
  proof (cases rule: hook_exchange_cases)
    case (answered s1 s2 s3)
    moreover obtain d where "s2 = set_info cur d s1"
      using f(1) answered(2) unfolding fills_def by blast
    ultimately show ?thesis
      by (auto simp: errno_defs split: if_splits)
  qed (simp_all add: errno_defs)
  with \<open>daemon_launched s\<close> show ?thesis by simp
qed

definition sample_task :: task_struct where
  "sample_task = \<lparr>task_pid = 7, task_tgid = 7, task_comm = ''cat''\<rparr>"

definition sample_kstate :: kstate where
  "sample_kstate = kstate_static\<lparr>prog_list := [strncpy_k ''cat'' TASK_COMM_LEN], contextd_pid := 2,
     daemon_launched := True, auditsec_question_lock := 0, auditsec_answer_lock := 0\<rparr>"

lemma sample_monitored: "prog_is_monitored (task_comm sample_task) (prog_list sample_kstate) \<noteq> 0"
  by (simp add: sample_task_def sample_kstate_def prog_is_monitored_iff)

theorem hooks_fail_closed_witness:
  "\<exists>s1 d s3. s1 = sample_kstate \<and>
     snd (sys_auditsec_answer 2 5 (up_question (set_info sample_task d s1))) = s3 \<and> auditsec_answer s3 \<noteq> 0"
proof -
  let ?da = "\<lambda>s. (0, snd (sys_auditsec_answer 2 5 s))"
  have "hook_run sample_task (\<lambda>s. (0, s)) ?da (HSend ''hello'' 5) sample_kstate =
      Inr (0, up_hook (snd (?da (up_question (set_info sample_task (AUDITSEC_MSG ''hello'' 5) sample_kstate)))))"
    using sample_monitored
    by (simp add: hook_defs hook_exchange_def hook_read_answer_def)
      (simp add: sample_kstate_def sys_auditsec_answer_def k_defs)
  from hooks_fail_closed [OF this] sample_monitored show ?thesis
    by auto
qed

text \<open>C31: the module's state stays consistent.  Starting from the initialised module, after any sequence
  of system calls by any processes, writes to the status file and hooks (whose waits let others run,
  keeping the state consistent), the daemon counts as launched exactly while a process is recorded as
  the daemon, no program is monitored without one, and the table holds no name twice.\<close>

theorem kernel_state_consistent:
  assumes "auditsec_init True False True True True kstate_static = Inr (r, s0)"
    and "\<forall>c \<in> set cs. kcall_ok c"
  shows "kstate_wf (fold kcall_run cs s0)"
proof (rule kcalls_run_wf)
  show "kstate_wf s0"
    using assms(1) by (auto simp: auditsec_init_locks kstate_wf_def kstate_static_def)
qed (rule assms(2))

theorem kernel_state_consistent_witness:
  "kstate_wf (fold kcall_run [KReg True 2 1 None, KReg True 2 1 (Some ''cat''), KAnswer 3 1]
     (kstate_static\<lparr>auditsec_hook_lock := 1, auditsec_question_lock := 0, auditsec_answer_lock := 0\<rparr>))"
  by (rule kernel_state_consistent [of 0]) (simp_all add: auditsec_init_locks)

text \<open>C34: only the registered daemon talks to the module.  While a process is recorded as the daemon,
  the three system calls called by any other process fail with \<open>EFAULT\<close>, copy nothing to it and change
  nothing.\<close>

theorem only_daemon_controls:
  assumes "contextd_pid s \<noteq> - 1" "contextd_pid s \<noteq> tgid"
  shows "sys_auditsec_reg ok tgid state name s = (- EFAULT, s) \<and>
         sys_auditsec_question down_question tgid nn cp s = (- EFAULT, None, s) \<and>
         sys_auditsec_answer tgid answer s = (- EFAULT, s)"
  using assms by (simp add: sys_auditsec_reg_def sys_auditsec_question_def sys_auditsec_answer_def)

theorem only_daemon_controls_witness:
  "sys_auditsec_answer 9 1 sample_kstate = (- EFAULT, sample_kstate)"
  using only_daemon_controls [of sample_kstate 9] by (simp add: sample_kstate_def)

text \<open>A stopped daemon lets everything through.  In a consistent state in which the daemon does not
  count as launched, every hook returns 0 for every task and changes nothing: stopping the daemon
  empties the table, so the refusals "daemon not launched" in the hooks are not reached.\<close>

theorem stopped_daemon_allows_all:
  assumes "kstate_wf s" "\<not> daemon_launched s"
  shows "hook_run cur down_hook down_answer c s = Inr (0, s)"
  using assms by (intro hook_run_unmonitored) (simp add: kstate_wf_def prog_is_monitored_def)

theorem stopped_daemon_allows_all_witness:
  "hook_run sample_task (\<lambda>s. (- ETIME, s)) (\<lambda>s. (- ETIME, s)) (HSend ''hello'' 5)
     (snd (sys_auditsec_reg True 2 0 None sample_kstate)) =
   Inr (0, snd (sys_auditsec_reg True 2 0 None sample_kstate))"
  by (rule stopped_daemon_allows_all)
    (simp_all add: sys_auditsec_reg_def clean_prog_list_eq kstate_wf_def sample_kstate_def)

text \<open>Reading the status file and writing the text back gives the module the recorded process id
  again: \<open>simple_strtol\<close> of what \<open>auditsec_proc_status_read\<close> prints is the id, so writing it back
  changes nothing unless the id is a multiple of \<open>2^64\<close>.\<close>

theorem status_file_roundtrip:
  "auditsec_proc_status_write True (snd (auditsec_proc_status_read 0 s)) s =
     (int (fst (auditsec_proc_status_read 0 s)),
      if (word_of_int (contextd_pid s) :: 64 word) = 0
      then s\<lparr>daemon_launched := False, contextd_pid := - 1, prog_list := []\<rparr> else s)"
proof -
  have "cstring (sprintf_d (contextd_pid s) @ [CHR 0x0A]) = sprintf_d (contextd_pid s) @ [CHR 0x0A]"
    using show_int_no_NUL by (intro cstring_id) (auto simp: sprintf_d_def)
  then show ?thesis
    by (simp add: auditsec_proc_status_write_def auditsec_proc_status_read_def Let_def
        simple_strtol_sprintf_d clean_prog_list_eq)
qed

text \<open>Writing anything that is not a number to the status file stops the module as writing 0 does:
  text whose first character is neither a digit nor a minus sign counts as 0, so the daemon is
  forgotten and the table emptied.\<close>

theorem status_garbage_resets:
  assumes "digit_val c = None" "c \<noteq> CHR ''-''"
  shows "snd (auditsec_proc_status_write True (c # text) s) =
           s\<lparr>daemon_launched := False, contextd_pid := - 1, prog_list := []\<rparr>"
  using assms
  by (simp add: auditsec_proc_status_write_def Let_def simple_strtol_def clean_prog_list_eq)

theorem status_garbage_resets_witness:
  "snd (auditsec_proc_status_write True ''start'' sample_kstate) =
     sample_kstate\<lparr>daemon_launched := False, contextd_pid := - 1, prog_list := []\<rparr>"
  by (rule status_garbage_resets) (simp_all add: digit_val_def)

text \<open>\<open>/proc/contextd/programs\<close> shows the table while its text fits a page, and is written past the
  page otherwise.\<close>

theorem proc_programs_page:
  assumes "\<forall>n. ok n" "prog_list s \<noteq> []"
    and "\<forall>p \<in> set (prog_list s). terminated p \<and> length p = TASK_COMM_LEN"
  shows "if length (prog_lines (prog_list s)) < PAGE_SIZE
         then \<exists>page. auditsec_proc_programs_read ok 0 s = Inr (length (prog_lines (prog_list s)), page) \<and>
                buf_cstring page = Inr (prog_lines (prog_list s))
         else auditsec_proc_programs_read ok 0 s = Inl OutOfBounds"
proof -
  obtain b where b: "prog_liste ok (prog_list s) = Inr (Some b)"
    "buf_cstring b = Inr (prog_lines (prog_list s))"
    using prog_liste_string [OF assms] by blast
  have "NUL \<notin> set (prog_lines (prog_list s))"
    by (simp add: prog_lines_def)
  with b show ?thesis
    by (auto simp: auditsec_proc_programs_read_def buf_write_put buf_cstring_put buf_alloc_def)
qed

theorem proc_programs_page_witness:
  "\<exists>page. auditsec_proc_programs_read (\<lambda>n. True) 0 sample_kstate = Inr (4, page) \<and>
          buf_cstring page = Inr (''cat'' @ [CHR 0x0A])"
proof -
  have lines: "prog_lines (prog_list sample_kstate) = ''cat'' @ [CHR 0x0A]"
    by (simp add: sample_kstate_def prog_lines_def cstring_strncpy_k TASK_COMM_LEN_def)
  have "prog_list sample_kstate \<noteq> []"
    "\<forall>p \<in> set (prog_list sample_kstate). terminated p \<and> length p = TASK_COMM_LEN"
    by (simp_all add: sample_kstate_def terminated_strncpy_k TASK_COMM_LEN_def)
  with proc_programs_page [of "\<lambda>n. True" sample_kstate] show ?thesis
    by (simp add: lines PAGE_SIZE_def eval_nat_numeral)
qed

text \<open>Initialisation leaves the hook lock free and the question and answer locks taken.  It checks
  the creation of the programs file twice and never that of the status file: when only the latter
  fails, a null pointer is written through.\<close>

theorem init_status_unchecked:
  "auditsec_init True False True True True s =
     Inr (0, s\<lparr>auditsec_hook_lock := 1, auditsec_question_lock := 0, auditsec_answer_lock := 0\<rparr>) \<and>
   auditsec_init True False True True False s = Inl NullDeref"
  by (simp add: auditsec_init_def Let_def)

end
