(* ===== verification/Daemon.thy ===== *)
theory Daemon
  imports Context_Client Configuration_XML Auditsec_Kernel
begin

text \<open>
  The daemon \<open>contextd\<close>: the dispatch of events to its plugins (\<open>eventdispatcher.cpp\<close>), the current domain
  (\<open>domainholder.cpp\<close>), the questions to the intrusion prevention system (\<open>pigahandler.cpp\<close>) and the registered
  applications (\<open>contextclient.cpp\<close>).

  The state is one record of the members of these objects, together with what the daemon does to the outside:
  the events its plugins receive, the signals, the processes it kills, the messages to the user and the log,
  and the answers to the kernel.  The outside's part in a call is a value of type \<open>env\<close>: the user's
  answer, the line read from the socket (\<open>None\<close> if there is none in time), the links of the process
  file system, the clock, and the garbage in the flag that \<open>updateState\<close> does not initialise.
\<close>

datatype priority = NOTIFY_DEBUG | NOTIFY_INFO | NOTIFY_NORMAL | NOTIFY_ERROR | NOTIFY_CRITICAL

datatype plugin_event =
    NotifyEvent priority string
  | TransitionDemandEvent int domain string transition
  | ReloadEvent
  | RestartEvent

record client =
  cl_currentState :: "(string, string) omap"
  cl_previousState :: "(string, string) omap"
  cl_id :: string
  cl_program :: program
  cl_pid :: int

record daemon =
  conf :: configuration
  clients :: "(int, client) omap"
  c_domain :: domain
  dh_default :: domain
  plugins :: "string list"
  piga_enabled :: bool
  traceId :: int
  programList_k :: "string list"
  delivered :: "(string \<times> plugin_event) list"
  domain_signals :: "(domain \<times> domain) list"
  killed :: "int list"
  user_notified :: "(string \<times> string) list"
  syslog :: "string list"
  kernel_answers :: "bool list"

record env =
  user_accepts :: "string \<Rightarrow> string \<Rightarrow> string \<Rightarrow> bool"
  piga_line :: "string option"
  exe_link :: "int \<Rightarrow> string"
  proc_stat :: "int \<Rightarrow> string option"
  proc_seccon :: "int \<Rightarrow> string option"
  now :: int
  garbage :: bool

section \<open>Events\<close>

definition setCurrentDomain :: "domain \<Rightarrow> daemon \<Rightarrow> domain \<times> daemon" where
  "setCurrentDomain dm d =
     (c_domain d, d\<lparr>c_domain := dm, domain_signals := domain_signals d @ [(c_domain d, dm)]\<rparr>)"

text \<open>
  Only the domain holder changes the state of the daemon when it receives an event, and not on notifications.
  What the other plugins do with the events delivered to them is modelled in their own theories.
\<close>

definition send_message :: "priority \<Rightarrow> string \<Rightarrow> daemon \<Rightarrow> daemon" where
  "send_message prio msg d =
     d\<lparr>delivered := delivered d @ map (\<lambda>p. (p, NotifyEvent prio msg)) (plugins d)\<rparr>"

definition sendCritical :: "string \<Rightarrow> daemon \<Rightarrow> daemon" where "sendCritical = send_message NOTIFY_CRITICAL"
definition sendError :: "string \<Rightarrow> daemon \<Rightarrow> daemon" where "sendError = send_message NOTIFY_ERROR"
definition sendNotification :: "string \<Rightarrow> daemon \<Rightarrow> daemon" where "sendNotification = send_message NOTIFY_INFO"
definition sendDebug :: "string \<Rightarrow> daemon \<Rightarrow> daemon" where "sendDebug = send_message NOTIFY_DEBUG"

definition holder_eventHandler :: "plugin_event \<Rightarrow> daemon \<Rightarrow> daemon" where
  "holder_eventHandler ev d =
     (if ev = RestartEvent
      then sendNotification ''The global domain has been reset'' (snd (setCurrentDomain (dh_default d) d))
      else d)"

fun send_to :: "string list \<Rightarrow> plugin_event \<Rightarrow> daemon \<Rightarrow> daemon" where
  "send_to [] ev d = d"
| "send_to (p # ps) ev d =
     (let d = d\<lparr>delivered := delivered d @ [(p, ev)]\<rparr>;
          d = (if p = ''domainHolder'' then holder_eventHandler ev d else d)
      in send_to ps ev d)"

definition sendEvent :: "plugin_event \<Rightarrow> daemon \<Rightarrow> daemon" where
  "sendEvent ev d = send_to (plugins d) ev d"

text \<open>The loop runs while a plugin has been found, so not at all.\<close>

fun plugin_loop :: "string \<Rightarrow> string list \<Rightarrow> string option \<Rightarrow> string option" where
  "plugin_loop name [] ret = ret"
| "plugin_loop name (p # ps) ret =
     (if ret = None then ret else plugin_loop name ps (if p = name then Some p else ret))"

definition getPluginByName :: "string \<Rightarrow> daemon \<Rightarrow> string option" where
  "getPluginByName name d = plugin_loop name (plugins d) None"

definition addPlugin :: "string \<Rightarrow> daemon \<Rightarrow> bool \<times> daemon" where
  "addPlugin name d =
     (if getPluginByName name d = None then (True, d\<lparr>plugins := plugins d @ [name]\<rparr>) else (False, d))"

definition getPluginNames :: "daemon \<Rightarrow> string list" where
  "getPluginNames d = plugins d"

definition init_plugin :: "string \<times> string \<Rightarrow> daemon \<Rightarrow> daemon" where
  "init_plugin p d =
     (let (ok, d) = addPlugin (fst p) d
      in if \<not> ok then sendError (''EventDispatcher::EventDispatcher() : Failed to add the plugin '' @ snd p
                                  @ (if snd p = ''logger'' then '' ! Already present ?'' else ''! Already present ?'')) d
         else sendNotification (''EventDispatcher::EventDispatcher() : Plugin '' @ snd p @ '' added !'') d)"

text \<open>
  The domain holder is always there.  Each of the other plugins, a name and what the messages call
  it, is compiled in unless its switch is set: \<open>disabled\<close> holds the switches that are.
\<close>

definition optional_plugins :: "(string \<times> string \<times> string) list" where
  "optional_plugins =
     [(''PLUGIN_DISABLE_LOGGER'', ''Contextd_Logger'', ''logger''),
      (''PLUGIN_DISABLE_KILLER'', ''Contextd_Killer'', ''killer''),
      (''PLUGIN_DISABLE_IPTABLE_BLOCKER'', ''Contextd_IPTablesBlocker'', ''IPTable-Blocker''),
      (''PLUGIN_DISABLE_SELINUX'', ''SELinux'', ''SELinux''),
      (''PLUGIN_DISABLE_XORG'', ''Contextd_Xorg'', ''Xorg'')]"

definition initPlugins :: "string list \<Rightarrow> daemon \<Rightarrow> daemon" where
  "initPlugins disabled d =
     (if plugins d \<noteq> [] then d
      else fold init_plugin
             ((''domainHolder'', ''ContextHolder'')
              # map snd (filter (\<lambda>p. fst p \<notin> set disabled) optional_plugins)) d)"

section \<open>Domains\<close>

definition setDefaultDomain :: "domain \<Rightarrow> daemon \<Rightarrow> domain \<times> daemon" where
  "setDefaultDomain dm d =
     (if \<not> domain_eq (dh_default d) Domain0
      then (dm, sendError ''Domain holder cannot set the default domain as it has already been set'' d)
      else (dm, d\<lparr>dh_default := dm\<rparr>))"

definition resetToDefaultDomain :: "daemon \<Rightarrow> domain \<times> daemon" where
  "resetToDefaultDomain d = setCurrentDomain (dh_default d) d"

section \<open>Intrusion prevention\<close>

datatype piga_decision = PigaError | PigaDisabled | PigaAllowed | PigaRefused | PigaKilled

abbreviation CONTEXT_PIGA_REFUSE :: string where "CONTEXT_PIGA_REFUSE \<equiv> ''PIGA_REFUSE''"
abbreviation CONTEXT_PIGA_KILL :: string where "CONTEXT_PIGA_KILL \<equiv> ''PIGA_KILL''"

definition appPpid :: "framework \<Rightarrow> env \<Rightarrow> int \<Rightarrow> int" where
  "appPpid F E pid =
     (case proc_stat E pid of
        None \<Rightarrow> - 1
      | Some line \<Rightarrow>
          let fields = str_split (CHR '' '') line
          in if length fields < 4 then - 1 else toInt0 F (fields ! 3))"

definition quote_escaped :: "string \<Rightarrow> string" where
  "quote_escaped s = str_replace [CHR 0x22] [CHR 0x5C, CHR 0x22] s"

definition state_text :: "string \<times> string \<Rightarrow> string" where
  "state_text kv =
     qarg (qarg ('' %1='' @ [CHR 0x22] @ ''%2'' @ [CHR 0x22]) (fst kv)) (quote_escaped (snd kv))"

definition writeTransitionTrace :: "framework \<Rightarrow> env \<Rightarrow> int \<Rightarrow> client \<Rightarrow> transition \<Rightarrow> string \<Rightarrow> string" where
  "writeTransitionTrace F E trace c t decision =
     (let s = qarg (qarg ''id=%1 timestamp=%2'' (of_int_str F trace)) (of_int_str F (now E));
          s = s @ (if decision = CONTEXT_ACCEPT then '' allowed''
                   else if decision = CONTEXT_REFUSE then '' refused''
                   else if decision = CONTEXT_PIGA_REFUSE then '' piga-refused''
                   else if decision = CONTEXT_PIGA_KILL then '' piga-killed''
                   else '' unknown-decision'');
          s = s @ qarg (qarg ('' { transition from '' @ [CHR 0x22] @ ''%1'' @ [CHR 0x22] @ '' to '' @ [CHR 0x22] @ ''%2'' @ [CHR 0x22] @ '' }'')
                     (quote_escaped (dom_name (transit_from t)))) (quote_escaped (dom_name (tn_transit_to t)));
          s = s @ qarg (qarg (qarg ('' for program='' @ [CHR 0x22] @ ''%1'' @ [CHR 0x22] @ '' pid=%2 ppid=%3'')
                     (quote_escaped (app_name (cl_program c)))) (of_int_str F (cl_pid c)))
                     (of_int_str F (appPpid F E (cl_pid c)));
          s = s @ (case proc_seccon E (cl_pid c) of
                     None \<Rightarrow> []
                   | Some seccon \<Rightarrow> qarg ('' selinux_context='' @ [CHR 0x22] @ ''%1'' @ [CHR 0x22]) (quote_escaped seccon))
      in s @ concat (map state_text (cl_currentState c)))"

definition waitForNextDecision :: "framework \<Rightarrow> env \<Rightarrow> int \<Rightarrow> daemon \<Rightarrow> piga_decision" where
  "waitForNextDecision F E trace d =
     (if \<not> piga_enabled d then PigaDisabled
      else case piga_line E of
        None \<Rightarrow> PigaError
      | Some line \<Rightarrow>
          (case str_split (CHR '' '') line of
             [n, w] \<Rightarrow>
               if toInt0 F n = trace then
                 if w = ''allowed'' then PigaAllowed
                 else if w = ''killed'' then PigaKilled
                 else PigaRefused
               else PigaError
           | _ \<Rightarrow> PigaError))"

definition sendTrace :: "framework \<Rightarrow> env \<Rightarrow> client \<Rightarrow> transition \<Rightarrow> string \<Rightarrow> daemon \<Rightarrow> piga_decision \<times> daemon" where
  "sendTrace F E c t decision d =
     (if \<not> piga_enabled d then (PigaDisabled, d)
      else
        let d = d\<lparr>traceId := traceId d + 1\<rparr>;
            d = d\<lparr>syslog := syslog d @ [writeTransitionTrace F E (traceId d) c t decision]\<rparr>
        in (waitForNextDecision F E (traceId d) d, d))"

definition logTrace :: "framework \<Rightarrow> env \<Rightarrow> client \<Rightarrow> transition \<Rightarrow> string \<Rightarrow> daemon \<Rightarrow> daemon" where
  "logTrace F E c t decision d =
     (if \<not> piga_enabled d then d
      else d\<lparr>syslog := syslog d @ [writeTransitionTrace F E (traceId d) c t decision]\<rparr>)"

definition piga_enable :: "bool \<Rightarrow> daemon \<Rightarrow> daemon" where
  "piga_enable v d = d\<lparr>piga_enabled := v\<rparr>"

section \<open>Applications\<close>

definition ContextClient :: "string \<Rightarrow> program \<Rightarrow> int \<Rightarrow> client" where
  "ContextClient dbusId program pid =
     \<lparr>cl_currentState = [], cl_previousState = [], cl_id = dbusId, cl_program = program, cl_pid = pid\<rparr>"

definition updateCurrentState :: "(string, string) omap \<Rightarrow> client \<Rightarrow> client" where
  "updateCurrentState context c =
     (if cl_currentState c = context then c
      else c\<lparr>cl_previousState := cl_currentState c, cl_currentState := context\<rparr>)"

definition onAcceptHooks :: "framework \<Rightarrow> env \<Rightarrow> client \<Rightarrow> transition \<Rightarrow> daemon \<Rightarrow> string \<times> daemon" where
  "onAcceptHooks F E c t d =
     (let (decision, d) = sendTrace F E c t CONTEXT_ACCEPT d
      in if decision = PigaAllowed \<or> decision = PigaDisabled then (CONTEXT_ACCEPT, d)
         else if decision = PigaKilled then
           let d = logTrace F E c t CONTEXT_PIGA_KILL d
           in (CONTEXT_REFUSE, d\<lparr>killed := killed d @ [cl_pid c]\<rparr>)
         else (CONTEXT_REFUSE, logTrace F E c t CONTEXT_PIGA_REFUSE d))"

definition onAcceptTransition :: "client \<Rightarrow> transition \<Rightarrow> daemon \<Rightarrow> daemon" where
  "onAcceptTransition c t d =
     (let (_, d) = setCurrentDomain (tn_transit_to t) d;
          d = sendEvent (TransitionDemandEvent (cl_pid c) (transit_from t) CONTEXT_ACCEPT t) d
      in if notifyUser t
         then d\<lparr>user_notified := user_notified d @ [(app_name (tn_program t), dom_name (tn_transit_to t))]\<rparr>
         else d)"

definition onRefuseTransition :: "framework \<Rightarrow> env \<Rightarrow> client \<Rightarrow> transition \<Rightarrow> daemon \<Rightarrow> daemon" where
  "onRefuseTransition F E c t d =
     sendEvent (TransitionDemandEvent (cl_pid c) (transit_from t) CONTEXT_REFUSE t) (logTrace F E c t CONTEXT_REFUSE d)"

definition onNoTransitionHasBeenFound :: "client \<Rightarrow> daemon \<Rightarrow> daemon" where
  "onNoTransitionHasBeenFound c d =
     sendEvent (TransitionDemandEvent (cl_pid c) (c_domain d) CONTEXT_REFUSE Transition0) d"

text \<open>\<open>updateState\<close> up to the return or the point where it gives its lock back, the part after that point,
  and the whole.  The messages about the syntax of a document that its reader sends to the log besides are not recorded.\<close>

datatype update = Returned string daemon | Unlocked client transition daemon

definition updateState_locked :: "framework \<Rightarrow> env \<Rightarrow> int \<Rightarrow> string \<Rightarrow> daemon \<Rightarrow> fault + update" where
  "updateState_locked F E pid xml d =
     bind_fault (parse_context xml) (\<lambda>(parseOK, context).
       if parseOK then
         let c = updateCurrentState context (ovalue (ContextClient [] Program0 0) (clients d) pid);
             d = d\<lparr>clients := oinsert pid c (clients d)\<rparr>;
             t = getFirstMatchingTransition F (conf d) (cl_program c) (c_domain d) (cl_currentState c)
         in if tn_valid t then
              if \<not> promptUser t \<or>
                 user_accepts E (dom_name (c_domain d)) (dom_name (tn_transit_to t)) (app_name (cl_program c))
              then Inr (Unlocked c t d)
              else Inr (Returned CONTEXT_REFUSE (onRefuseTransition F E c t d))
            else Inr (Returned CONTEXT_REFUSE (onNoTransitionHasBeenFound c d))
       else if \<not> garbage E then
         Inr (Returned DBUS_ERROR
              (sendNotification (''ContextClient::contextFromXML: The client is already in the context ('' @ xml @ '')'') d))
       else Inr (Returned DBUS_ERROR (sendError (''ContextClient::contextFromXML failed, XML('' @ xml @ '')'') d)))"

definition accept_transition :: "framework \<Rightarrow> env \<Rightarrow> client \<Rightarrow> transition \<Rightarrow> daemon \<Rightarrow> string \<times> daemon" where
  "accept_transition F E c t d =
     (let (hookRes, d) = onAcceptHooks F E c t d
      in (hookRes, if hookRes = CONTEXT_ACCEPT then onAcceptTransition c t d else d))"

definition updateState :: "framework \<Rightarrow> env \<Rightarrow> int \<Rightarrow> string \<Rightarrow> daemon \<Rightarrow> fault + string \<times> daemon" where
  "updateState F E pid xml d =
     bind_fault (updateState_locked F E pid xml d) (\<lambda>u.
       case u of
         Returned r d \<Rightarrow> Inr (r, d)
       | Unlocked c t d \<Rightarrow> Inr (accept_transition F E c t d))"

definition client_required_domain :: "framework \<Rightarrow> int \<Rightarrow> string \<Rightarrow> daemon \<Rightarrow> fault + string \<times> daemon" where
  "client_required_domain F pid xml d =
     bind_fault (parse_context xml) (\<lambda>(parseOK, context).
       if parseOK then
         let c = ovalue (ContextClient [] Program0 0) (clients d) pid;
             t = getFirstMatchingTransition F (conf d) (cl_program c) (c_domain d) context
         in if tn_valid t
            then Inr (dom_name (tn_transit_to t),
                   sendDebug (''The application '' @ [CHR 0x27] @ app_name (cl_program c) @ [CHR 0x27] @ '' will accept this context ('' @
                     xml @ '') in the domain '' @ dom_name (tn_transit_to t)) d)
            else Inr (CONTEXT_REFUSE,
                   sendDebug (''The application '' @ [CHR 0x27] @ app_name (cl_program c) @ [CHR 0x27] @
                     '' has no domain that would accept this context ('' @ xml @ '')'') d)
       else Inr (DBUS_ERROR, sendError (''ContextClient::contextFromXML failed, XML('' @ xml @ '')'') d))"

definition registerForContextChangesUpdates :: string where
  "registerForContextChangesUpdates = []"

end
