(* ===== verification/Daemon_Contexts.thy ===== *)
theory Daemon_Contexts
  imports Daemon
begin

text \<open>
  The ways into the daemon: calls over the message bus (\<open>dbus-context.cpp\<close>), questions of the kernel
  (\<open>kernel-context.cpp\<close>, \<open>auditsec_lsm/kthread.cpp\<close>), the cleaning of the table of applications
  (\<open>clientscleaner.cpp\<close>), and the start and the signals of the process (\<open>contextd.cpp\<close>).

  The process behind a message is an option: \<open>None\<close> if the bus does not know it.  The kernel's side of the
  system calls is theory \<open>Auditsec_Kernel\<close>; a question is the \<open>auditsec_info\<close> that it hands over.
\<close>

section \<open>Calls over the message bus\<close>

definition getFullPathFromPID :: "env \<Rightarrow> int \<Rightarrow> string" where
  "getFullPathFromPID E pid = exe_link E pid"

definition dbus_register_application ::
    "framework \<Rightarrow> env \<Rightarrow> string \<Rightarrow> int option \<Rightarrow> string \<Rightarrow> daemon \<Rightarrow> string \<times> daemon" where
  "dbus_register_application F E dbus_id res appName d =
     (case res of
        None \<Rightarrow> (DBUS_ERROR, d)
      | Some pid \<Rightarrow>
          if pid \<noteq> 0 \<and> \<not> ocontains (clients d) pid then
            let full_path = getFullPathFromPID E pid
            in if isProgramAllowed (conf d) appName full_path then
                 let program = getProgramByName F (conf d) appName False;
                     d = d\<lparr>clients := oinsert pid (ContextClient dbus_id program pid) (clients d)\<rparr>
                 in (DBUS_SUCCESS, sendNotification (''DBusContext: '' @ appName @ '' has been successfuly registered.'') d)
               else (DBUS_ERROR, sendError (''DBusContext: '' @ full_path @ '' cannot be identified as '' @ appName @ ''.'') d)
          else (DBUS_ERROR, d))"

definition dbus_is_registered :: "int option \<Rightarrow> daemon \<Rightarrow> string" where
  "dbus_is_registered res d =
     (case res of
        None \<Rightarrow> DBUS_ERROR
      | Some pid \<Rightarrow> if ocontains (clients d) pid then DBUS_SUCCESS else DBUS_ERROR_NOT_REGISTERED)"

definition dbus_domain_changed ::
    "framework \<Rightarrow> env \<Rightarrow> int option \<Rightarrow> string \<Rightarrow> daemon \<Rightarrow> fault + string \<times> daemon" where
  "dbus_domain_changed F E res xml d =
     (case res of
        None \<Rightarrow> Inr (DBUS_ERROR, d)
      | Some pid \<Rightarrow>
          if ocontains (clients d) pid then updateState F E pid xml d else Inr (DBUS_ERROR_NOT_REGISTERED, d))"

definition dbus_required_domain ::
    "framework \<Rightarrow> int option \<Rightarrow> string \<Rightarrow> daemon \<Rightarrow> fault + string \<times> daemon" where
  "dbus_required_domain F res xml d =
     (case res of
        None \<Rightarrow> Inr (DBUS_ERROR, d)
      | Some pid \<Rightarrow>
          if ocontains (clients d) pid then client_required_domain F pid xml d
          else Inr (DBUS_ERROR_NOT_REGISTERED, d))"

definition dbus_current_domain :: "int option \<Rightarrow> daemon \<Rightarrow> string" where
  "dbus_current_domain res d =
     (case res of
        None \<Rightarrow> DBUS_ERROR
      | Some pid \<Rightarrow> if ocontains (clients d) pid then dom_name (c_domain d) else DBUS_ERROR_NOT_REGISTERED)"

definition dbus_register_for_updates :: "int option \<Rightarrow> daemon \<Rightarrow> string" where
  "dbus_register_for_updates res d =
     (case res of
        None \<Rightarrow> DBUS_ERROR
      | Some pid \<Rightarrow>
          if ocontains (clients d) pid then registerForContextChangesUpdates else DBUS_ERROR_NOT_REGISTERED)"

section \<open>Questions of the kernel\<close>

abbreviation KERNEL_SUCCESS :: string where "KERNEL_SUCCESS \<equiv> ''KernelContext: success''"
abbreviation KERNEL_ERROR :: string where "KERNEL_ERROR \<equiv> ''KernelContext: error''"

definition answer :: "bool \<Rightarrow> daemon \<Rightarrow> daemon" where
  "answer b d = d\<lparr>kernel_answers := kernel_answers d @ [b]\<rparr>"

definition kernel_is_registered :: "auditsec_info \<Rightarrow> daemon \<Rightarrow> string" where
  "kernel_is_registered usai d = (if ocontains (clients d) (ai_pid usai) then KERNEL_SUCCESS else KERNEL_ERROR)"

definition kernel_register_application ::
    "framework \<Rightarrow> env \<Rightarrow> auditsec_info \<Rightarrow> string \<Rightarrow> daemon \<Rightarrow> string \<times> daemon" where
  "kernel_register_application F E usai appName d =
     (let pid = ai_pid usai
      in if pid \<noteq> 0 \<and> \<not> ocontains (clients d) pid then
           let full_path = getFullPathFromPID E pid
           in if isProgramAllowed (conf d) appName full_path then
                let program = getProgramByName F (conf d) appName False;
                    d = d\<lparr>clients := oinsert pid (ContextClient [] program pid) (clients d)\<rparr>
                in (KERNEL_SUCCESS, sendNotification (''KernelContext: '' @ appName @ '' has been successfuly registered.'') d)
              else (KERNEL_ERROR, sendError (''KernelContext: '' @ full_path @ '' cannot be identified as '' @ appName @ ''.'') d)
         else (KERNEL_ERROR, d))"

definition kernel_domain_changed ::
    "framework \<Rightarrow> env \<Rightarrow> auditsec_info \<Rightarrow> string \<Rightarrow> daemon \<Rightarrow> fault + string \<times> daemon" where
  "kernel_domain_changed F E usai xml d =
     (if ocontains (clients d) (ai_pid usai) then
        bind_fault (updateState F E (ai_pid usai) xml d) (\<lambda>(r, d).
          if r = CONTEXT_ACCEPT then Inr (CONTEXT_ACCEPT, answer True d)
          else Inr (KERNEL_ERROR, answer False d))
      else Inr (KERNEL_ERROR, answer True d))"

definition kernel_required_domain ::
    "framework \<Rightarrow> auditsec_info \<Rightarrow> string \<Rightarrow> daemon \<Rightarrow> fault + string \<times> daemon" where
  "kernel_required_domain F usai xml d =
     (if ocontains (clients d) (ai_pid usai) then client_required_domain F (ai_pid usai) xml d
      else Inr (KERNEL_ERROR, d))"

definition kernel_current_domain :: "auditsec_info \<Rightarrow> daemon \<Rightarrow> string" where
  "kernel_current_domain usai d =
     (if ocontains (clients d) (ai_pid usai) then dom_name (c_domain d) else KERNEL_ERROR)"

definition kernel_register_for_updates :: "auditsec_info \<Rightarrow> daemon \<Rightarrow> string" where
  "kernel_register_for_updates usai d =
     (if ocontains (clients d) (ai_pid usai) then registerForContextChangesUpdates else KERNEL_ERROR)"

text \<open>One round of the loop of \<open>KThread::run\<close>, and the rounds for the questions that come before the
  system call fails or the thread is told to stop, each with the outside's part in it.  The two arrays
  are read as strings.  The kernel has four types of questions, so that the default of the \<open>switch\<close> is not reached.\<close>

definition c_text :: "char list \<Rightarrow> fault + string" where
  "c_text b = (if terminated b then Inr (cstring b) else Inl OutOfBounds)"

definition kthread_path ::
    "framework \<Rightarrow> env \<Rightarrow> auditsec_info \<Rightarrow> char list \<Rightarrow> daemon \<Rightarrow> fault + daemon" where
  "kthread_path F E usai fullpath d =
     bind_fault (c_text fullpath) (\<lambda>path.
       bind_fault (xmlContext (Some ''fullpath'') (Some path) [(None, None)]) (\<lambda>xml.
         bind_fault (kernel_domain_changed F E usai xml d) (\<lambda>(_, d). Inr d)))"

definition kthread_round :: "framework \<Rightarrow> env \<Rightarrow> auditsec_info \<Rightarrow> daemon \<Rightarrow> fault + daemon" where
  "kthread_round F E usai d =
     bind_fault (c_text (ai_execname usai)) (\<lambda>execname.
       let d = (if kernel_is_registered usai d = KERNEL_ERROR
                then snd (kernel_register_application F E usai execname d) else d)
       in case ai_struct usai of
            AUDITSEC_FILE name fullpath msk \<Rightarrow> kthread_path F E usai fullpath d
          | AUDITSEC_DIR name fullpath mode \<Rightarrow> kthread_path F E usai fullpath d
          | AUDITSEC_SOCKET ty addr \<Rightarrow> Inr (answer True d)
          | AUDITSEC_MSG msg sz \<Rightarrow> Inr (answer True d))"

fun kthread_run :: "framework \<Rightarrow> (env \<times> auditsec_info) list \<Rightarrow> daemon \<Rightarrow> fault + daemon" where
  "kthread_run F [] d = Inr d"
| "kthread_run F ((E, usai) # qs) d = bind_fault (kthread_round F E usai d) (kthread_run F qs)"

text \<open>The same round in two pieces, up to where \<open>updateState\<close> has given back its lock, and the rest: \<open>Waiting\<close> is a question whose
  transition is decided but not carried out yet.\<close>

datatype kernel_progress = Answered daemon | Waiting client transition daemon

definition kthread_path_locked ::
    "framework \<Rightarrow> env \<Rightarrow> auditsec_info \<Rightarrow> char list \<Rightarrow> daemon \<Rightarrow> fault + kernel_progress" where
  "kthread_path_locked F E usai fullpath d =
     bind_fault (c_text fullpath) (\<lambda>path.
       bind_fault (xmlContext (Some ''fullpath'') (Some path) [(None, None)]) (\<lambda>xml.
         if ocontains (clients d) (ai_pid usai) then
           bind_fault (updateState_locked F E (ai_pid usai) xml d) (\<lambda>u.
             case u of
               Returned r d \<Rightarrow> Inr (Answered (answer (r = CONTEXT_ACCEPT) d))
             | Unlocked c t d \<Rightarrow> Inr (Waiting c t d))
         else Inr (Answered (answer True d))))"

definition kthread_round_locked :: "framework \<Rightarrow> env \<Rightarrow> auditsec_info \<Rightarrow> daemon \<Rightarrow> fault + kernel_progress" where
  "kthread_round_locked F E usai d =
     bind_fault (c_text (ai_execname usai)) (\<lambda>execname.
       let d = (if kernel_is_registered usai d = KERNEL_ERROR
                then snd (kernel_register_application F E usai execname d) else d)
       in case ai_struct usai of
            AUDITSEC_FILE name fullpath msk \<Rightarrow> kthread_path_locked F E usai fullpath d
          | AUDITSEC_DIR name fullpath mode \<Rightarrow> kthread_path_locked F E usai fullpath d
          | AUDITSEC_SOCKET ty addr \<Rightarrow> Inr (Answered (answer True d))
          | AUDITSEC_MSG msg sz \<Rightarrow> Inr (Answered (answer True d)))"

definition kthread_finish :: "framework \<Rightarrow> env \<Rightarrow> client \<Rightarrow> transition \<Rightarrow> daemon \<Rightarrow> daemon" where
  "kthread_finish F E c t d = (let (r, d) = accept_transition F E c t d in answer (r = CONTEXT_ACCEPT) d)"

lemma kthread_path_pieces:
  "kthread_path F E usai fullpath d =
     bind_fault (kthread_path_locked F E usai fullpath d) (\<lambda>p.
       case p of Answered d \<Rightarrow> Inr d | Waiting c t d \<Rightarrow> Inr (kthread_finish F E c t d))"
proof -
  have step: "bind_fault (kernel_domain_changed F E usai xml d) (\<lambda>(_, d). Inr d) =
      bind_fault (if ocontains (clients d) (ai_pid usai) then
          bind_fault (updateState_locked F E (ai_pid usai) xml d) (\<lambda>u.
            case u of
              Returned r d \<Rightarrow> Inr (Answered (answer (r = CONTEXT_ACCEPT) d))
            | Unlocked c t d \<Rightarrow> Inr (Waiting c t d))
        else Inr (Answered (answer True d)))
      (\<lambda>p. case p of Answered d \<Rightarrow> Inr d | Waiting c t d \<Rightarrow> Inr (kthread_finish F E c t d))" for xml
    by (cases "updateState_locked F E (ai_pid usai) xml d")
      (auto simp: kernel_domain_changed_def updateState_def kthread_finish_def split: update.split prod.split)
  show ?thesis unfolding kthread_path_def kthread_path_locked_def bind_fault_assoc step ..
qed

lemma kthread_round_pieces:
  "kthread_round F E usai d =
     bind_fault (kthread_round_locked F E usai d) (\<lambda>p.
       case p of Answered d \<Rightarrow> Inr d | Waiting c t d \<Rightarrow> Inr (kthread_finish F E c t d))"
  by (cases "c_text (ai_execname usai)")
    (simp_all add: kthread_round_def kthread_round_locked_def kthread_path_pieces Let_def split: auditsec_struct.split)

section \<open>Programs registered with the kernel\<close>

definition clearProgList :: "string list \<Rightarrow> string list" where
  "clearProgList l =
     filter (\<lambda>n. n \<noteq> ''.'' \<and> n \<noteq> ''..'' \<and> n \<noteq> ''context-notify.xml'' \<and> n \<noteq> ''firefox.xml'' \<and> n \<noteq> ''claws-mail.xml'') l"

text \<open>\<open>QString::chop\<close> removes the last characters, or all of them.\<close>

definition chop4 :: "string \<Rightarrow> string" where
  "chop4 s = take (length s - 4) s"

text \<open>The calls have the memory that the kernel finds for the name as an argument.\<close>

definition register_one ::
    "(string \<Rightarrow> bool) \<Rightarrow> int \<Rightarrow> string \<Rightarrow> kstate \<times> string list \<Rightarrow> kstate \<times> string list" where
  "register_one mem tgid name kl =
     (case kl of (k, l) \<Rightarrow>
        let (r, k) = sys_auditsec_reg (mem name) tgid 1 (Some name) k
        in if r \<noteq> 1 then (k, l) else (k, l @ [name]))"

text \<open>The constructor: \<open>None\<close> stands for the end of the process by \<open>qFatal\<close>.\<close>

definition KernelContext ::
    "(string \<Rightarrow> bool) \<Rightarrow> int \<Rightarrow> string list \<Rightarrow> kstate \<Rightarrow> daemon \<Rightarrow> (kstate \<times> daemon) option" where
  "KernelContext mem tgid entries k d =
     (let (r, k) = sys_auditsec_reg True tgid 1 None k
      in if r \<noteq> 1 then None
         else
           let (k, l) = fold (register_one mem tgid) (map chop4 (clearProgList entries)) (k, programList_k d)
           in Some (k, d\<lparr>programList_k := l\<rparr>))"

definition reload_one ::
    "(string \<Rightarrow> bool) \<Rightarrow> int \<Rightarrow> string \<Rightarrow> kstate \<times> string list \<Rightarrow> kstate \<times> string list" where
  "reload_one mem tgid name kl =
     (case kl of (k, l) \<Rightarrow>
        if name \<in> set l then (k, removeAll name l)
        else (snd (sys_auditsec_reg (mem name) tgid 1 (Some name) k), l))"

definition reloadProgramList ::
    "(string \<Rightarrow> bool) \<Rightarrow> int \<Rightarrow> string list \<Rightarrow> kstate \<Rightarrow> daemon \<Rightarrow> kstate \<times> daemon" where
  "reloadProgramList mem tgid entries k d =
     (let tmp = map chop4 (clearProgList entries);
          (k, l) = fold (reload_one mem tgid) tmp (k, programList_k d);
          k = fold (\<lambda>name k. snd (sys_auditsec_reg True tgid 0 (Some name) k)) l k
      in (k, d\<lparr>programList_k := tmp\<rparr>))"

definition kernel_stop :: "int \<Rightarrow> kstate \<Rightarrow> kstate" where
  "kernel_stop tgid k = snd (sys_auditsec_reg True tgid 0 None k)"

section \<open>Cleaning\<close>

text \<open>The loop of \<open>ClientsCleaner::run\<close>, with the index of its iterator; a removal starts it again.\<close>

function clean_clients :: "(int \<Rightarrow> bool) \<Rightarrow> (int, client) omap \<Rightarrow> nat \<Rightarrow> (int, client) omap" where
  "clean_clients alive m i =
     (if i < length m then
        if \<not> alive (fst (m ! i)) then clean_clients alive (oremove (fst (m ! i)) m) 0
        else clean_clients alive m (i + 1)
      else m)"
  by pat_completeness auto

lemma length_oremove: "k \<in> fst ` set m \<Longrightarrow> length (oremove k m) < length m"
  by (induction k m rule: oremove.induct) (auto split: if_splits)

termination clean_clients
  by (relation "measures [\<lambda>(alive, m, i). length m, \<lambda>(alive, m, i). length m - i]")
    (auto intro!: length_oremove)

declare clean_clients.simps [simp del]

definition ClientsCleaner_run :: "framework \<Rightarrow> string list \<Rightarrow> daemon \<Rightarrow> daemon" where
  "ClientsCleaner_run F pidList d =
     d\<lparr>clients := clean_clients (\<lambda>pid. of_int_str F pid \<in> set pidList) (clients d) 0\<rparr>"

section \<open>The process\<close>

definition onEvent :: "plugin_event \<Rightarrow> daemon \<Rightarrow> daemon" where
  "onEvent ev d = (if ev = RestartEvent then snd (resetToDefaultDomain d) else d)"

text \<open>The constructor that takes the name on the bus; asking the application to exit has no effect before
  its event loop runs.  The flags say what the bus answers, with the texts of its errors.\<close>

definition DBusContext :: "bool \<Rightarrow> string option \<Rightarrow> string option \<Rightarrow> daemon \<Rightarrow> daemon" where
  "DBusContext isConnected service_error object_error d =
     (let d = (if \<not> isConnected
               then sendError (''Cannot connect to the D-Bus system bus.'' @ [CHR 0x0A] @ ''To start it, run:'' @ [CHR 0x0A] @
                      [CHR 0x09] @ ''eval `dbus-launch --auto-syntax`'' @ [CHR 0x0A]) d
               else d);
          d = (case service_error of None \<Rightarrow> d | Some msg \<Rightarrow> sendError msg d)
      in case object_error of None \<Rightarrow> d | Some msg \<Rightarrow> sendError msg d)"

text \<open>\<open>main\<close> from the parsed command line to the event loop.\<close>

definition main_start ::
    "bool \<Rightarrow> bool \<Rightarrow> string option \<Rightarrow> string option \<Rightarrow> (string \<Rightarrow> bool) \<Rightarrow> int \<Rightarrow> string list \<Rightarrow> kstate \<Rightarrow> daemon \<Rightarrow>
     (kstate \<times> daemon) option" where
  "main_start piga isConnected service_error object_error mem tgid entries k d =
     (let d = (if \<not> piga then piga_enable False d else d);
          d = DBusContext isConnected service_error object_error d
      in case KernelContext mem tgid entries k d of
           None \<Rightarrow> None
         | Some (k, d) \<Rightarrow>
             let d = sendNotification ''Contextd started'' d;
                 (_, d) = setDefaultDomain (default_domain (conf d)) d
             in Some (k, snd (resetToDefaultDomain d)))"

datatype unix_signal = SIGALRM | SIGUSR1 | SIGUSR2 | SIGCHLD | SIGINT | SIGTERM | OtherSignal

text \<open>The signal handler: the exit status if the process ends.\<close>

definition child_handler ::
    "framework \<Rightarrow> 'doc xml \<Rightarrow> 'doc disk \<Rightarrow> string \<Rightarrow> bool \<Rightarrow> (string \<Rightarrow> bool) \<Rightarrow> int \<Rightarrow> string list \<Rightarrow> unix_signal \<Rightarrow>
     kstate \<Rightarrow> daemon \<Rightarrow> int option \<times> kstate \<times> daemon" where
  "child_handler F X disk path parse_programs mem tgid entries signum k d =
     (let unregister = (\<lambda>k. snd (sys_auditsec_reg True tgid 0 None k)) in
      case signum of
        SIGALRM \<Rightarrow> (Some 1, unregister k, d)
      | SIGUSR1 \<Rightarrow> (Some 0, unregister k, d)
      | SIGCHLD \<Rightarrow> (Some 1, unregister k, d)
      | SIGINT \<Rightarrow> (Some 1, unregister k, d)
      | SIGTERM \<Rightarrow> (Some 0, unregister k, sendNotification ''Stopping the daemon'' d)
      | SIGUSR2 \<Rightarrow>
          let d = sendNotification ''Reloading the rules'' d;
              d = d\<lparr>conf := updateRules F X disk path parse_programs (conf d)\<rparr>;
              d = sendEvent ReloadEvent d
          in (None, reloadProgramList mem tgid entries k d)
      | OtherSignal \<Rightarrow> (None, k, d))"

text \<open>The number in the file of the running daemon, with its first line if it can be read.\<close>

definition readPID :: "framework \<Rightarrow> string option \<Rightarrow> int" where
  "readPID F line = (case line of None \<Rightarrow> 0 | Some l \<Rightarrow> toInt0 F l)"

text \<open>The command line: the process ends after a signal to the running daemon (if there is one), or the
  result and the two flags.\<close>

datatype command = Exited "(int \<times> unix_signal) option" | Parsed bool bool bool

fun parsing_loop :: "int \<Rightarrow> string list \<Rightarrow> bool \<Rightarrow> bool \<Rightarrow> command" where
  "parsing_loop pid [] foreground piga = Parsed True foreground piga"
| "parsing_loop pid (a # args) foreground piga =
     (if a = ''--reload'' then Exited (if pid > 0 then Some (pid, SIGUSR2) else None)
      else if a = ''--stop'' then Exited (if pid > 0 then Some (pid, SIGTERM) else None)
      else if a = ''--foreground'' then parsing_loop pid args True piga
      else if a = ''--disable-piga'' then parsing_loop pid args foreground False
      else Parsed False foreground piga)"

definition parsing :: "framework \<Rightarrow> string option \<Rightarrow> string list \<Rightarrow> bool \<Rightarrow> bool \<Rightarrow> command" where
  "parsing F pid_line args foreground piga = parsing_loop (readPID F pid_line) args foreground piga"

end
