(* ===== verification/Daemon_Effects.thy ===== *)
theory Daemon_Effects
  imports Daemon_Contexts
begin

text \<open>
  What the calls of the daemon do to the part of its state that later decisions depend on (\<open>core\<close>): the effect
  of \<open>updateState\<close>, of a registration, of a question of the kernel and of the cleaner, and the invariant of
  the daemon with the step relation of its calls and events.
\<close>

section \<open>Parts of the state that operations keep\<close>

text \<open>What of the state decides later calls and the domain, without the outputs and the trace counter.\<close>

definition core :: "daemon \<Rightarrow> configuration \<times> (int, client) omap \<times> domain \<times> domain \<times> string list \<times> bool \<times>
    string list \<times> (domain \<times> domain) list \<times> bool list" where
  "core d = (conf d, clients d, c_domain d, dh_default d, plugins d, piga_enabled d, programList_k d,
     domain_signals d, kernel_answers d)"

lemma core_eqD:
  assumes "core d' = core d"
  shows "conf d' = conf d" "clients d' = clients d" "c_domain d' = c_domain d" "dh_default d' = dh_default d"
    "plugins d' = plugins d" "piga_enabled d' = piga_enabled d" "programList_k d' = programList_k d"
    "domain_signals d' = domain_signals d" "kernel_answers d' = kernel_answers d"
  using assms by (simp_all add: core_def)

lemma core_outputs [simp]:
  "core (d\<lparr>delivered := x\<rparr>) = core d" "core (d\<lparr>syslog := s\<rparr>) = core d" "core (d\<lparr>killed := y\<rparr>) = core d"
  "core (d\<lparr>user_notified := z\<rparr>) = core d" "core (d\<lparr>traceId := n\<rparr>) = core d"
  by (simp_all add: core_def)

lemma core_send [simp]:
  "core (send_message p m d) = core d" "core (sendCritical m d) = core d" "core (sendError m d) = core d"
  "core (sendNotification m d) = core d" "core (sendDebug m d) = core d"
  by (simp_all add: send_message_def sendCritical_def sendError_def sendNotification_def sendDebug_def)

lemma send_to_other:
  assumes "ev \<noteq> RestartEvent"
  shows "send_to ps ev d = d\<lparr>delivered := delivered d @ map (\<lambda>p. (p, ev)) ps\<rparr>"
proof (induction ps arbitrary: d)
  case (Cons p ps)
  have "send_to (p # ps) ev d = send_to ps ev (d\<lparr>delivered := delivered d @ [(p, ev)]\<rparr>)"
    using assms by (simp add: holder_eventHandler_def Let_def)
  then show ?case by (simp add: Cons.IH)
qed simp

lemma core_sendEvent [simp]: "ev \<noteq> RestartEvent \<Longrightarrow> core (sendEvent ev d) = core d"
  by (simp add: sendEvent_def send_to_other)

lemma core_trace [simp]:
  "core (snd (sendTrace F E c t w d)) = core d" "core (logTrace F E c t w d) = core d"
  by (simp_all add: sendTrace_def logTrace_def Let_def)

lemma core_onAcceptHooks [simp]: "core (snd (onAcceptHooks F E c t d)) = core d"
  using core_trace(1) [of F E c t CONTEXT_ACCEPT d]
  by (simp add: onAcceptHooks_def case_prod_beta Let_def)

lemma core_refusals [simp]:
  "core (onRefuseTransition F E c t d) = core d" "core (onNoTransitionHasBeenFound c d) = core d"
  by (simp_all add: onRefuseTransition_def onNoTransitionHasBeenFound_def)

section \<open>Transitions\<close>

definition piga_allows :: "framework \<Rightarrow> env \<Rightarrow> daemon \<Rightarrow> bool" where
  "piga_allows F E d =
     (\<not> piga_enabled d \<or>
      (\<exists>line n. piga_line E = Some line \<and> str_split (CHR '' '') line = [n, ''allowed''] \<and> toInt0 F n = traceId d + 1))"

lemma decision_allowed:
  "fst (sendTrace F E c t w d) = PigaAllowed \<or> fst (sendTrace F E c t w d) = PigaDisabled \<longleftrightarrow> piga_allows F E d"
  by (auto simp: sendTrace_def piga_allows_def waitForNextDecision_def Let_def split: option.splits list.splits if_splits)

lemma onAcceptHooks_result:
  "fst (onAcceptHooks F E c t d) = (if piga_allows F E d then CONTEXT_ACCEPT else CONTEXT_REFUSE)"
  using decision_allowed [of F E c t CONTEXT_ACCEPT d]
  by (simp add: onAcceptHooks_def case_prod_beta Let_def)

definition moved :: "domain \<Rightarrow> daemon \<Rightarrow> daemon" where
  "moved dm d = d\<lparr>c_domain := dm, domain_signals := domain_signals d @ [(c_domain d, dm)]\<rparr>"

lemma setCurrentDomain_eq: "setCurrentDomain dm d = (c_domain d, moved dm d)"
  by (simp add: setCurrentDomain_def moved_def)

lemma core_moved_cong: "core d' = core d \<Longrightarrow> core (moved dm d') = core (moved dm d)"
  by (simp add: core_def moved_def)

lemma accept_transition_result:
  "fst (accept_transition F E c t d) = (if piga_allows F E d then CONTEXT_ACCEPT else CONTEXT_REFUSE)"
  "core (snd (accept_transition F E c t d)) = core (if piga_allows F E d then moved (tn_transit_to t) d else d)"
proof -
  have "core (onAcceptTransition c t d') = core (moved (tn_transit_to t) d')" for d'
    by (simp add: onAcceptTransition_def setCurrentDomain_eq Let_def)
  then show "core (snd (accept_transition F E c t d)) = core (if piga_allows F E d then moved (tn_transit_to t) d else d)"
    using core_moved_cong [OF core_onAcceptHooks]
    by (simp add: accept_transition_def case_prod_beta onAcceptHooks_result)
qed (simp add: accept_transition_def case_prod_beta onAcceptHooks_result)

text \<open>The program behind a process, the transition found for it, and what the user says.\<close>

definition program_at :: "daemon \<Rightarrow> int \<Rightarrow> program" where
  "program_at d pid = cl_program (ovalue (ContextClient [] Program0 0) (clients d) pid)"

definition found :: "framework \<Rightarrow> daemon \<Rightarrow> int \<Rightarrow> (string, string) omap \<Rightarrow> transition" where
  "found F d pid vals = getFirstMatchingTransition F (conf d) (program_at d pid) (c_domain d) vals"

definition user_agrees :: "env \<Rightarrow> daemon \<Rightarrow> int \<Rightarrow> transition \<Rightarrow> bool" where
  "user_agrees E d pid t =
     (\<not> promptUser t \<or> user_accepts E (dom_name (c_domain d)) (dom_name (tn_transit_to t)) (app_name (program_at d pid)))"

definition state_stored :: "int \<Rightarrow> (string, string) omap \<Rightarrow> daemon \<Rightarrow> daemon" where
  "state_stored pid vals d =
     d\<lparr>clients := oinsert pid (updateCurrentState vals (ovalue (ContextClient [] Program0 0) (clients d) pid)) (clients d)\<rparr>"

lemma updateCurrentState_simps [simp]:
  "cl_program (updateCurrentState vals c) = cl_program c" "cl_currentState (updateCurrentState vals c) = vals"
  "cl_pid (updateCurrentState vals c) = cl_pid c" "cl_id (updateCurrentState vals c) = cl_id c"
  by (simp_all add: updateCurrentState_def)

lemma state_stored_simps [simp]:
  "conf (state_stored pid vals d) = conf d" "c_domain (state_stored pid vals d) = c_domain d"
  "domain_signals (state_stored pid vals d) = domain_signals d" "kernel_answers (state_stored pid vals d) = kernel_answers d"
  "piga_enabled (state_stored pid vals d) = piga_enabled d" "traceId (state_stored pid vals d) = traceId d"
  "plugins (state_stored pid vals d) = plugins d" "dh_default (state_stored pid vals d) = dh_default d"
  "programList_k (state_stored pid vals d) = programList_k d"
  by (simp_all add: state_stored_def)

lemma piga_allows_stored [simp]: "piga_allows F E (state_stored pid vals d) = piga_allows F E d"
  by (simp add: piga_allows_def)

lemma updateState_unparsed:
  assumes "parse_context xml = Inr (False, vals)"
  obtains d' where "updateState F E pid xml d = Inr (DBUS_ERROR, d')" "core d' = core d"
  using assms that by (cases "garbage E") (simp_all add: updateState_def updateState_locked_def)

definition granted :: "framework \<Rightarrow> env \<Rightarrow> daemon \<Rightarrow> int \<Rightarrow> (string, string) omap \<Rightarrow> bool" where
  "granted F E d pid vals =
     (tn_valid (found F d pid vals) \<and> user_agrees E d pid (found F d pid vals) \<and> piga_allows F E d)"

definition served :: "framework \<Rightarrow> env \<Rightarrow> int \<Rightarrow> (string, string) omap \<Rightarrow> daemon \<Rightarrow> daemon" where
  "served F E pid vals d =
     (if granted F E d pid vals then moved (tn_transit_to (found F d pid vals)) (state_stored pid vals d)
      else state_stored pid vals d)"

lemma updateState_parsed:
  assumes "parse_context xml = Inr (True, vals)"
  obtains d' where
    "updateState F E pid xml d = Inr (if granted F E d pid vals then CONTEXT_ACCEPT else CONTEXT_REFUSE, d')"
    "core d' = core (served F E pid vals d)"
proof -
  define t where "t = found F d pid vals"
  define c where "c = updateCurrentState vals (ovalue (ContextClient [] Program0 0) (clients d) pid)"
  have t: "getFirstMatchingTransition F (conf d) (cl_program (ovalue (ContextClient [] Program0 0) (clients d) pid)) (c_domain d) vals = t"
    by (simp add: t_def found_def program_at_def)
  have agree: "user_agrees E d pid t = (\<not> promptUser t \<or>
      user_accepts E (dom_name (c_domain d)) (dom_name (tn_transit_to t)) (app_name (cl_program (ovalue (ContextClient [] Program0 0) (clients d) pid))))"
    by (simp add: user_agrees_def program_at_def)
  have eq: "updateState F E pid xml d =
     (if tn_valid t then
        if user_agrees E d pid t then Inr (accept_transition F E c t (state_stored pid vals d))
        else Inr (CONTEXT_REFUSE, onRefuseTransition F E c t (state_stored pid vals d))
      else Inr (CONTEXT_REFUSE, onNoTransitionHasBeenFound c (state_stored pid vals d)))"
    using assms(1)
    by (simp add: updateState_def updateState_locked_def Let_def state_stored_def t agree c_def)
  show thesis
    using accept_transition_result [of F E c t "state_stored pid vals d"]
    by (intro that [of "snd (projr (updateState F E pid xml d))"])
      (auto simp: eq granted_def served_def t_def [symmetric] prod_eq_iff)
qed

section \<open>Registration\<close>

definition registered :: "framework \<Rightarrow> string \<Rightarrow> string \<Rightarrow> int \<Rightarrow> daemon \<Rightarrow> daemon" where
  "registered F i appName pid d =
     d\<lparr>clients := oinsert pid (ContextClient i (getProgramByName F (conf d) appName False) pid) (clients d)\<rparr>"

definition may_register :: "env \<Rightarrow> string \<Rightarrow> int \<Rightarrow> daemon \<Rightarrow> bool" where
  "may_register E appName pid d =
     (pid \<noteq> 0 \<and> \<not> ocontains (clients d) pid \<and> isProgramAllowed (conf d) appName (exe_link E pid))"

lemma kernel_register_effect:
  "fst (kernel_register_application F E usai n d) = (if may_register E n (ai_pid usai) d then KERNEL_SUCCESS else KERNEL_ERROR)"
  "\<exists>x. snd (kernel_register_application F E usai n d) =
     (if may_register E n (ai_pid usai) d then registered F [] n (ai_pid usai) d else d)\<lparr>delivered := x\<rparr>"
proof -
  have keep: "\<exists>x. d = d\<lparr>delivered := x\<rparr>" by (rule exI [of _ "delivered d"]) simp
  then show "\<exists>x. snd (kernel_register_application F E usai n d) =
     (if may_register E n (ai_pid usai) d then registered F [] n (ai_pid usai) d else d)\<lparr>delivered := x\<rparr>"
    by (auto simp: kernel_register_application_def may_register_def registered_def getFullPathFromPID_def
        sendNotification_def sendError_def send_message_def Let_def)
qed (simp add: kernel_register_application_def may_register_def getFullPathFromPID_def Let_def)

lemma dbus_register_effect:
  "fst (dbus_register_application F E i (Some pid) n d) = (if may_register E n pid d then DBUS_SUCCESS else DBUS_ERROR)"
  "core (snd (dbus_register_application F E i (Some pid) n d)) =
     core (if may_register E n pid d then registered F i n pid d else d)"
  "dbus_register_application F E i None n d = (DBUS_ERROR, d)"
  by (simp_all add: dbus_register_application_def may_register_def registered_def getFullPathFromPID_def Let_def)

section \<open>Questions of the kernel\<close>

lemma context_fullpath:
  obtains xml vals where "xmlContext (Some ''fullpath'') (Some path) [(None, None)] = Inr xml"
    "parse_context xml = Inr (True, vals)"
proof (cases "path = []")
  case True
  have "xmlContext (Some ''fullpath'') (Some []) [(None, None)] = Inr ''<xmlContext></xmlContext>''" by code_simp
  moreover have "parse_context ''<xmlContext></xmlContext>'' = Inr (True, [])" by code_simp
  ultimately show thesis using that True by simp
next
  case False
  show thesis by (rule context_single [of "''fullpath''" path]) (use False in \<open>auto intro: that\<close>)
qed

text \<open>What the parser reads from the document for a path.\<close>

definition path_vals :: "string \<Rightarrow> (string, string) omap" where
  "path_vals path = snd (projr (bind_fault (xmlContext (Some ''fullpath'') (Some path) [(None, None)]) parse_context))"

lemma path_vals_eq:
  obtains xml where "xmlContext (Some ''fullpath'') (Some path) [(None, None)] = Inr xml"
    "parse_context xml = Inr (True, path_vals path)"
proof -
  obtain xml vals where xml: "xmlContext (Some ''fullpath'') (Some path) [(None, None)] = Inr xml"
    "parse_context xml = Inr (True, vals)" using context_fullpath by blast
  with that show thesis by (simp add: path_vals_def)
qed

text \<open>The answer to a question about a path and the state after it.\<close>

definition verdict :: "framework \<Rightarrow> env \<Rightarrow> int \<Rightarrow> string \<Rightarrow> daemon \<Rightarrow> bool" where
  "verdict F E pid path d = (ocontains (clients d) pid \<longrightarrow> granted F E d pid (path_vals path))"

definition settled :: "framework \<Rightarrow> env \<Rightarrow> int \<Rightarrow> string \<Rightarrow> daemon \<Rightarrow> daemon" where
  "settled F E pid path d = (if ocontains (clients d) pid then served F E pid (path_vals path) d else d)"

lemma core_answer: "core d' = core d \<Longrightarrow> core (answer b d') = core (answer b d)"
  by (simp add: core_def answer_def)

lemma kthread_path_effect:
  assumes "terminated fullpath"
  obtains d' where "kthread_path F E usai fullpath d = Inr d'"
    "core d' = core (answer (verdict F E (ai_pid usai) (cstring fullpath) d) (settled F E (ai_pid usai) (cstring fullpath) d))"
proof -
  let ?pid = "ai_pid usai" and ?vals = "path_vals (cstring fullpath)"
  obtain xml where xml: "xmlContext (Some ''fullpath'') (Some (cstring fullpath)) [(None, None)] = Inr xml"
    "parse_context xml = Inr (True, ?vals)" using path_vals_eq by blast
  obtain d' where "updateState F E ?pid xml d = Inr (if granted F E d ?pid ?vals then CONTEXT_ACCEPT else CONTEXT_REFUSE, d')"
    "core d' = core (served F E ?pid ?vals d)" using updateState_parsed [OF xml(2)] by blast
  note d' = this
  have eq: "kthread_path F E usai fullpath d =
      bind_fault (kernel_domain_changed F E usai xml d) (\<lambda>(_, d). Inr d)"
    using assms xml(1) by (simp add: kthread_path_def c_text_def)
  show thesis
  proof (cases "ocontains (clients d) ?pid")
    case True
    then have "kthread_path F E usai fullpath d = Inr (answer (granted F E d ?pid ?vals) d')"
      unfolding eq kernel_domain_changed_def d'(1) by (cases "granted F E d ?pid ?vals") simp_all
    moreover have "core (answer b d') = core (answer b (served F E ?pid ?vals d))" for b
      using d'(2) by (rule core_answer)
    ultimately show thesis using that True by (simp add: verdict_def settled_def)
  next
    case False
    then have "kthread_path F E usai fullpath d = Inr (answer True d)"
      unfolding eq kernel_domain_changed_def by simp
    with that False show thesis by (simp add: verdict_def settled_def)
  qed
qed

definition question_ok :: "auditsec_info \<Rightarrow> bool" where
  "question_ok usai =
     (terminated (ai_execname usai) \<and>
      (case ai_struct usai of
         AUDITSEC_FILE _ path _ \<Rightarrow> terminated path
       | AUDITSEC_DIR _ path _ \<Rightarrow> terminated path
       | _ \<Rightarrow> True))"

fun question_path :: "auditsec_struct \<Rightarrow> string option" where
  "question_path (AUDITSEC_FILE _ path _) = Some (cstring path)"
| "question_path (AUDITSEC_DIR _ path _) = Some (cstring path)"
| "question_path _ = None"

text \<open>The state in which a question is decided.\<close>

definition introduced :: "framework \<Rightarrow> env \<Rightarrow> auditsec_info \<Rightarrow> daemon \<Rightarrow> daemon" where
  "introduced F E usai d =
     (if may_register E (cstring (ai_execname usai)) (ai_pid usai) d
      then registered F [] (cstring (ai_execname usai)) (ai_pid usai) d else d)"

lemma delivered_granted [simp]:
  "found F (d\<lparr>delivered := x\<rparr>) = found F d" "granted F E (d\<lparr>delivered := x\<rparr>) = granted F E d"
  by (intro ext, simp add: found_def program_at_def granted_def user_agrees_def piga_allows_def)+

lemma delivered_irrelevant [simp]:
  "verdict F E pid path (d\<lparr>delivered := x\<rparr>) = verdict F E pid path d"
  "core (settled F E pid path (d\<lparr>delivered := x\<rparr>)) = core (settled F E pid path d)"
  by (simp_all add: verdict_def settled_def served_def state_stored_def moved_def core_def)

lemma kthread_round_effect:
  assumes "question_ok usai"
  obtains d' where "kthread_round F E usai d = Inr d'"
    "core d' = (case question_path (ai_struct usai) of
       None \<Rightarrow> core (answer True (introduced F E usai d))
     | Some path \<Rightarrow> core (answer (verdict F E (ai_pid usai) path (introduced F E usai d))
                             (settled F E (ai_pid usai) path (introduced F E usai d))))"
proof -
  note result = that
  let ?n = "cstring (ai_execname usai)"
  define d1 where "d1 = (if kernel_is_registered usai d = KERNEL_ERROR
    then snd (kernel_register_application F E usai ?n d) else d)"
  obtain x where d1: "d1 = (introduced F E usai d)\<lparr>delivered := x\<rparr>"
  proof (cases "ocontains (clients d) (ai_pid usai)")
    case True
    then have "d1 = (introduced F E usai d)\<lparr>delivered := delivered d\<rparr>"
      by (simp add: d1_def kernel_is_registered_def introduced_def may_register_def)
    with that show thesis .
  next
    case False
    with kernel_register_effect(2) [of F E usai ?n d] that show thesis
      by (auto simp: d1_def kernel_is_registered_def introduced_def)
  qed
  have core_d1: "core (answer True d1) = core (answer True (introduced F E usai d))"
    by (rule core_answer) (simp add: d1)
  have eq: "kthread_round F E usai d = (case ai_struct usai of
            AUDITSEC_FILE name fullpath msk \<Rightarrow> kthread_path F E usai fullpath d1
          | AUDITSEC_DIR name fullpath mode \<Rightarrow> kthread_path F E usai fullpath d1
          | AUDITSEC_SOCKET ty addr \<Rightarrow> Inr (answer True d1)
          | AUDITSEC_MSG msg sz \<Rightarrow> Inr (answer True d1))"
    using assms unfolding kthread_round_def question_ok_def c_text_def d1_def Let_def by simp
  have path: thesis if p: "terminated p" "kthread_round F E usai d = kthread_path F E usai p d1"
    "question_path (ai_struct usai) = Some (cstring p)" for p
  proof -
    obtain d' where "kthread_path F E usai p d1 = Inr d'"
      "core d' = core (answer (verdict F E (ai_pid usai) (cstring p) d1) (settled F E (ai_pid usai) (cstring p) d1))"
      using kthread_path_effect [OF p(1)] by blast
    moreover have "core (answer b (settled F E (ai_pid usai) (cstring p) d1)) =
        core (answer b (settled F E (ai_pid usai) (cstring p) (introduced F E usai d)))" for b
      unfolding d1 by (rule core_answer) simp
    ultimately show thesis
      using result [of d'] p(2,3) by (simp add: d1)
  qed
  show thesis
  proof (cases "ai_struct usai")
    case (AUDITSEC_FILE name p msk)
    with assms eq path [of p] show thesis by (simp add: question_ok_def)
  next
    case (AUDITSEC_DIR name p mode)
    with assms eq path [of p] show thesis by (simp add: question_ok_def)
  next
    case AUDITSEC_SOCKET
    with eq that [of "answer True d1"] core_d1 show thesis by simp
  next
    case AUDITSEC_MSG
    with eq that [of "answer True d1"] core_d1 show thesis by simp
  qed
qed

section \<open>Runs of the daemon\<close>

fun linked :: "domain \<Rightarrow> (domain \<times> domain) list \<Rightarrow> domain \<Rightarrow> bool" where
  "linked a [] b = (a = b)"
| "linked a ((x, y) # s) b = (x = a \<and> linked y s b)"

lemma linked_snoc [simp]: "linked a (s @ [(x, y)]) b \<longleftrightarrow> linked a s x \<and> y = b"
  by (induction a s b rule: linked.induct) auto

text \<open>The table of applications is sorted by process and holds each process under its number, and the
  signals that were sent lead from the first domain to the current one without a gap.\<close>

definition client_ok :: "int \<times> client \<Rightarrow> bool" where
  "client_ok pc = (cl_pid (snd pc) = fst pc \<and> fst pc \<noteq> 0)"

definition daemon_wf :: "domain \<Rightarrow> daemon \<Rightarrow> bool" where
  "daemon_wf start d =
     (osorted (clients d) \<and> list_all client_ok (clients d) \<and> linked start (domain_signals d) (c_domain d))"

lemma daemon_wf_core: "daemon_wf s d \<Longrightarrow> core d' = core d \<Longrightarrow> daemon_wf s d'"
  by (simp add: daemon_wf_def core_def)

lemma daemon_wf_outputs [simp]:
  "daemon_wf s (d\<lparr>delivered := x\<rparr>) = daemon_wf s d" "daemon_wf s (send_message p m d) = daemon_wf s d"
  "daemon_wf s (sendNotification m d) = daemon_wf s d"
  by (simp_all add: daemon_wf_def send_message_def sendNotification_def)

lemma set_oinsert: "set (oinsert k v m) \<subseteq> insert (k, v) (set m)"
  by (induction k v m rule: oinsert.induct) auto

lemma client_ok_oinsert:
  "list_all client_ok m \<Longrightarrow> client_ok (pid, c) \<Longrightarrow> list_all client_ok (oinsert pid c m)"
  using set_oinsert [of pid c m] by (auto simp: list_all_iff)

lemma ovalue_in: "ocontains m k \<Longrightarrow> (k, ovalue d m k) \<in> set m"
  by (auto simp: ocontains_def ovalue_def dest: map_of_SomeD)

lemma daemon_wf_moved [wf_intros]: "daemon_wf s d \<Longrightarrow> daemon_wf s (moved dm d)"
  by (simp add: daemon_wf_def moved_def)

lemma daemon_wf_stored [wf_intros]:
  assumes "daemon_wf s d" "ocontains (clients d) pid"
  shows "daemon_wf s (state_stored pid vals d)"
proof -
  have "client_ok (pid, updateCurrentState vals (ovalue (ContextClient [] Program0 0) (clients d) pid))"
    using assms ovalue_in [OF assms(2), of "ContextClient [] Program0 0"]
    by (auto simp: daemon_wf_def client_ok_def list_all_iff)
  with assms show ?thesis
    by (simp add: daemon_wf_def state_stored_def client_ok_oinsert osorted_oinsert)
qed

lemma daemon_wf_registered [wf_intros]:
  "daemon_wf s d \<Longrightarrow> may_register E n pid d \<Longrightarrow> daemon_wf s (registered F i n pid d)"
  by (simp add: daemon_wf_def registered_def may_register_def client_ok_oinsert osorted_oinsert client_ok_def ContextClient_def)

lemma daemon_wf_served [wf_intros]:
  "daemon_wf s d \<Longrightarrow> ocontains (clients d) pid \<Longrightarrow> daemon_wf s (served F E pid vals d)"
  by (simp add: served_def daemon_wf_moved daemon_wf_stored)

lemma daemon_wf_answer [simp]: "daemon_wf s (answer b d) = daemon_wf s d"
  by (simp add: daemon_wf_def answer_def)

lemma daemon_wf_sendEvent [wf_intros]:
  assumes "daemon_wf s d"
  shows "daemon_wf s (sendEvent ev d)"
proof (cases "ev = RestartEvent")
  case True
  have "daemon_wf s (send_to ps RestartEvent d)" if "daemon_wf s d" for ps d
    using that
  proof (induction ps arbitrary: d)
    case (Cons p ps)
    have "daemon_wf s (holder_eventHandler RestartEvent d')" if "daemon_wf s d'" for d'
      using that by (simp add: holder_eventHandler_def setCurrentDomain_eq daemon_wf_moved)
    with Cons show ?case by (simp add: Let_def)
  qed simp
  with assms True show ?thesis by (simp add: sendEvent_def)
next
  case False
  with assms show ?thesis by (intro daemon_wf_core [OF assms]) simp
qed

lemma updateState_wf:
  assumes "daemon_wf s d" "ocontains (clients d) pid" "updateState F E pid xml d = Inr (r, d')"
  shows "daemon_wf s d'"
proof (cases "parse_context xml")
  case (Inl e)
  with assms(3) show ?thesis by (simp add: updateState_def updateState_locked_def)
next
  case (Inr q)
  obtain ok vals where q: "q = (ok, vals)" by fastforce
  show ?thesis
  proof (cases ok)
    case True
    with Inr q updateState_parsed [of xml vals F E pid d] assms(3) have "core d' = core (served F E pid vals d)" by auto
    with daemon_wf_served [OF assms(1,2)] show ?thesis by (rule daemon_wf_core)
  next
    case False
    with Inr q updateState_unparsed [of xml vals F E pid d] assms(3) have "core d' = core d" by auto
    with assms(1) show ?thesis by (rule daemon_wf_core)
  qed
qed

lemma client_required_domain_core:
  "client_required_domain F pid xml d = Inr (r, d') \<Longrightarrow> core d' = core d"
  by (auto simp: client_required_domain_def bind_fault_Inr_iff Let_def split: prod.splits if_splits)

lemma introduced_wf: "daemon_wf s d \<Longrightarrow> daemon_wf s (introduced F E usai d)"
  by (simp add: introduced_def daemon_wf_registered)

lemma kernel_domain_changed_wf:
  assumes "daemon_wf s d" "kernel_domain_changed F E usai xml d = Inr (r, d')"
  shows "daemon_wf s d'"
proof (cases "ocontains (clients d) (ai_pid usai)")
  case True
  with assms(2) obtain r1 d1 where "updateState F E (ai_pid usai) xml d = Inr (r1, d1)" "d' = answer (r1 = CONTEXT_ACCEPT) d1"
    by (auto simp: kernel_domain_changed_def bind_fault_Inr_iff split: if_splits)
  with updateState_wf [OF assms(1) True] show ?thesis by simp
next
  case False
  with assms show ?thesis by (auto simp: kernel_domain_changed_def)
qed

lemma kthread_round_wf:
  assumes "daemon_wf s d" "kthread_round F E usai d = Inr d'"
  shows "daemon_wf s d'"
proof -
  let ?n = "cstring (ai_execname usai)"
  define d1 where "d1 = (if kernel_is_registered usai d = KERNEL_ERROR
    then snd (kernel_register_application F E usai ?n d) else d)"
  obtain x where "snd (kernel_register_application F E usai ?n d) =
      (if may_register E ?n (ai_pid usai) d then registered F [] ?n (ai_pid usai) d else d)\<lparr>delivered := x\<rparr>"
    using kernel_register_effect(2) by blast
  then have d1: "daemon_wf s d1"
    using assms(1) by (simp add: d1_def daemon_wf_registered)
  have path: "daemon_wf s d'" if "kthread_path F E usai p d1 = Inr d'" for p
    using that kernel_domain_changed_wf [OF d1] by (auto simp: kthread_path_def bind_fault_Inr_iff)
  have "(case ai_struct usai of
            AUDITSEC_FILE name fullpath msk \<Rightarrow> kthread_path F E usai fullpath d1
          | AUDITSEC_DIR name fullpath mode \<Rightarrow> kthread_path F E usai fullpath d1
          | AUDITSEC_SOCKET ty addr \<Rightarrow> Inr (answer True d1)
          | AUDITSEC_MSG msg sz \<Rightarrow> Inr (answer True d1)) = Inr d'"
    using assms(2) unfolding kthread_round_def c_text_def d1_def Let_def by (simp split: if_splits)
  with path d1 show ?thesis by (auto split: auditsec_struct.splits)
qed

section \<open>Cleaning\<close>

lemma filter_oremove: "\<not> P k \<Longrightarrow> filter (\<lambda>x. P (fst x)) (oremove k m) = filter (\<lambda>x. P (fst x)) m"
  by (induction k m rule: oremove.induct) auto

lemma clean_clients_filter:
  "\<forall>x \<in> set (take i m). alive (fst x) \<Longrightarrow> clean_clients alive m i = filter (\<lambda>x. alive (fst x)) m"
proof (induction alive m i rule: clean_clients.induct)
  case (1 alive m i)
  show ?case
  proof (cases "i < length m")
    case True
    show ?thesis
    proof (cases "alive (fst (m ! i))")
      case alive: True
      have "\<forall>x \<in> set (take (i + 1) m). alive (fst x)"
        using 1(3) True alive by (auto simp: take_Suc_conv_app_nth)
      with 1(2) [OF True] alive True show ?thesis by (subst clean_clients.simps) simp
    next
      case False
      with 1(1) [OF True False] True show ?thesis
        by (subst clean_clients.simps) (simp add: filter_oremove)
    qed
  next
    case False
    with 1(3) show ?thesis by (subst clean_clients.simps) (auto simp: filter_id_conv)
  qed
qed

lemma ClientsCleaner_run_eq:
  "ClientsCleaner_run F pidList d = d\<lparr>clients := filter (\<lambda>x. of_int_str F (fst x) \<in> set pidList) (clients d)\<rparr>"
  by (simp add: ClientsCleaner_run_def clean_clients_filter)

lemma osorted_filter: "osorted m \<Longrightarrow> osorted (filter P m)"
  by (induction m) (auto simp: okeys_def)

section \<open>Calls and events\<close>

text \<open>A call from the bus, a question of the kernel, a pass of the cleaner, a signal, or an event that a
  plugin sends; \<open>X\<close> is the XML library.\<close>

inductive daemon_step :: "framework \<Rightarrow> 'doc xml \<Rightarrow> daemon \<Rightarrow> daemon \<Rightarrow> bool" for F X where
  bus_register: "daemon_step F X d (snd (dbus_register_application F E i res n d))"
| bus_changed: "dbus_domain_changed F E res xml d = Inr (r, d') \<Longrightarrow> daemon_step F X d d'"
| bus_required: "dbus_required_domain F res xml d = Inr (r, d') \<Longrightarrow> daemon_step F X d d'"
| question: "kthread_round F E usai d = Inr d' \<Longrightarrow> daemon_step F X d d'"
| cleaner: "daemon_step F X d (ClientsCleaner_run F pidList d)"
| handler: "child_handler F X disk path pp mem tgid entries sig k d = (status, k', d') \<Longrightarrow> daemon_step F X d d'"
| event: "daemon_step F X d (sendEvent ev d)"
| reset: "daemon_step F X d (onEvent ev d)"

inductive_cases daemon_stepE: "daemon_step F X d d'"

lemma programList_k_wf [simp]: "daemon_wf s (d\<lparr>programList_k := l\<rparr>) = daemon_wf s d"
  by (simp add: daemon_wf_def)

lemma conf_wf [simp]: "daemon_wf s (d\<lparr>conf := c\<rparr>) = daemon_wf s d"
  by (simp add: daemon_wf_def)

lemma child_handler_wf:
  assumes "daemon_wf s d" "child_handler F X disk path pp mem tgid entries sig k d = (status, k', d')"
  shows "daemon_wf s d'"
  using assms
  by (cases sig) (auto simp: child_handler_def Let_def reloadProgramList_def daemon_wf_sendEvent split: prod.splits)

lemma daemon_step_wf: "daemon_step F X d d' \<Longrightarrow> daemon_wf s d \<Longrightarrow> daemon_wf s d'"
proof (induction rule: daemon_step.induct)
  case (bus_register d E i res n)
  show ?case
  proof (cases res)
    case None
    with bus_register show ?thesis by (simp add: dbus_register_effect)
  next
    case (Some pid)
    have "daemon_wf s (if may_register E n pid d then registered F i n pid d else d)"
      using bus_register by (simp add: daemon_wf_registered)
    from daemon_wf_core [OF this dbus_register_effect(2)] Some show ?thesis by simp
  qed
next
  case (bus_changed E res xml d r d')
  then show ?case by (auto simp: dbus_domain_changed_def intro: updateState_wf split: option.splits if_splits)
next
  case (bus_required res xml d r d')
  then show ?case
    by (auto simp: dbus_required_domain_def intro: daemon_wf_core client_required_domain_core split: option.splits if_splits)
next
  case (question E usai d d')
  then show ?case using kthread_round_wf by blast
next
  case (cleaner d pidList)
  then show ?case by (auto simp: ClientsCleaner_run_eq daemon_wf_def osorted_filter list_all_iff)
next
  case (handler disk path pp mem tgid entries sig k d status k' d')
  then show ?case using child_handler_wf by blast
next
  case (event d ev)
  then show ?case by (rule daemon_wf_sendEvent)
next
  case (reset d ev)
  then show ?case by (simp add: onEvent_def resetToDefaultDomain_def setCurrentDomain_eq daemon_wf_moved)
qed

lemma daemon_steps_wf: "(daemon_step F X)\<^sup>*\<^sup>* d d' \<Longrightarrow> daemon_wf s d \<Longrightarrow> daemon_wf s d'"
  by (induction rule: rtranclp_induct) (auto intro: daemon_step_wf)

end
