(* ===== verification/Configuration_Sessions.thy ===== *)
theory Configuration_Sessions
  imports Configuration_Edits
begin

text \<open>
  Editing sessions: all the actions on a configuration that the editor offers, as values, and what every sequence of
  them keeps.  The whole invariant \<open>config_wf\<close> survives the actions that leave loops and rules with
  their programs; a weaker one, \<open>config_ordered\<close>, survives all.
\<close>

section \<open>Actions\<close>

datatype edit_action =
    NewLoop bool bool rule_dialog
  | NewRule bool bool rule_dialog
  | EditLoop int rule_dialog
  | EditRule int rule_dialog
  | DeleteLoop int
  | DeleteRule int
  | DeleteAbstractRule int
  | SwapPriorities int int
  | AddDomain domain bool
  | EditDomain string bool domain bool
  | DeleteDomain string "string option"
  | AddProgram program bool
  | UpdateProgram string program
  | DeleteProgram string

fun perform :: "framework \<Rightarrow> edit_action \<Rightarrow> configuration \<Rightarrow> configuration" where
  "perform F (NewLoop p n dialog) c = newLoop p n dialog c"
| "perform F (NewRule p n dialog) c = newRule p n dialog c"
| "perform F (EditLoop i dialog) c = editLoop F i dialog c"
| "perform F (EditRule i dialog) c = editRule F i dialog c"
| "perform F (DeleteLoop i) c = snd (deleteLoop_id i False c)"
| "perform F (DeleteRule i) c = snd (deleteRule_id i False c)"
| "perform F (DeleteAbstractRule i) c = snd (deleteAbstractRule_id i c)"
| "perform F (SwapPriorities i j) c = swapPriorities i j c"
| "perform F (AddDomain d set_default) c = addDomain d set_default c"
| "perform F (EditDomain name edited d set_default) c = editDomain name edited d set_default c"
| "perform F (DeleteDomain name choice) c = onDomainDelete name choice c"
| "perform F (AddProgram p quiet) c = snd (addProgram F p quiet c)"
| "perform F (UpdateProgram old_name p) c = snd (updateProgram F old_name p c)"
| "perform F (DeleteProgram name) c = snd (deleteProgram F name c)"

text \<open>The dialogs edit a loop or rule of the list that is shown.\<close>

fun offered :: "configuration \<Rightarrow> edit_action \<Rightarrow> bool" where
  "offered c (EditLoop i dialog) \<longleftrightarrow> i \<in> ids (cf_loops c)"
| "offered c (EditRule i dialog) \<longleftrightarrow> i \<in> ids (cf_rules c)"
| "offered c _ \<longleftrightarrow> True"

text \<open>Actions that leave every loop and rule with its program and create no rule without a target.\<close>

fun in_place :: "framework \<Rightarrow> configuration \<Rightarrow> edit_action \<Rightarrow> bool" where
  "in_place F c (NewRule p n dialog) \<longleftrightarrow> dg_target dialog \<noteq> Domain0"
| "in_place F c (EditLoop i dialog) \<longleftrightarrow>
     \<not> program_isValid F (dg_program dialog) \<or> app_name (dg_program dialog) = rule_key (findLoop i c)"
| "in_place F c (EditRule i dialog) \<longleftrightarrow>
     \<not> program_isValid F (dg_program dialog) \<or> app_name (dg_program dialog) = rule_key (findRule i c)"
| "in_place F c (UpdateProgram old_name p) \<longleftrightarrow> app_name p = old_name"
| "in_place F c _ \<longleftrightarrow> True"

fun session :: "framework \<Rightarrow> edit_action list \<Rightarrow> configuration \<Rightarrow> configuration" where
  "session F [] c = c"
| "session F (a # as) c = session F as (perform F a c)"

fun session_all :: "(configuration \<Rightarrow> edit_action \<Rightarrow> bool) \<Rightarrow> framework \<Rightarrow> edit_action list \<Rightarrow> configuration \<Rightarrow> bool" where
  "session_all Q F [] c \<longleftrightarrow> True"
| "session_all Q F (a # as) c \<longleftrightarrow> Q c a \<and> session_all Q F as (perform F a c)"

text \<open>One action on a configuration.\<close>

inductive edit_step :: "framework \<Rightarrow> configuration \<Rightarrow> configuration \<Rightarrow> bool" for F where
  edit: "offered c a \<Longrightarrow> edit_step F c (perform F a c)"

section \<open>The whole invariant\<close>

lemma deleteAbstractRule_id_wf:
  assumes "config_wf c"
  shows "config_wf (snd (deleteAbstractRule_id i c))"
  using assms deleteLoop_wf deleteRule_wf
  by (cases "findAbstractRule i c") (simp_all add: deleteAbstractRule_id_def)

lemma perform_wf:
  assumes "config_wf c" "offered c a" "in_place F c a"
  shows "config_wf (perform F a c)"
proof (cases a)
  case (EditDomain name edited d set_default)
  then show ?thesis using assms(1) by (simp add: editDomain_def updateDomain_wf)
next
  case (DeleteDomain name choice)
  then show ?thesis using assms(1) by (simp add: onDomainDelete_def deleteDomain_wf split: option.split)
qed (use assms in \<open>simp_all add: newLoop_wf newRule_wf editLoop_wf editRule_wf deleteLoop_id_wf deleteRule_id_wf
    deleteAbstractRule_id_wf swapPriorities_wf addDomain_wf addProgram_wf updateProgram_wf deleteProgram_wf\<close>)

section \<open>Tables in order\<close>

definition table_ordered :: "'a table \<Rightarrow> bool" where
  "table_ordered m \<longleftrightarrow> osorted m \<and> (\<forall>(k, l) \<in> set m. sorted (map ar_priority l))"

text \<open>A table in order with identifiers from a given set only.\<close>

definition table_within :: "int set \<Rightarrow> 'a table \<Rightarrow> bool" where
  "table_within I m \<longleftrightarrow> table_ordered m \<and> ids m \<subseteq> I"

lemma table_ordered_iff:
  "table_ordered m \<longleftrightarrow> osorted m \<and> (\<forall>k l. ofind m k = Some l \<longrightarrow> sorted (map ar_priority l))"
  using om.entry_iff by (fastforce simp: table_ordered_def)

lemma table_wf_ordered: "table_wf m \<Longrightarrow> table_ordered m"
  by (simp add: table_wf_def table_ordered_def)

lemma within_value:
  assumes "table_within I m"
  shows "sorted (map ar_priority (ovalue [] m k))" "r \<in> set (ovalue [] m k) \<Longrightarrow> ar_id r \<in> I"
proof -
  have m: "osorted m" "\<And>k l. ofind m k = Some l \<Longrightarrow> sorted (map ar_priority l)" "\<And>r. r \<in> set (table_all m) \<Longrightarrow> ar_id r \<in> I"
    using assms by (auto simp: table_within_def table_ordered_iff ids_def)
  show "sorted (map ar_priority (ovalue [] m k))"
    using m(2) by (simp add: ovalue_def split: option.split)
  have "set l \<subseteq> set (table_all m)" if "ofind m k = Some l" for l
    using that ovals_iff [OF m(1)] by (auto simp: table_all_def)
  with m(3) show "r \<in> set (ovalue [] m k) \<Longrightarrow> ar_id r \<in> I"
    by (cases "ofind m k") (auto simp: ovalue_def)
qed

lemma within_oinsert:
  assumes "table_within I m" "sorted (map ar_priority l)" "\<And>r. r \<in> set l \<Longrightarrow> ar_id r \<in> I"
  shows "table_within I (oinsert k l (snd (oindex [] k m)))"
proof -
  have m: "osorted m" "ar_id ` set (table_all m) \<subseteq> I"
    using assms(1) by (simp_all add: table_within_def table_ordered_def ids_def)
  have "set (table_all (oinsert k l (snd (oindex [] k m)))) \<subseteq> set l \<union> set (table_all m)"
    using arg_cong [OF table_all_ovalue [OF m(1), of k l], of set_mset] by auto
  then have "ids (oinsert k l (snd (oindex [] k m))) \<subseteq> I"
    using m(2) assms(3) by (auto simp: ids_def)
  moreover have "table_ordered (oinsert k l (snd (oindex [] k m)))"
    using assms(1,2) within_value(1) [OF assms(1), of k] m(1)
    by (auto simp: table_within_def table_ordered_iff ofind_oindex osorted_oinsert osorted_oindex split: if_splits)
  ultimately show ?thesis by (simp add: table_within_def)
qed

lemma within_add: "table_within I m \<Longrightarrow> ar_id r \<in> I \<Longrightarrow> table_within I (table_add r m)"
  unfolding table_add_eq
  by (rule within_oinsert) (use within_value in \<open>auto intro: insert_prio_sorted\<close>)

lemma within_delete: "table_within I m \<Longrightarrow> table_within I (table_delete r m)"
proof -
  assume m: "table_within I m"
  obtain x l where e: "erase_id (ar_id r) (ovalue [] m (rule_key r)) = (x, l)" by fastforce
  from erase_id_spec [OF e] within_value(1) [OF m, of "rule_key r"] have l: "sorted (map ar_priority l)"
    "set l \<subseteq> set (ovalue [] m (rule_key r))" by blast+
  from l(2) within_value(2) [OF m] have "\<And>r. r \<in> set l \<Longrightarrow> ar_id r \<in> I" by blast
  with l(1) show ?thesis unfolding table_delete_eq using m e by (simp add: within_oinsert)
qed

lemma within_update: "table_within I m \<Longrightarrow> ar_id r \<in> I \<Longrightarrow> table_within I (table_update r m)"
  by (simp add: table_update_def within_add within_delete)

lemma within_setProgram: "table_within I m \<Longrightarrow> table_within I (table_setProgram F p ai k m)"
  unfolding table_setProgram_eq
  by (rule within_oinsert) (use within_value in \<open>auto simp: o_def\<close>)

lemma within_delete_id:
  assumes "table_within I m"
  shows "table_within I (snd (table_delete_id i m))" "fst (table_delete_id i m) = Some r \<Longrightarrow> ar_id r \<in> I"
proof -
  obtain x m' where d: "table_delete_id i m = (x, m')" by fastforce
  have m: "osorted m" "\<forall>(k, l) \<in> set m. sorted (map ar_priority l)" "\<And>r. r \<in> set (table_all m) \<Longrightarrow> ar_id r \<in> I"
    using assms by (auto simp: table_within_def table_ordered_def ids_def)
  have "osorted m'"
    using m(1) okeys_table_delete_id [of i m] d by (simp add: osorted_def)
  moreover have "sorted (map ar_priority l')" if "(k, l') \<in> set m'" for k l'
    using table_delete_id_entries [of k l' i m] that d m(2) by auto
  moreover have sub: "set (table_all m') \<subseteq> set (table_all m)" "x = Some r \<Longrightarrow> r \<in> set (table_all m)" for r
    using table_delete_id_spec [OF d]
    by (cases x; simp; metis add_mset_add_single mset_eq_setD set_mset_add_mset_insert set_mset_mset subset_insertI
        insertI1 order_refl)+
  ultimately show "table_within I (snd (table_delete_id i m))" "fst (table_delete_id i m) = Some r \<Longrightarrow> ar_id r \<in> I"
    using m(3) d by (auto simp: table_within_def table_ordered_def ids_def subset_iff)
qed

section \<open>What every action keeps\<close>

text \<open>The maps are ordered, every domain and program is filed under its own name, the loops and the rules filed
  under a name are in order of priority, and identifiers are valid, not larger than the counter and not shared by a loop
  and a rule.\<close>

definition config_ordered :: "configuration \<Rightarrow> bool" where
  "config_ordered c \<longleftrightarrow>
     names_wf (domains c) (programs c) \<and> table_ordered (cf_loops c) \<and> table_ordered (cf_rules c) \<and>
     ids (cf_loops c) \<inter> ids (cf_rules c) = {} \<and>
     (\<forall>i \<in> ids (cf_loops c) \<union> ids (cf_rules c). InvalidId < i \<and> i \<le> idCounter c) \<and> InvalidId \<le> idCounter c"

lemma config_wf_ordered: "config_wf c \<Longrightarrow> config_ordered c"
  by (simp add: config_wf_def stores_wf_def config_ordered_def table_wf_ordered)

text \<open>Tables with identifiers from given sets, and the counter of a given configuration.\<close>

definition within :: "int set \<Rightarrow> int set \<Rightarrow> int \<Rightarrow> configuration \<Rightarrow> bool" where
  "within I J n c \<longleftrightarrow> table_within I (cf_loops c) \<and> table_within J (cf_rules c) \<and> idCounter c = n \<and> names_wf (domains c) (programs c)"

lemma ordered_within: "config_ordered c \<Longrightarrow> within (ids (cf_loops c)) (ids (cf_rules c)) (idCounter c) c"
  by (simp add: config_ordered_def within_def table_within_def)

lemma within_ordered:
  assumes "config_ordered c" "within (ids (cf_loops c)) (ids (cf_rules c)) (idCounter c) c'"
  shows "config_ordered c'"
  using assms unfolding config_ordered_def within_def table_within_def by fastforce

lemma within_emit [simp]: "within I J n (emit sg c) = within I J n c"
  by (simp add: within_def)

lemma within_ops [simp]:
  "within I J n c \<Longrightarrow> ar_id l \<in> I \<Longrightarrow> within I J n (addLoop l q c)"
  "within I J n c \<Longrightarrow> ar_id r \<in> J \<Longrightarrow> within I J n (addRule r q c)"
  "within I J n c \<Longrightarrow> within I J n (deleteLoop l q c)"
  "within I J n c \<Longrightarrow> within I J n (deleteRule r q c)"
  "within I J n c \<Longrightarrow> ar_id l \<in> I \<Longrightarrow> within I J n (updateLoop l q c)"
  "within I J n c \<Longrightarrow> ar_id r \<in> J \<Longrightarrow> within I J n (updateRule r q c)"
  by (simp_all add: within_def within_add within_delete within_update)

lemma within_delete_ids [simp]:
  assumes "within I J n c"
  shows "within I J n (snd (deleteLoop_id i q c))" "within I J n (snd (deleteRule_id i q c))"
    "arule_isValid (fst (deleteLoop_id i q c)) \<Longrightarrow> ar_id (fst (deleteLoop_id i q c)) \<in> I"
    "rule_isValid (fst (deleteRule_id i q c)) \<Longrightarrow> ar_id (fst (deleteRule_id i q c)) \<in> J"
proof -
  have t: "table_within I (cf_loops c)" "table_within J (cf_rules c)" using assms by (simp_all add: within_def)
  obtain x m where d: "table_delete_id i (cf_loops c) = (x, m)" by fastforce
  obtain y m' where e: "table_delete_id i (cf_rules c) = (y, m')" by fastforce
  from within_delete_id [OF t(1), of i] d have x: "table_within I m" "\<And>r. x = Some r \<Longrightarrow> ar_id r \<in> I" by simp_all
  from within_delete_id [OF t(2), of i] e have y: "table_within J m'" "\<And>r. y = Some r \<Longrightarrow> ar_id r \<in> J" by simp_all
  show "within I J n (snd (deleteLoop_id i q c))"
    "arule_isValid (fst (deleteLoop_id i q c)) \<Longrightarrow> ar_id (fst (deleteLoop_id i q c)) \<in> I"
    using assms x by (cases x; simp add: deleteLoop_id_def d within_def Let_def arule_isValid_def Loop0_def)+
  show "within I J n (snd (deleteRule_id i q c))"
    "rule_isValid (fst (deleteRule_id i q c)) \<Longrightarrow> ar_id (fst (deleteRule_id i q c)) \<in> J"
    using assms y by (cases y; simp add: deleteRule_id_def e within_def Let_def rule_isValid_def arule_isValid_def Rule0_def)+
qed

lemma within_swapPriorities: "within I J n c \<Longrightarrow> within I J n (swapPriorities i j c)"
  by (simp add: swapPriorities_def case_prod_beta Let_def within_delete_ids(3,4) [of I J n] del: quiet_ops)

lemma within_find:
  assumes "within I J n c"
  shows "i \<in> ids (cf_loops c) \<Longrightarrow> ar_id (findLoop i c) \<in> I" "i \<in> ids (cf_rules c) \<Longrightarrow> ar_id (findRule i c) \<in> J"
proof -
  have sub: "ids (cf_loops c) \<subseteq> I" "ids (cf_rules c) \<subseteq> J" using assms by (simp_all add: within_def table_within_def)
  show "i \<in> ids (cf_loops c) \<Longrightarrow> ar_id (findLoop i c) \<in> I"
    using sub(1) table_find_spec [of i "cf_loops c"] by (cases "table_find i (cf_loops c)") (auto simp: findLoop_def ids_def)
  show "i \<in> ids (cf_rules c) \<Longrightarrow> ar_id (findRule i c) \<in> J"
    using sub(2) table_find_spec [of i "cf_rules c"] by (cases "table_find i (cf_rules c)") (auto simp: findRule_def ids_def)
qed

lemma fold_within:
  assumes "\<And>x m. x \<in> set xs \<Longrightarrow> table_within I m \<Longrightarrow> table_within I (f x m)" "table_within I m"
  shows "table_within I (fold f xs m)"
  using assms by (induction xs arbitrary: m) auto

lemma ar_id_deleteTRule [simp]: "ar_id (snd (deleteTRule name r)) = ar_id r"
  by (simp add: deleteTRule_def case_prod_beta)

lemma steps_within:
  "table_within I m \<Longrightarrow> ar_id l \<in> I \<Longrightarrow> table_within I (dl_step name l m)"
  "table_within I m' \<Longrightarrow> ar_id r \<in> I \<Longrightarrow> table_within I (dr_step name r m')"
  "table_within I m \<Longrightarrow> ar_id l \<in> I \<Longrightarrow> table_within I (ul_step name d l m)"
  "table_within I m' \<Longrightarrow> ar_id r \<in> I \<Longrightarrow> table_within I (ur_step name d r m')"
  by (simp_all add: dl_step_def dr_step_def ul_step_def ur_step_def case_prod_beta Let_def within_delete_id within_update)

lemma domains_within:
  assumes "within (ids (cf_loops c)) (ids (cf_rules c)) n c"
  shows "within (ids (cf_loops c)) (ids (cf_rules c)) n (updateDomain old d sd c)"
    "within (ids (cf_loops c)) (ids (cf_rules c)) n (snd (deleteDomain name new_default c))"
proof -
  have w: "table_within (ids (cf_loops c)) (cf_loops c)" "table_within (ids (cf_rules c)) (cf_rules c)"
    "idCounter c = n" "names_wf (domains c) (programs c)"
    using assms by (simp_all add: within_def)
  have mem: "ar_id l \<in> ids (cf_loops c)" "ar_id r \<in> ids (cf_rules c)"
    if "l \<in> set (allLoops c)" "r \<in> set (allRules c)" for l r
    using that by (simp_all add: in_ids)
  show "within (ids (cf_loops c)) (ids (cf_rules c)) n (updateDomain old d sd c)"
  proof (cases "ocontains (domains c) old")
    case True
    have "table_within (ids (cf_loops c)) (fold (ul_step old d) (allLoops c) (cf_loops c))"
      "table_within (ids (cf_rules c)) (fold (ur_step old d) (allRules c) (cf_rules c))"
      by (rule fold_within; use w(1,2) in \<open>simp add: steps_within in_ids\<close>)+
    with w(3,4) show ?thesis
      by (simp add: within_def updateDomain_fields [OF True] names_wf_def osorted_oinsert osorted_oremove ofind_oremove)
  qed (simp add: updateDomain_def assms)
  have "table_within (ids (cf_loops c)) (fold (dl_step name) (allLoops c) (cf_loops c))"
    "table_within (ids (cf_rules c)) (fold (dr_step name) (allRules c) (cf_rules c))"
    by (rule fold_within; use w(1,2) in \<open>simp add: steps_within in_ids\<close>)+
  with w(3,4) show "within (ids (cf_loops c)) (ids (cf_rules c)) n (snd (deleteDomain name new_default c))"
    by (simp add: within_def deleteDomain_fields names_wf_def osorted_oremove osorted_oindex ofind_oremove ofind_oindex)
qed

lemma programs_within:
  assumes "within I J n c"
  shows "within I J n (snd (addProgram F p q c))" "within I J n (snd (updateProgram F old p c))"
    "within I J n (snd (deleteProgram F name c))"
  using assms
  by (simp_all add: within_def addProgram_def updateProgram_def deleteProgram_def Let_def within_setProgram names_wf_def
      osorted_oinsert osorted_oremove ofind_oremove)

lemma new_ordered:
  assumes "config_ordered c"
  shows "config_ordered (newLoop p n dialog c)" "config_ordered (newRule p n dialog c)"
proof -
  let ?n = "idCounter c + 1"
  have c: "table_within (insert ?n (ids (cf_loops c))) (cf_loops c)" "table_within (insert ?n (ids (cf_rules c))) (cf_rules c)"
    "ids (cf_loops c) \<inter> ids (cf_rules c) = {}" "\<forall>i \<in> ids (cf_loops c) \<union> ids (cf_rules c). InvalidId < i \<and> i \<le> idCounter c"
    "InvalidId \<le> idCounter c"
    using assms by (auto simp: config_ordered_def table_within_def)
  have new: "?n \<notin> ids (cf_loops c) \<union> ids (cf_rules c)"
  proof
    assume "?n \<in> ids (cf_loops c) \<union> ids (cf_rules c)"
    with c(4) have "?n \<le> idCounter c" by blast
    then show False by simp
  qed
  have bound: "\<forall>i \<in> insert ?n (ids (cf_loops c) \<union> ids (cf_rules c)). InvalidId < i \<and> i \<le> ?n"
    using c(4,5) by (metis add_increasing2 insert_iff le_less_trans less_add_one order_refl zero_le_one)
  show "config_ordered (newLoop p n dialog c)"
  proof (cases "dg_result dialog = Created")
    case True
    define l where "l = fold addTRule (dg_domains dialog) (fold addMRule (dg_mrules dialog)
      ((fst (Loop p n (dg_program dialog) (dg_display_name dialog) (idCounter c)))
        \<lparr>ar_notify := dg_notify dialog, ar_prompt := dg_prompt dialog\<rparr>))"
    have l: "ar_id l = ?n" by (simp add: l_def fold_addTRule fold_addMRule Loop_def)
    have t: "table_within (insert ?n (ids (cf_loops c))) (table_add l (cf_loops c))"
      using c(1) by (rule within_add) (simp add: l)
    then have "ids (table_add l (cf_loops c)) \<inter> ids (cf_rules c) = {}"
      "\<forall>i \<in> ids (table_add l (cf_loops c)) \<union> ids (cf_rules c). InvalidId < i \<and> i \<le> ?n"
      using c(3) new bound unfolding table_within_def by blast+
    moreover have "newLoop p n dialog c = addLoop l False (c\<lparr>idCounter := ?n\<rparr>)"
      using True by (simp add: newLoop_def l_def Loop_def Let_def)
    ultimately show ?thesis
      using assms t c(5) by (simp add: config_ordered_def table_within_def)
  qed (simp add: newLoop_def assms)
  show "config_ordered (newRule p n dialog c)"
  proof (cases "dg_result dialog = Created")
    case True
    define r where "r = fold addTRule (dg_domains dialog) (fold addMRule (dg_mrules dialog)
      ((fst (Rule p n (dg_program dialog) (dg_target dialog) (dg_display_name dialog) (idCounter c)))
        \<lparr>ar_notify := dg_notify dialog, ar_prompt := dg_prompt dialog\<rparr>))"
    have r: "ar_id r = ?n" by (simp add: r_def fold_addTRule fold_addMRule Rule_def)
    have t: "table_within (insert ?n (ids (cf_rules c))) (table_add r (cf_rules c))"
      using c(2) by (rule within_add) (simp add: r)
    then have "ids (cf_loops c) \<inter> ids (table_add r (cf_rules c)) = {}"
      "\<forall>i \<in> ids (cf_loops c) \<union> ids (table_add r (cf_rules c)). InvalidId < i \<and> i \<le> ?n"
      using c(3) new bound unfolding table_within_def by blast+
    moreover have "newRule p n dialog c = addRule r False (c\<lparr>idCounter := ?n\<rparr>)"
      using True by (simp add: newRule_def r_def Rule_def Let_def)
    ultimately show ?thesis
      using assms t c(5) by (simp add: config_ordered_def table_within_def)
  qed (simp add: newRule_def assms)
qed

lemma perform_ordered:
  assumes "config_ordered c" "offered c a"
  shows "config_ordered (perform F a c)"
proof -
  note w = ordered_within [OF assms(1)] and find = within_find [OF ordered_within [OF assms(1)]]
  have other: "config_ordered (perform F a c)" if "within (ids (cf_loops c)) (ids (cf_rules c)) (idCounter c) (perform F a c)"
    using assms(1) that by (rule within_ordered)
  show ?thesis
  proof (cases a)
    case (EditLoop i dialog)
    then show ?thesis
      using w find(1) [of i] assms(2) by (intro other) (simp add: editLoop_def split: dialog_result.split)
  next
    case (EditRule i dialog)
    then show ?thesis
      using w find(2) [of i] assms(2) by (intro other) (simp add: editRule_def split: dialog_result.split)
  next
    case (DeleteAbstractRule i)
    then show ?thesis
      using w by (intro other) (cases "findAbstractRule i c"; simp add: deleteAbstractRule_id_def)
  next
    case (AddDomain d set_default)
    then show ?thesis
      using w by (intro other) (simp add: addDomain_def within_def Let_def names_wf_def osorted_oinsert)
  next
    case (EditDomain name edited d set_default)
    then show ?thesis
      using w by (intro other) (simp add: editDomain_def domains_within)
  next
    case (DeleteDomain name choice)
    then show ?thesis
      using w by (intro other) (simp add: onDomainDelete_def domains_within split: option.split)
  qed (use w new_ordered [OF assms(1)] other in \<open>simp_all add: within_swapPriorities programs_within\<close>)
qed

lemma session_ordered:
  assumes "config_ordered c" "session_all offered F as c"
  shows "config_ordered (session F as c)"
  using assms by (induction as arbitrary: c) (simp_all add: perform_ordered)

lemma session_wf:
  assumes "config_wf c" "session_all offered F as c" "session_all (in_place F) F as c"
  shows "config_wf (session F as c)"
  using assms by (induction as arbitrary: c) (simp_all add: perform_wf)

section \<open>Properties\<close>

text \<open>
  C6: what every session of editing a configuration keeps.  The actions are all that the editor has on a
  configuration: creating, editing, deleting and reordering loops and rules, and adding, editing, renaming and deleting domains
  and programs; a loop or rule that is edited is one of the configuration.  From the empty configuration,
  every sequence of them leaves domains and programs filed under their own names in ordered maps, the loops and the rules
  filed under a name in order of priority, and identifiers that are valid, not larger than the counter and never
  shared by a loop and a rule.  If moreover no loop or rule is given another valid program in its dialog, no program
  is renamed and no rule is created without a target, every loop and rule is filed under
  its program's name, identifiers are unique, and no rule leads to the invalid domain.  (Moving a rule to another program leaves
  two with one identifier, and renaming a program leaves its rules under the old name.)
\<close>

theorem sessions_keep_invariant:
  assumes "session_all offered F as Configuration0"
  shows "config_ordered (session F as Configuration0) \<and>
    (session_all (in_place F) F as Configuration0 \<longrightarrow> config_wf (session F as Configuration0))"
  using session_ordered [OF config_wf_ordered [OF Configuration0_wf] assms] session_wf [OF Configuration0_wf assms] by blast

definition sample_program :: program where
  "sample_program = Program ''mutt'' ''Mutt'' [] ''/usr/bin/mutt'' []"

definition sample_domain :: "string \<Rightarrow> domain" where
  "sample_domain name = Domain name name [] [] 0 0"

definition sample_dialog :: "string \<Rightarrow> rule_dialog" where
  "sample_dialog source =
     \<lparr>dg_result = Created, dg_display_name = ''rule'', dg_program = sample_program,
      dg_target = sample_domain ''mail'', dg_notify = True, dg_prompt = False,
      dg_domains = [TRule source], dg_mrules = []\<rparr>"

definition sample_config :: configuration where
  "sample_config =
     newRule False False (sample_dialog ''web'')
       (newLoop False False (sample_dialog ''mail'')
         (addDomain (sample_domain ''web'') True (addDomain (sample_domain ''mail'') False
           (snd (addProgram simple_framework sample_program False Configuration0)))))"

theorem sessions_keep_invariant_witness: "config_wf sample_config"
proof -
  let ?as = "[AddProgram sample_program False, AddDomain (sample_domain ''mail'') False, AddDomain (sample_domain ''web'') True,
    NewLoop False False (sample_dialog ''mail''), NewRule False False (sample_dialog ''web'')]"
  have "session_all (in_place simple_framework) simple_framework ?as Configuration0"
    by (simp add: sample_dialog_def sample_domain_def Domain_def Domain0_def)
  then show ?thesis
    using sessions_keep_invariant [of simple_framework ?as] by (simp add: sample_config_def)
qed

end
