(* ===== verification/Configuration_Theorems.thy ===== *)
theory Configuration_Theorems
  imports Configuration_Sessions
begin

text \<open>
  The properties of the configuration: which transition is found, what deleting and renaming domains
  does to the rules that mention them, and where the editor's operations lose or duplicate rules.
\<close>

section \<open>A sample configuration\<close>

definition sample_loop :: loop where
  "sample_loop =
     \<lparr>ar_program = sample_program, ar_display_name = ''rule'', ar_id = 1, ar_priority = 1, ar_prompt = False,
      ar_notify = True, mrules = [], trules = [TRule ''mail'']\<rparr>"

definition sample_rule :: rule where
  "sample_rule =
     \<lparr>ar_program = sample_program, ar_display_name = ''rule'', ar_id = 2, ar_priority = 2, ar_prompt = False,
      ar_notify = True, mrules = [], trules = [TRule ''web''], transit_to = sample_domain ''mail''\<rparr>"

lemma sample_config_wf: "config_wf sample_config"
  unfolding sample_config_def
  by (intro newRule_wf newLoop_wf addDomain_wf addProgram_wf Configuration0_wf)
    (simp add: sample_dialog_def sample_domain_def Domain_def Domain0_def)

lemma sample_config_values:
  "cf_loops sample_config = [(''mutt'', [sample_loop])]"
  "cf_rules sample_config = [(''mutt'', [sample_rule])]"
  "okeys (domains sample_config) = [''mail'', ''web'']"
  "default_domain sample_config = sample_domain ''web''"
  by code_simp+

lemma sample_config_listed: "listed sample_config = [ALoop sample_loop, ARule sample_rule]"
  by (simp add: listed_def allAbstractRules_def sample_config_values)

lemma sample_config_ids: "arule_id ` set (listed sample_config) = {1, 2}"
  by (simp add: sample_config_listed sample_loop_def sample_rule_def)

section \<open>Priorities\<close>

text \<open>
  Exchanging the priorities of two different abstract rules of a well-formed configuration gives
  each the other's priority, changes nothing else of them and leaves all the others as they are; this
  holds whatever mixture of loops and rules the two are.
\<close>

theorem swapPriorities_exchanges:
  assumes "config_wf c" "i \<in> arule_id ` set (listed c)" "j \<in> arule_id ` set (listed c)" "i \<noteq> j"
  shows "mset (listed (swapPriorities i j c)) = mset (map (exchanged i j c) (listed c))"
proof -
  obtain a c1 where a: "take_arule i c = (Some a, c1)" by (rule take_arule_member [OF assms(1,2)])
  have wf1: "config_wf c1" by (rule take_arule_wf [OF assms(1) a])
  from ct.del_found [OF config_wf_tables [OF assms(1)] assms(2)] a assms(3,4)
  have "j \<in> arule_id ` set (listed c1)"
    by (metis (no_types, lifting) Pair_inject image_insert insertE option.inject set_mset_add_mset_insert set_mset_mset)
  then obtain b c2 where b: "take_arule j c1 = (Some b, c2)" by (rule take_arule_member [OF wf1])
  note t = take_two [OF assms(1) a b]
  have ab: "findAbstractRule i c = a" "findAbstractRule j c = b"
    using findAbstractRule_listed [OF assms(1)] t(1-4) by auto
  have "exchanged i j c x = x" if "x \<in> set (listed c2)" for x
    using that t(8,9) by (auto simp: exchanged_def)
  then have same: "image_mset (exchanged i j c) (mset (listed c2)) = mset (listed c2)"
    by (metis map_idI mset_map)
  have "mset (listed (swapPriorities i j c)) =
      {#with_priority (arule_priority a) b, with_priority (arule_priority b) a#} + mset (listed c2)"
  proof -
    let ?a = "with_priority (arule_priority b) a" and ?b = "with_priority (arule_priority a) b"
    have put: "mset (listed (put_arule ?a c2)) = add_mset ?a (mset (listed c2))"
      by (rule ct.add_all [OF config_wf_tables [OF t(6)]])
    have "tables_ok (put_arule ?a c2)"
      using t by (intro ct.add_inv config_wf_tables) simp_all
    then have "mset (listed (put_arule ?b (put_arule ?a c2))) = add_mset ?b (mset (listed (put_arule ?a c2)))"
      by (rule ct.add_all)
    then show ?thesis
      using a b put by (simp add: swapPriorities_eq [OF assms(1)] listed_def allAbstractRules_def)
  qed
  also have "\<dots> = image_mset (exchanged i j c) (mset (listed c))"
    using t(3-5) same unfolding t(10) by (simp add: exchanged_def [of i j c a] exchanged_def [of i j c b] ab)
  finally show ?thesis by simp
qed

theorem swapPriorities_exchanges_witness:
  "mset (listed (swapPriorities 1 2 sample_config)) =
     {#ALoop (sample_loop\<lparr>ar_priority := 2\<rparr>), ARule (sample_rule\<lparr>ar_priority := 1\<rparr>)#}"
proof -
  have "findAbstractRule 1 sample_config = ALoop sample_loop" "findAbstractRule 2 sample_config = ARule sample_rule"
    by code_simp+
  then show ?thesis
    using swapPriorities_exchanges [OF sample_config_wf, of 1 2]
    by (simp add: sample_config_ids) (simp add: sample_config_listed exchanged_def sample_loop_def sample_rule_def)
qed

text \<open>
  When only the first identifier exists, or both are the same, \<open>swapPriorities\<close> deletes the rule
  instead of leaving it alone.
\<close>

theorem swapPriorities_loses:
  assumes "config_wf c" "i \<in> arule_id ` set (listed c)" "j \<notin> arule_id ` set (listed c) \<or> j = i"
  shows "i \<notin> arule_id ` set (listed (swapPriorities i j c)) \<and>
    length (listed (swapPriorities i j c)) + 1 = length (listed c)"
proof -
  obtain a c1 where a: "take_arule i c = (Some a, c1)" by (rule take_arule_member [OF assms(1,2)])
  note out = take_arule_out [OF assms(1) a]
  have "j \<notin> arule_id ` set (listed c1)" using assms(3) out(3,5) by auto
  then have "take_arule j c1 = (None, c1)"
    by (rule ct.del_missing [OF config_wf_tables [OF take_arule_wf [OF assms(1) a]]])
  then have "swapPriorities i j c = c1" using a by (simp add: swapPriorities_eq [OF assms(1)])
  moreover have "length (listed c) = length (listed c1) + 1"
    using out(4) by (metis Suc_eq_plus1 size_add_mset size_mset)
  ultimately show ?thesis using out(3) by simp
qed


theorem swapPriorities_loses_witness: "1 \<notin> arule_id ` set (listed (swapPriorities 1 7 sample_config))"
  using swapPriorities_loses [OF sample_config_wf, of 1 7] by (simp add: sample_config_ids)

section \<open>Deleting and renaming domains\<close>





section \<open>Finding transitions\<close>

lemma settle_cases:
  "(\<exists>pre o1 post. os = pre @ o1 # post \<and> (\<forall>x \<in> set pre. \<not> decided x) \<and> decided o1 \<and> settle os = o1) \<or>
   ((\<forall>x \<in> set os. \<not> decided x) \<and> settle os = (Transition0, False))"
proof (induction os)
  case (Cons o1 os)
  show ?case
  proof (cases "decided o1")
    case True
    then show ?thesis by (intro disjI1 exI [of _ "[]"] exI [of _ o1] exI [of _ os]) simp
  next
    case False
    from Cons.IH show ?thesis
    proof
      assume "\<exists>pre o2 post. os = pre @ o2 # post \<and> (\<forall>x \<in> set pre. \<not> decided x) \<and> decided o2 \<and> settle os = o2"
      then obtain pre o2 post where "os = pre @ o2 # post" "\<forall>x \<in> set pre. \<not> decided x" "decided o2" "settle os = o2"
        by blast
      with False show ?thesis by (intro disjI1 exI [of _ "o1 # pre"] exI [of _ o2] exI [of _ post]) simp
    qed (use False in simp)
  qed
qed simp

text \<open>
  C5: the transition for a program is decided by the first loop or rule, in the order in which they are filed under the
  program's name (the order of priority, in a well-formed configuration) and loops first, that gives a valid transition or reports that it matched but refuses: its transition is the
  result, so a refusing loop or rule hides everything after it.  If none decides, there is no
  transition.  The two loops of the code, each with its early exits, and the jump over the rules after
  a refusing loop come to exactly this.
\<close>

theorem first_matching_transition:
  "(\<exists>pre t refused post.
      outcomes F c app current vals = pre @ (t, refused) # post \<and>
      (\<forall>(t', refused') \<in> set pre. \<not> tn_valid t' \<and> \<not> refused') \<and> (tn_valid t \<or> refused) \<and>
      getFirstMatchingTransition F c app current vals = t) \<or>
   ((\<forall>(t', refused') \<in> set (outcomes F c app current vals). \<not> tn_valid t' \<and> \<not> refused') \<and>
    getFirstMatchingTransition F c app current vals = Transition0)"
proof -
  let ?os = "outcomes F c app current vals"
  from settle_cases [of ?os] show ?thesis
  proof
    assume "\<exists>pre o1 post. ?os = pre @ o1 # post \<and> (\<forall>x \<in> set pre. \<not> decided x) \<and> decided o1 \<and> settle ?os = o1"
    then obtain pre o1 post where "?os = pre @ o1 # post" "\<forall>x \<in> set pre. \<not> decided x" "decided o1" "settle ?os = o1"
      by blast
    then show ?thesis
      unfolding getFirstMatchingTransition_eq
      by (intro disjI1 exI [of _ pre] exI [of _ "fst o1"] exI [of _ "snd o1"] exI [of _ post])
        (auto simp: decided_def)
  next
    assume "(\<forall>x \<in> set ?os. \<not> decided x) \<and> settle ?os = (Transition0, False)"
    then show ?thesis
      unfolding getFirstMatchingTransition_eq by (intro disjI2) (auto simp: decided_def)
  qed
qed

definition matching_config :: configuration where
  "matching_config =
     newRule False False ((sample_dialog ''web'')\<lparr>dg_mrules := [MRule sample_program [] []]\<rparr>) sample_config"

theorem first_matching_transition_witness:
  "getFirstMatchingTransition simple_framework matching_config sample_program (sample_domain ''web'') [] =
     Transition sample_program (sample_domain ''web'') (sample_domain ''mail'') False True"
proof -
  have "outcomes simple_framework matching_config sample_program (sample_domain ''web'') [] =
      [(Transition0, False), (Transition0, False),
       (Transition sample_program (sample_domain ''web'') (sample_domain ''mail'') False True, False)]"
    by code_simp
  with first_matching_transition [of simple_framework matching_config sample_program "sample_domain ''web''" "[]"]
  show ?thesis by (auto simp: append_eq_Cons_conv Cons_eq_append_conv)
qed

section \<open>Moving rules and renaming programs\<close>

lemma table_update_elsewhere:
  assumes "table_wf m" "r0 \<in> set (table_all m)" "ar_id r = ar_id r0" "rule_key r \<noteq> rule_key r0"
  shows "mset (table_all (table_update r m)) = add_mset r (mset (table_all m))"
proof -
  obtain x l where e: "erase_id (ar_id r) (ovalue [] m (rule_key r)) = (x, l)" by fastforce
  have sorted: "osorted m" using assms(1) by (simp add: table_wf_def)
  have "x = None"
  proof (rule ccontr)
    assume "x \<noteq> None"
    then obtain y where "x = Some y" by blast
    with erase_id_spec [OF e] have y: "y \<in># mset (ovalue [] m (rule_key r))" "ar_id y = ar_id r" by auto
    then have "rule_key y = rule_key r" using table_wf_values(1) [OF assms(1)] by simp
    with y have "y \<in> set (table_all m)" using in_table_all [OF assms(1), of y] by simp
    with y(2) assms have "y = r0" using tbl.id_unique [OF assms(1)] by simp
    with \<open>rule_key y = rule_key r\<close> assms(4) show False by simp
  qed
  with table_delete_all [OF sorted e] have "mset (table_all (table_delete r m)) = mset (table_all m)" by simp
  then show ?thesis
    unfolding table_update_def by (simp add: tbl.add_all [OF table_delete_wf [OF assms(1)]])
qed

text \<open>
  Editing a rule in the rule dialog and choosing another program for it does not move the rule but
  duplicates it: the old version stays where it was, and both carry the same identifier, so that the
  uniqueness of identifiers is lost.  \<open>updateRule\<close> looks for the old version under the name of the new
  program only.
\<close>

theorem moved_rule_is_duplicated:
  assumes "config_wf c" "i \<in> ids (cf_rules c)" "dg_result dialog = Edited"
    and "program_isValid F (dg_program dialog)" "app_name (dg_program dialog) \<noteq> rule_key (findRule i c)"
  shows "mset (allRules (editRule F i dialog c)) =
           add_mset (edited_rule F dialog (findRule i c)) (mset (allRules c)) \<and>
         ar_id (edited_rule F dialog (findRule i c)) = i \<and> \<not> config_wf (editRule F i dialog c)"
proof -
  let ?r = "edited_rule F dialog (findRule i c)"
  have wf: "table_wf (cf_rules c)" using assms(1) by (simp add: config_wf_def stores_wf_def)
  note r0 = findRule_member [OF assms(1,2)]
  have eq: "mset (allRules (editRule F i dialog c)) = add_mset ?r (mset (allRules c))"
    using table_update_elsewhere [OF wf r0(1), of ?r] assms(3-5)
    by (simp add: editRule_def allRules_def)
  have "i \<in> ar_id ` set (allRules c)" using assms(2) by (simp add: ids_def allRules_def)
  then have "\<not> distinct (map ar_id (?r # allRules c))" by (simp add: r0(2))
  then have "\<not> distinct (map ar_id (allRules (editRule F i dialog c)))"
    using distinct_map_mset [of "allRules (editRule F i dialog c)" "?r # allRules c" ar_id] eq by simp
  then have "\<not> config_wf (editRule F i dialog c)"
    by (simp add: config_wf_def stores_wf_def table_wf_def allRules_def)
  with eq r0(2) show ?thesis by simp
qed

definition moving_dialog :: rule_dialog where
  "moving_dialog =
     (sample_dialog ''web'')\<lparr>dg_result := Edited, dg_program := Program ''pine'' ''Pine'' [] ''/usr/bin/pine'' []\<rparr>"

theorem moved_rule_is_duplicated_witness:
  "length (allRules (editRule simple_framework 2 moving_dialog sample_config)) = 2"
proof -
  have "2 \<in> ids (cf_rules sample_config)" "findRule 2 sample_config = sample_rule"
    by (simp_all add: ids_def findRule_def table_find_def sample_config_values sample_rule_def)
  moreover have "dg_result moving_dialog = Edited" "program_isValid simple_framework (dg_program moving_dialog)"
    "app_name (dg_program moving_dialog) \<noteq> rule_key sample_rule" "length (allRules sample_config) = 1"
    by code_simp+
  ultimately have "mset (allRules (editRule simple_framework 2 moving_dialog sample_config)) =
      add_mset (edited_rule simple_framework moving_dialog sample_rule) (mset (allRules sample_config))"
    using moved_rule_is_duplicated [OF sample_config_wf, of 2 moving_dialog simple_framework] by simp
  then have "size (mset (allRules (editRule simple_framework 2 moving_dialog sample_config))) = Suc (length (allRules sample_config))"
    by simp
  with \<open>length (allRules sample_config) = 1\<close> show ?thesis by simp
qed

lemma ovalue_table_setProgram:
  "k \<noteq> k' \<Longrightarrow> ovalue [] (table_setProgram F p ai k m) k' = ovalue [] m k'"
  by (simp add: table_setProgram_eq ovalue_def ofind_oindex)

text \<open>
  Renaming a program orphans its rules.  \<open>updateProgram\<close> gives the rules the new program but leaves
  them filed under the old name, so for the program under its new name no transition is found (unless
  rules were already filed there), although not one rule was deleted.
\<close>

theorem renamed_program_loses_rules:
  assumes "config_wf c" "ocontains (programs c) old_name" "app_name p \<noteq> old_name"
    and "loopsForProgram c (app_name p) = []" "rulesForProgram c (app_name p) = []"
  shows "getFirstMatchingTransition F (snd (updateProgram F old_name p c)) p current vals = Transition0 \<and>
    length (allRules (snd (updateProgram F old_name p c))) = length (allRules c) \<and>
    length (allLoops (snd (updateProgram F old_name p c))) = length (allLoops c)"
proof -
  have sorted: "osorted (cf_loops c)" "osorted (cf_rules c)"
    using assms(1) by (simp_all add: config_wf_def stores_wf_def table_wf_def)
  have size: "length (table_all (table_setProgram F p True old_name m)) = length (table_all m)"
    if "osorted m" for m :: "'x table"
    using arg_cong [OF table_setProgram_ids(1) [OF that, of F p True old_name], of size] by simp
  show ?thesis
    using assms(2-5) size [OF sorted(1)] size [OF sorted(2)]
    by (simp add: updateProgram_def Let_def getFirstMatchingTransition_def ovalue_table_setProgram
        loopsForProgram_def rulesForProgram_def allLoops_def allRules_def)
qed

theorem renamed_program_loses_rules_witness:
  "getFirstMatchingTransition simple_framework
     (snd (updateProgram simple_framework ''mutt'' (Program ''neomutt'' ''NeoMutt'' [] ''/usr/bin/mutt'' []) sample_config))
     (Program ''neomutt'' ''NeoMutt'' [] ''/usr/bin/mutt'' []) (sample_domain ''web'') [] = Transition0"
proof -
  have "ocontains (programs sample_config) ''mutt''" by code_simp
  moreover have "loopsForProgram sample_config ''neomutt'' = []" "rulesForProgram sample_config ''neomutt'' = []"
    by (simp_all add: loopsForProgram_def rulesForProgram_def sample_config_values ovalue_def)
  ultimately show ?thesis
    using renamed_program_loses_rules [OF sample_config_wf, of "''mutt''" "Program ''neomutt'' ''NeoMutt'' [] ''/usr/bin/mutt'' []"]
    by (simp add: Program_def)
qed

end
