(* ===== verification/Daemon_Theorems.thy ===== *)
theory Daemon_Theorems
  imports Daemon_Effects Configuration_Theorems
begin

text \<open>
  The properties of the daemon.  \<open>granted\<close> says when a request is accepted, \<open>found\<close> is the transition
  that the rules give for it.
\<close>

section \<open>Programs registered with the kernel\<close>

text \<open>The names that the kernel watches, up to the 16 characters it compares.\<close>

definition watched :: "kstate \<Rightarrow> string set" where
  "watched k = set (prog_keys (prog_list k))"

definition ours :: "int \<Rightarrow> kstate \<Rightarrow> bool" where
  "ours tgid k = (prog_list_wf (prog_list k) \<and> contextd_pid k = tgid \<and> tgid \<noteq> - 1)"

lemma reg_some:
  assumes "ours tgid k"
  shows "ours tgid (snd (sys_auditsec_reg ok tgid 1 (Some n) k))"
    "watched (snd (sys_auditsec_reg ok tgid 1 (Some n) k)) = (if ok then insert (comm_key n) (watched k) else watched k)"
    "fst (sys_auditsec_reg ok tgid 1 (Some n) k) = 1 \<longleftrightarrow> ok \<and> comm_key n \<notin> watched k"
proof -
  obtain r ps where reg: "register_prog ok (Some n) (prog_list k) = (r, ps)" by fastforce
  have "prog_list_wf ps" "prog_keys ps = (if ok \<and> comm_key n \<notin> set (prog_keys (prog_list k)) then comm_key n # prog_keys (prog_list k) else prog_keys (prog_list k))"
    using register_prog_wf [of "prog_list k" ok "Some n"] register_prog_keys [of ok "Some n" "prog_list k"] assms
    by (simp_all add: reg ours_def)
  moreover have "r = 0 \<longleftrightarrow> ok \<and> comm_key n \<notin> watched k"
    using reg by (auto simp: register_prog_def prog_listed_iff watched_def EFAULT_def ENOMEM_def split: if_splits)
  moreover have "sys_auditsec_reg ok tgid 1 (Some n) k = (if r = 0 then 1 else - EFAULT, k\<lparr>prog_list := ps\<rparr>)"
    using assms reg by (simp add: sys_auditsec_reg_def ours_def)
  ultimately show "ours tgid (snd (sys_auditsec_reg ok tgid 1 (Some n) k))"
    "watched (snd (sys_auditsec_reg ok tgid 1 (Some n) k)) = (if ok then insert (comm_key n) (watched k) else watched k)"
    "fst (sys_auditsec_reg ok tgid 1 (Some n) k) = 1 \<longleftrightarrow> ok \<and> comm_key n \<notin> watched k"
    using assms by (auto simp: ours_def watched_def EFAULT_def)
qed

lemma unreg_some:
  assumes "ours tgid k"
  shows "ours tgid (snd (sys_auditsec_reg ok tgid 0 (Some n) k))"
    "watched (snd (sys_auditsec_reg ok tgid 0 (Some n) k)) = watched k - {comm_key n}"
proof -
  obtain r ps where unreg: "unregister_prog n (prog_list k) = (r, ps)" by fastforce
  have "prog_list_wf ps" "prog_keys ps = remove1 (comm_key n) (prog_keys (prog_list k))"
    using unregister_prog_wf [of "prog_list k" n] unregister_prog_keys [of n "prog_list k"] assms
    by (simp_all add: unreg ours_def)
  moreover have "snd (sys_auditsec_reg ok tgid 0 (Some n) k) = k\<lparr>prog_list := ps\<rparr>"
    using assms unreg by (simp add: sys_auditsec_reg_def ours_def Let_def)
  ultimately show "ours tgid (snd (sys_auditsec_reg ok tgid 0 (Some n) k))"
    "watched (snd (sys_auditsec_reg ok tgid 0 (Some n) k)) = watched k - {comm_key n}"
    using assms by (auto simp: ours_def watched_def prog_list_wf_def)
qed

lemma unregister_fold:
  "ours tgid k \<Longrightarrow>
   ours tgid (fold (\<lambda>name k. snd (sys_auditsec_reg True tgid 0 (Some name) k)) l k) \<and>
   watched (fold (\<lambda>name k. snd (sys_auditsec_reg True tgid 0 (Some name) k)) l k) = watched k - comm_key ` set l"
  by (induction l arbitrary: k) (auto simp: unreg_some)

lemma reload_fold:
  assumes "ours tgid k" "\<forall>n \<in> set tmp. mem n" "comm_key ` set l \<subseteq> watched k"
  shows "case fold (reload_one mem tgid) tmp (k, l) of (k', l') \<Rightarrow>
    ours tgid k' \<and> l' = filter (\<lambda>x. x \<notin> set tmp) l \<and> watched k' = watched k \<union> comm_key ` set tmp"
  using assms
proof (induction tmp arbitrary: k l)
  case (Cons n tmp)
  define k1 where "k1 = (if n \<in> set l then k else snd (sys_auditsec_reg (mem n) tgid 1 (Some n) k))"
  define l1 where "l1 = (if n \<in> set l then removeAll n l else l)"
  have step: "reload_one mem tgid n (k, l) = (k1, l1)"
    by (simp add: reload_one_def k1_def l1_def)
  have k1: "ours tgid k1" "watched k1 = insert (comm_key n) (watched k)"
    using reg_some [OF Cons.prems(1), of "mem n" n] Cons.prems by (auto simp: k1_def)
  have "comm_key ` set l1 \<subseteq> watched k1" using Cons.prems(3) k1(2) by (auto simp: l1_def)
  moreover have "\<forall>n \<in> set tmp. mem n" using Cons.prems(2) by simp
  moreover have "filter (\<lambda>x. x \<notin> set tmp) l1 = filter (\<lambda>x. x \<notin> set (n # tmp)) l"
    by (auto simp: l1_def removeAll_filter_not_eq intro!: filter_cong)
  ultimately show ?case using Cons.IH [OF k1(1)] k1(2) by (simp add: step case_prod_beta)
qed simp

lemma register_fold:
  assumes "ours tgid k" "watched k = comm_key ` set l"
  shows "case fold (register_one mem tgid) ns (k, l) of (k', l') \<Rightarrow> ours tgid k' \<and> watched k' = comm_key ` set l'"
  using assms
proof (induction ns arbitrary: k l)
  case (Cons n ns)
  define k1 where "k1 = snd (sys_auditsec_reg (mem n) tgid 1 (Some n) k)"
  define l1 where "l1 = (if fst (sys_auditsec_reg (mem n) tgid 1 (Some n) k) \<noteq> 1 then l else l @ [n])"
  have "ours tgid k1" "watched k1 = comm_key ` set l1"
    using reg_some [OF Cons.prems(1), of "mem n" n] Cons.prems(2) by (auto simp: k1_def l1_def)
  moreover have "register_one mem tgid n (k, l) = (k1, l1)"
    by (simp add: register_one_def k1_def l1_def case_prod_beta)
  ultimately show ?case using Cons.IH by simp
qed simp

section \<open>The two threads\<close>

text \<open>
  The main thread serves the calls on the bus, and the thread for the kernel its questions, each one after the other.  Both
  take the lock of \<open>updateState\<close> for reading only and give it back before the hooks, so that each may run up
  to that point, or from it to the end, while the other waits there.  The state is the daemon and what each
  thread has decided but not carried out yet.
\<close>

inductive thread_step ::
    "framework \<Rightarrow> daemon \<times> (client \<times> transition) option \<times> (client \<times> transition) option \<Rightarrow>
     daemon \<times> (client \<times> transition) option \<times> (client \<times> transition) option \<Rightarrow> bool" for F where
  bus_decided: "ocontains (clients d) pid \<Longrightarrow> updateState_locked F E pid xml d = Inr (Unlocked c t d') \<Longrightarrow>
     thread_step F (d, None, k) (d', Some (c, t), k)"
| bus_returned: "ocontains (clients d) pid \<Longrightarrow> updateState_locked F E pid xml d = Inr (Returned r d') \<Longrightarrow>
     thread_step F (d, None, k) (d', None, k)"
| bus_finished: "thread_step F (d, Some (c, t), k) (snd (accept_transition F E c t d), None, k)"
| kernel_decided: "kthread_round_locked F E usai d = Inr (Waiting c t d') \<Longrightarrow>
     thread_step F (d, b, None) (d', b, Some (c, t))"
| kernel_answered: "kthread_round_locked F E usai d = Inr (Answered d') \<Longrightarrow> thread_step F (d, b, None) (d', b, None)"
| kernel_finished: "thread_step F (d, b, Some (c, t)) (kthread_finish F E c t d, b, None)"

text \<open>A thread that is not interrupted does what the calls and rounds of the other theorems do.\<close>

lemma thread_step_bus:
  assumes "dbus_domain_changed F E (Some pid) xml d = Inr (r, d')" "ocontains (clients d) pid"
  shows "(thread_step F)\<^sup>*\<^sup>* (d, None, k) (d', None, k)"
proof -
  obtain u where u: "updateState_locked F E pid xml d = Inr u"
    "(case u of Returned r d \<Rightarrow> Inr (r, d) | Unlocked c t d \<Rightarrow> Inr (accept_transition F E c t d)) = (Inr (r, d') :: fault + string \<times> daemon)"
    using assms by (auto simp: dbus_domain_changed_def updateState_def bind_fault_Inr_iff)
  show ?thesis
  proof (cases u)
    case (Returned r0 d0)
    then show ?thesis using u bus_returned [OF assms(2), of F E xml r d'] by auto
  next
    case (Unlocked c t d0)
    then have "thread_step F (d, None, k) (d0, Some (c, t), k)" "thread_step F (d0, Some (c, t), k) (d', None, k)"
      using u bus_decided [OF assms(2), of F E xml c t d0] bus_finished [of F d0 c t k E] by auto
    then show ?thesis by (meson r_into_rtranclp rtranclp_trans)
  qed
qed

lemma thread_step_kernel:
  assumes "kthread_round F E usai d = Inr d'"
  shows "(thread_step F)\<^sup>*\<^sup>* (d, b, None) (d', b, None)"
proof -
  obtain p where p: "kthread_round_locked F E usai d = Inr p"
    "(case p of Answered d \<Rightarrow> Inr d | Waiting c t d \<Rightarrow> Inr (kthread_finish F E c t d)) = (Inr d' :: fault + daemon)"
    using assms unfolding kthread_round_pieces bind_fault_Inr_iff by blast
  show ?thesis
  proof (cases p)
    case (Answered d0)
    then show ?thesis using p kernel_answered [of F E usai d d'] by auto
  next
    case (Waiting c t d0)
    then have "thread_step F (d, b, None) (d0, b, Some (c, t))" "thread_step F (d0, b, Some (c, t)) (d', b, None)"
      using p kernel_decided [of F E usai d c t d0] kernel_finished [of F d0 b c t E] by auto
    then show ?thesis by (meson r_into_rtranclp rtranclp_trans)
  qed
qed

text \<open>A domain that no source of a program's loops and rules matches has no transition.\<close>

lemma no_source_no_transition:
  assumes "\<forall>l \<in> set (loopsForProgram c (app_name app)). find (\<lambda>t. trule_matches F t (dom_name current)) (trules l) = None"
    and "\<forall>r \<in> set (rulesForProgram c (app_name app)). find (\<lambda>t. trule_matches F t (dom_name current)) (trules r) = None"
  shows "getFirstMatchingTransition F c app current vals = Transition0"
proof -
  have loop: "find (\<lambda>t. trule_matches F t (dom_name current)) (trules r) = None \<Longrightarrow>
      fst (mrules_loop F T r app current vals ms) = Transition0" for T ms and r :: "'x abstract_rule_scheme"
    by (induction ms) simp_all
  have none: "find (\<lambda>t. trule_matches F t (dom_name current)) (trules r) = None \<Longrightarrow>
      fst (arule_matches F T r app current vals) = Transition0" for T and r :: "'x abstract_rule_scheme"
    by (simp add: arule_matches_def loop)
  have first: "\<forall>x \<in> set xs. fst (m x) = Transition0 \<Longrightarrow> fst (first_match m xs) = Transition0"
    for m :: "'x \<Rightarrow> transition \<times> bool" and xs
    by (induction xs) (simp_all add: case_prod_beta)
  have "fst (first_match (\<lambda>l. loop_matches F l app current vals) (ovalue [] (cf_loops c) (app_name app))) = Transition0"
    "fst (first_match (\<lambda>r. rule_matches F r app current vals) (ovalue [] (cf_rules c) (app_name app))) = Transition0"
    using assms by (auto intro!: first simp: loop_matches_def rule_matches_def none loopsForProgram_def rulesForProgram_def)
  then show ?thesis
    by (simp add: getFirstMatchingTransition_def case_prod_beta)
qed

lemma updateState_unlocks:
  assumes "parse_context xml = Inr (True, vals)" "tn_valid (found F d pid vals)" "user_agrees E d pid (found F d pid vals)"
  shows "updateState_locked F E pid xml d =
    Inr (Unlocked (updateCurrentState vals (ovalue (ContextClient [] Program0 0) (clients d) pid)) (found F d pid vals)
      (state_stored pid vals d))"
  using assms
  by (simp add: updateState_locked_def Let_def found_def program_at_def user_agrees_def state_stored_def)

lemma accept_transition_fields:
  "conf (snd (accept_transition F E c t d)) = conf d"
  "piga_allows F E d \<Longrightarrow> domain_signals (snd (accept_transition F E c t d)) = domain_signals d @ [(c_domain d, tn_transit_to t)]"
  "piga_allows F E d \<Longrightarrow> c_domain (snd (accept_transition F E c t d)) = tn_transit_to t"
  "piga_enabled (snd (accept_transition F E c t d)) = piga_enabled d"
  using core_eqD [OF accept_transition_result(2) [of F E c t d]] by (auto simp: moved_def)

section \<open>Properties\<close>

text \<open>
  C3: a request of an application is accepted exactly if its document is well-formed, the rules have
  a valid transition for its program from the current domain with the given values, the user agrees if the
  transition asks, and the prevention system allows it or is switched off.  Then the daemon moves to the target of that
  transition and announces this once; in every other case the domain stays.
\<close>

theorem domain_changes_by_transition:
  assumes "updateState F E pid xml d = Inr (r, d')"
  shows "(r = CONTEXT_ACCEPT \<longleftrightarrow> (\<exists>vals. parse_context xml = Inr (True, vals) \<and> granted F E d pid vals)) \<and>
    (\<forall>vals. parse_context xml = Inr (True, vals) \<longrightarrow> r = CONTEXT_ACCEPT \<longrightarrow>
       c_domain d' = tn_transit_to (found F d pid vals) \<and>
       domain_signals d' = domain_signals d @ [(c_domain d, tn_transit_to (found F d pid vals))]) \<and>
    (r \<noteq> CONTEXT_ACCEPT \<longrightarrow> c_domain d' = c_domain d \<and> domain_signals d' = domain_signals d)"
proof (cases "parse_context xml")
  case (Inl e)
  with assms show ?thesis by (simp add: updateState_def updateState_locked_def)
next
  case (Inr q)
  obtain ok vals where q: "q = (ok, vals)" by fastforce
  show ?thesis
  proof (cases ok)
    case True
    from Inr q True have "parse_context xml = Inr (True, vals)" by simp
    then obtain d1 where "updateState F E pid xml d = Inr (if granted F E d pid vals then CONTEXT_ACCEPT else CONTEXT_REFUSE, d1)"
      "core d1 = core (served F E pid vals d)" by (rule updateState_parsed)
    with assms have r: "r = (if granted F E d pid vals then CONTEXT_ACCEPT else CONTEXT_REFUSE)"
      and core: "core d' = core (served F E pid vals d)" by simp_all
    show ?thesis
      using core_eqD(3,8) [OF core] Inr q True r by (cases "granted F E d pid vals") (simp_all add: served_def moved_def)
  next
    case False
    with Inr q updateState_unparsed [of xml vals F E pid d] assms have "r = DBUS_ERROR" "core d' = core d" by auto
    with core_eqD(3,8) [OF this(2)] Inr q False show ?thesis by simp
  qed
qed

text \<open>
  C7: the kernel thread answers every question it fetches exactly once and never faults, whatever the
  paths, the user, the prevention system and the rules are, provided the names it receives end with a zero byte.
\<close>

theorem every_question_answered:
  assumes "list_all (\<lambda>(E, usai). question_ok usai) qs"
  shows "\<exists>d' answers. kthread_run F qs d = Inr d' \<and> kernel_answers d' = kernel_answers d @ answers \<and>
    length answers = length qs"
  using assms
proof (induction F qs d rule: kthread_run.induct)
  case (1 F d)
  then show ?case by simp
next
  case (2 F E usai qs d)
  from 2(2) have "question_ok usai" by simp
  then obtain d1 where d1: "kthread_round F E usai d = Inr d1" and
    core: "core d1 = (case question_path (ai_struct usai) of
       None \<Rightarrow> core (answer True (introduced F E usai d))
     | Some path \<Rightarrow> core (answer (verdict F E (ai_pid usai) path (introduced F E usai d))
                             (settled F E (ai_pid usai) path (introduced F E usai d))))"
    by (rule kthread_round_effect)
  have "\<exists>b. kernel_answers d1 = kernel_answers d @ [b]"
    using core
    by (auto simp: core_def answer_def introduced_def registered_def settled_def served_def moved_def split: option.splits)
  then obtain b where "kernel_answers d1 = kernel_answers d @ [b]" ..
  with 2(1) [of d1] 2(2) d1 show ?case by auto
qed

text \<open>
  C18: reading the directory of programs again brings the kernel's table in step with it, if it was in step with the
  daemon's list before, memory suffices, and the names differ in the characters that the kernel compares.
\<close>

theorem reload_synchronises:
  assumes "ours tgid k" "watched k = comm_key ` set (programList_k d)"
    and "\<forall>n \<in> set (map chop4 (clearProgList entries)). mem n"
    and "inj_on comm_key (set (map chop4 (clearProgList entries)) \<union> set (programList_k d))"
  shows "case reloadProgramList mem tgid entries k d of (k', d') \<Rightarrow>
    programList_k d' = map chop4 (clearProgList entries) \<and> ours tgid k' \<and>
    watched k' = comm_key ` set (map chop4 (clearProgList entries))"
proof -
  let ?tmp = "map chop4 (clearProgList entries)"
  obtain k1 l1 where fold: "fold (reload_one mem tgid) ?tmp (k, programList_k d) = (k1, l1)" by fastforce
  have k1: "ours tgid k1" "l1 = filter (\<lambda>x. x \<notin> set ?tmp) (programList_k d)" "watched k1 = watched k \<union> comm_key ` set ?tmp"
    using reload_fold [of tgid k ?tmp mem "programList_k d"] assms(1,2,3) unfolding fold by simp_all
  have "watched k1 - comm_key ` set l1 = comm_key ` set ?tmp"
    using assms(2,4) by (auto simp: k1(2,3) inj_on_def)
  with unregister_fold [OF k1(1), of l1] show ?thesis
    unfolding reloadProgramList_def Let_def fold by simp
qed

text \<open>
  C19: an application is registered exactly if its process is known, has no entry yet, and the file it runs is
  the path that the configuration has for the program it claims to be; it then stands under its process
  with that program.  This holds for applications on the bus and for those the kernel asks about.
\<close>

theorem registration_requires_whitelist:
  "let pid = ai_pid usai;
       p = ovalue Program0 (programs (conf d)) n;
       ok = (pid \<noteq> 0 \<and> \<not> ocontains (clients d) pid \<and> ocontains (programs (conf d)) n \<and> full_path p = exe_link E pid)
   in fst (dbus_register_application F E i (Some pid) n d) = (if ok then DBUS_SUCCESS else DBUS_ERROR) \<and>
      clients (snd (dbus_register_application F E i (Some pid) n d)) =
        (if ok then oinsert pid (ContextClient i p pid) (clients d) else clients d) \<and>
      fst (kernel_register_application F E usai n d) = (if ok then KERNEL_SUCCESS else KERNEL_ERROR) \<and>
      clients (snd (kernel_register_application F E usai n d)) =
        (if ok then oinsert pid (ContextClient [] p pid) (clients d) else clients d) \<and>
      dbus_register_application F E i None n d = (DBUS_ERROR, d)"
proof -
  have may: "may_register E n pid d \<longleftrightarrow> pid \<noteq> 0 \<and> \<not> ocontains (clients d) pid \<and> ocontains (programs (conf d)) n \<and>
      full_path (ovalue Program0 (programs (conf d)) n) = exe_link E pid" for pid
    by (auto simp: may_register_def isProgramAllowed_def)
  obtain x where "snd (kernel_register_application F E usai n d) =
      (if may_register E n (ai_pid usai) d then registered F [] n (ai_pid usai) d else d)\<lparr>delivered := x\<rparr>"
    using kernel_register_effect(2) by blast
  then show ?thesis
    using core_eqD(2) [OF dbus_register_effect(2)]
    by (simp add: Let_def dbus_register_effect kernel_register_effect(1) may registered_def getProgramByName_def)
qed

text \<open>
  A process that is not registered and cannot be, because the configuration does not know the program or the
  path it runs from, is allowed whatever it asks for, without a look at the rules and without an effect.
\<close>

theorem unknown_programs_pass:
  assumes "question_ok usai" "question_path (ai_struct usai) = Some path" "\<not> ocontains (clients d) (ai_pid usai)"
    and "\<not> isProgramAllowed (conf d) (cstring (ai_execname usai)) (exe_link E (ai_pid usai))"
  shows "\<exists>d'. kthread_round F E usai d = Inr d' \<and> kernel_answers d' = kernel_answers d @ [True] \<and>
    c_domain d' = c_domain d \<and> clients d' = clients d"
proof -
  have "introduced F E usai d = d" using assms(4) by (simp add: introduced_def may_register_def)
  moreover obtain d' where "kthread_round F E usai d = Inr d'"
    "core d' = (case question_path (ai_struct usai) of
       None \<Rightarrow> core (answer True (introduced F E usai d))
     | Some path \<Rightarrow> core (answer (verdict F E (ai_pid usai) path (introduced F E usai d))
                             (settled F E (ai_pid usai) path (introduced F E usai d))))"
    using kthread_round_effect [OF assms(1)] by blast
  ultimately show ?thesis
    using assms(2,3) by (auto simp: verdict_def settled_def core_def answer_def)
qed

text \<open>
  C21: a pass of the cleaner, which starts again from the beginning of the table after every removal, ends and
  leaves exactly the applications whose process still exists, in their order.
\<close>

theorem cleaner_keeps_running:
  "clients (ClientsCleaner_run F pidList d) = filter (\<lambda>(pid, c). of_int_str F pid \<in> set pidList) (clients d)"
  by (auto simp: ClientsCleaner_run_eq intro!: filter_cong)

text \<open>
  C20: whatever calls, questions, signals, events and cleanings happen in whatever order, the table of applications stays
  sorted with every application under its own process, and the announced changes of the domain form a
  chain from the domain at the start to the current one.
\<close>

theorem daemon_invariant:
  assumes "daemon_wf start d" "(daemon_step F X)\<^sup>*\<^sup>* d d'"
  shows "daemon_wf start d'"
  using daemon_steps_wf [OF assms(2,1)] .

section \<open>Examples\<close>

text \<open>A configuration in which mail to \<open>bob\<close> leads from \<open>web\<close> to \<open>mail\<close> and the file \<open>/bank\<close> from \<open>web\<close> to \<open>bank\<close>.\<close>

definition value_rule :: "string \<times> string \<Rightarrow> string \<Rightarrow> configuration \<Rightarrow> configuration" where
  "value_rule condition target =
     newRule False False ((sample_dialog ''web'')\<lparr>dg_target := sample_domain target,
       dg_mrules := [(MRule sample_program [] [])\<lparr>conditions := [condition]\<rparr>]\<rparr>)"

definition race_config :: configuration where
  "race_config =
     value_rule (''fullpath'', ''/bank'') ''bank'' (value_rule (''to'', ''bob'') ''mail''
       (addDomain (sample_domain ''bank'') False (addDomain (sample_domain ''web'') True (addDomain (sample_domain ''mail'') False
         (snd (addProgram simple_framework sample_program False Configuration0))))))"

definition sample_daemon :: daemon where
  "sample_daemon =
     \<lparr>conf = race_config, clients = [(5, ContextClient ''a'' sample_program 5), (6, ContextClient ''b'' sample_program 6)],
      c_domain = sample_domain ''web'', dh_default = sample_domain ''web'', plugins = [''domainHolder''],
      piga_enabled = False, traceId = 0, programList_k = [], delivered = [], domain_signals = [], killed = [],
      user_notified = [], syslog = [], kernel_answers = []\<rparr>"

definition sample_env :: env where
  "sample_env =
     \<lparr>user_accepts = (\<lambda>_ _ _. False), piga_line = None, exe_link = (\<lambda>_. ''/usr/bin/mutt''), proc_stat = (\<lambda>_. None),
      proc_seccon = (\<lambda>_. None), now = 0, garbage = False\<rparr>"

definition to_bob :: string where
  "to_bob = ''<xmlContext><parameter name='' @ [CHR 0x22] @ ''to'' @ [CHR 0x22] @ '' value='' @ [CHR 0x22] @ ''bob'' @ [CHR 0x22] @ ''/></xmlContext>''"

lemma to_bob_parse: "parse_context to_bob = Inr (True, [(''to'', ''bob'')])"
  by code_simp

lemma sample_found: "found simple_framework sample_daemon 5 [(''to'', ''bob'')] =
    Transition sample_program (sample_domain ''web'') (sample_domain ''mail'') False True"
  by code_simp

definition file_question :: "string \<Rightarrow> int \<Rightarrow> string \<Rightarrow> auditsec_info" where
  "file_question prog pid path = \<lparr>ai_pid = pid, ai_execname = get_task_comm prog,
     ai_struct = AUDITSEC_FILE (strncpy_k ''a'' (NAME_MAX + 1)) (strncpy_k path (PATH_MAX + 1)) 4\<rparr>"

definition sample_question :: "string \<Rightarrow> auditsec_info" where
  "sample_question prog = file_question prog 9 ''/a''"

lemma sample_question_ok: "length (cstring prog) < 16 \<Longrightarrow> question_ok (sample_question prog)"
  by (simp add: question_ok_def sample_question_def file_question_def get_task_comm_def terminated_strncpy_k TASK_COMM_LEN_def
      PATH_MAX_def)

lemma bank_no_source:
  "\<forall>l \<in> set (loopsForProgram race_config name). find (\<lambda>t. trule_matches simple_framework t ''bank'') (trules l) = None"
  "\<forall>r \<in> set (rulesForProgram race_config name). find (\<lambda>t. trule_matches simple_framework t ''bank'') (trules r) = None"
proof -
  have sub: "set (ovalue [] m name) \<subseteq> set (table_all m)" for m :: "'x table"
    by (cases "ofind m name") (auto simp: ovalue_def table_all_def ovals_def dest!: map_of_SomeD)
  have "list_all (\<lambda>l. find (\<lambda>t. trule_matches simple_framework t ''bank'') (trules l) = None) (table_all (cf_loops race_config))"
    "list_all (\<lambda>r. find (\<lambda>t. trule_matches simple_framework t ''bank'') (trules r) = None) (table_all (cf_rules race_config))"
    by code_simp+
  with sub show "\<forall>l \<in> set (loopsForProgram race_config name). find (\<lambda>t. trule_matches simple_framework t ''bank'') (trules l) = None"
    "\<forall>r \<in> set (rulesForProgram race_config name). find (\<lambda>t. trule_matches simple_framework t ''bank'') (trules r) = None"
    unfolding loopsForProgram_def rulesForProgram_def list_all_iff by blast+
qed

lemma bank_context:
  "\<exists>xml. xmlContext (Some ''fullpath'') (Some ''/bank'') [(None, None)] = Inr xml \<and>
     parse_context xml = Inr (True, [(''fullpath'', ''/bank'')])"
proof -
  have "bind_fault (xmlContext (Some ''fullpath'') (Some ''/bank'') [(None, None)]) parse_context = Inr (True, [(''fullpath'', ''/bank'')])"
    by code_simp
  then show ?thesis unfolding bind_fault_Inr_iff .
qed

lemma bank_decided:
  assumes "ocontains (clients d) 6" "found simple_framework d 6 [(''fullpath'', ''/bank'')] = t" "tn_valid t" "\<not> promptUser t"
  shows "kthread_round_locked simple_framework E (file_question ''mutt'' 6 ''/bank'') d =
    Inr (Waiting (updateCurrentState [(''fullpath'', ''/bank'')] (ovalue (ContextClient [] Program0 0) (clients d) 6)) t
      (state_stored 6 [(''fullpath'', ''/bank'')] d))"
proof -
  let ?q = "file_question ''mutt'' 6 ''/bank''"
  obtain xml where xml: "xmlContext (Some ''fullpath'') (Some ''/bank'') [(None, None)] = Inr xml"
    "parse_context xml = Inr (True, [(''fullpath'', ''/bank'')])"
    using bank_context by blast
  have read: "c_text (strncpy_k ''/bank'' (PATH_MAX + 1)) = Inr ''/bank''" "c_text (ai_execname ?q) = Inr ''mutt''"
    by (simp_all add: c_text_def terminated_strncpy_k cstring_strncpy_k PATH_MAX_def file_question_def get_task_comm_def
        TASK_COMM_LEN_def)
  have "updateState_locked simple_framework E 6 xml d =
      Inr (Unlocked (updateCurrentState [(''fullpath'', ''/bank'')] (ovalue (ContextClient [] Program0 0) (clients d) 6)) t
        (state_stored 6 [(''fullpath'', ''/bank'')] d))"
    using updateState_unlocks [OF xml(2), of simple_framework d 6 E] assms(2-4) by (simp add: user_agrees_def)
  then have "kthread_path_locked simple_framework E ?q (strncpy_k ''/bank'' (PATH_MAX + 1)) d =
      Inr (Waiting (updateCurrentState [(''fullpath'', ''/bank'')] (ovalue (ContextClient [] Program0 0) (clients d) 6)) t
        (state_stored 6 [(''fullpath'', ''/bank'')] d))"
    unfolding kthread_path_locked_def read(1) using assms(1) by (simp add: xml(1)) (simp add: file_question_def)
  with assms(1) show ?thesis
    unfolding kthread_round_locked_def read(2) by (simp add: kernel_is_registered_def file_question_def)
qed

text \<open>
  C40: the daemon may move from one domain to another although no loop or rule has a transition between them, for any program
  and any values.  A call on the bus, already decided, waits after it has given back its lock; the thread for the kernel
  decides and carries out a transition for a question about a file, which moves the daemon away; and then the
  main thread carries out the transition that it had decided, from wherever the daemon is then.
\<close>

theorem stale_transition_taken:
  "\<exists>d. (thread_step simple_framework)\<^sup>*\<^sup>* (sample_daemon, None, None) (d, None, None) \<and>
     (sample_domain ''bank'', sample_domain ''mail'') \<in> set (domain_signals d) \<and>
     (\<forall>app vals. getFirstMatchingTransition simple_framework (conf d) app (sample_domain ''bank'') vals = Transition0)"
proof -
  let ?F = simple_framework and ?E = sample_env and ?vals = "[(''fullpath'', ''/bank'')]"
  let ?bob = "Transition sample_program (sample_domain ''web'') (sample_domain ''mail'') False True"
  let ?bank = "Transition sample_program (sample_domain ''web'') (sample_domain ''bank'') False True"
  define d1 where "d1 = state_stored 5 [(''to'', ''bob'')] sample_daemon"
  define d2 where "d2 = state_stored 6 ?vals d1"
  define c1 where "c1 = updateCurrentState [(''to'', ''bob'')] (ovalue (ContextClient [] Program0 0) (clients sample_daemon) 5)"
  define c2 where "c2 = updateCurrentState ?vals (ovalue (ContextClient [] Program0 0) (clients d1) 6)"
  define d3 where "d3 = kthread_finish ?F ?E c2 ?bank d2"
  define d4 where "d4 = snd (accept_transition ?F ?E c1 ?bob d3)"
  have quiet: "tn_valid ?bob" "tn_valid ?bank" "user_agrees ?E d pid ?bob" "\<not> promptUser ?bank" for d pid
    by (simp_all add: Transition_def user_agrees_def)
  have known: "ocontains (clients sample_daemon) 5" "ocontains (clients d1) 6"
    by (simp_all add: d1_def state_stored_def sample_daemon_def ocontains_def)
  have "thread_step ?F (sample_daemon, None, None) (d1, Some (c1, ?bob), None)"
    using updateState_unlocks [OF to_bob_parse, of ?F sample_daemon 5 ?E] quiet known
    by (intro bus_decided [where pid = 5 and xml = to_bob and E = ?E]) (simp_all add: sample_found d1_def c1_def)
  moreover have "found ?F d1 6 ?vals = ?bank" unfolding d1_def by code_simp
  then have "thread_step ?F (d1, Some (c1, ?bob), None) (d2, Some (c1, ?bob), Some (c2, ?bank))"
    using bank_decided [OF known(2) _ quiet(2,4), of ?E] unfolding d2_def c2_def by (intro kernel_decided)
  moreover have "thread_step ?F (d2, Some (c1, ?bob), Some (c2, ?bank)) (d3, Some (c1, ?bob), None)"
    unfolding d3_def by (rule kernel_finished)
  moreover have "thread_step ?F (d3, Some (c1, ?bob), None) (d4, None, None)"
    unfolding d4_def by (rule bus_finished)
  ultimately have "(thread_step ?F)\<^sup>*\<^sup>* (sample_daemon, None, None) (d4, None, None)"
    by (meson converse_rtranclp_into_rtranclp rtranclp.rtrancl_refl)
  moreover have off: "\<not> piga_enabled d2" by (simp add: d2_def d1_def sample_daemon_def)
  have d3: "d3 = answer (fst (accept_transition ?F ?E c2 ?bank d2) = CONTEXT_ACCEPT) (snd (accept_transition ?F ?E c2 ?bank d2))"
    by (simp add: d3_def kthread_finish_def case_prod_beta)
  have allow: "piga_allows ?F ?E d2" "piga_allows ?F ?E d3"
    using off by (simp_all add: piga_allows_def d3 answer_def accept_transition_fields)
  have "c_domain d3 = sample_domain ''bank''"
    using allow by (simp add: d3 answer_def accept_transition_fields) (simp add: Transition_def)
  then have "(sample_domain ''bank'', sample_domain ''mail'') \<in> set (domain_signals d4)"
    using allow by (simp add: d4_def accept_transition_fields) (simp add: Transition_def)
  moreover have "conf d4 = race_config"
    by (simp add: d4_def d3 answer_def d2_def d1_def accept_transition_fields) (simp add: sample_daemon_def)
  moreover have "getFirstMatchingTransition ?F race_config app (sample_domain ''bank'') vals = Transition0" for app vals
    by (rule no_source_no_transition) (use bank_no_source in \<open>simp_all add: sample_domain_def Domain_def\<close>)
  ultimately show ?thesis by (intro exI [of _ d4]) simp
qed

text \<open>
  A program that the kernel could not register for want of memory during a reload is in the daemon's list all
  the same, so that a later reload does not try again and the program is never watched.
\<close>

theorem failed_registration_not_retried:
  "let (k1, d1) = reloadProgramList (\<lambda>_. False) 7 [''mutt.xml''] (kstate_static\<lparr>contextd_pid := 7, daemon_launched := True\<rparr>) sample_daemon;
       (k2, d2) = reloadProgramList (\<lambda>_. True) 7 [''mutt.xml''] k1 d1
   in programList_k d2 = [''mutt''] \<and> prog_is_monitored ''mutt'' (prog_list k2) = 0"
  by (simp add: reloadProgramList_def reload_one_def clearProgList_def chop4_def sys_auditsec_reg_def kstate_static_def
      register_prog_def prog_is_monitored_def sample_daemon_def Let_def)

theorem domain_changes_by_transition_witness:
  "\<exists>d'. updateState simple_framework sample_env 5 to_bob sample_daemon = Inr (CONTEXT_ACCEPT, d') \<and>
     c_domain d' = sample_domain ''mail''"
proof -
  have granted: "granted simple_framework sample_env sample_daemon 5 [(''to'', ''bob'')]"
    by (simp add: granted_def sample_found user_agrees_def piga_allows_def)
      (simp add: sample_daemon_def Transition_def)
  obtain d' where d': "updateState simple_framework sample_env 5 to_bob sample_daemon = Inr (CONTEXT_ACCEPT, d')"
    using updateState_parsed [OF to_bob_parse, of simple_framework sample_env 5 sample_daemon] granted by (auto simp: if_P)
  with domain_changes_by_transition [OF d'] to_bob_parse sample_found show ?thesis
    by (simp add: Transition_def)
qed

theorem every_question_answered_witness:
  "\<exists>d' answers. kthread_run simple_framework [(sample_env, sample_question ''mutt'')] sample_daemon = Inr d' \<and>
     kernel_answers d' = answers \<and> length answers = 1"
  using every_question_answered [of "[(sample_env, sample_question ''mutt'')]" simple_framework sample_daemon]
    sample_question_ok [of "''mutt''"]
  by (simp add: sample_daemon_def)

theorem unknown_programs_pass_witness:
  "\<exists>d'. kthread_round simple_framework sample_env (sample_question ''evil'') sample_daemon = Inr d' \<and> kernel_answers d' = [True]"
proof -
  have "\<not> isProgramAllowed (conf sample_daemon) (cstring (ai_execname (sample_question ''evil''))) (exe_link sample_env (ai_pid (sample_question ''evil'')))"
    by code_simp
  moreover have "question_path (ai_struct (sample_question ''evil'')) = Some (cstring (strncpy_k ''/a'' (PATH_MAX + 1)))"
    by (simp add: sample_question_def file_question_def)
  moreover have "\<not> ocontains (clients sample_daemon) (ai_pid (sample_question ''evil''))"
    by (simp add: sample_daemon_def sample_question_def file_question_def ocontains_def)
  ultimately show ?thesis
    using unknown_programs_pass [of "sample_question ''evil''" _ sample_daemon sample_env simple_framework]
      sample_question_ok [of "''evil''"]
    by (auto simp: sample_daemon_def)
qed

theorem daemon_invariant_witness:
  "daemon_wf (sample_domain ''web'') (onEvent RestartEvent sample_daemon)"
proof (rule daemon_invariant)
  show "daemon_wf (sample_domain ''web'') sample_daemon"
    by (simp add: daemon_wf_def sample_daemon_def client_ok_def ContextClient_def)
  show "(daemon_step simple_framework tree_xml)\<^sup>*\<^sup>* sample_daemon (onEvent RestartEvent sample_daemon)"
    by (intro r_into_rtranclp daemon_step.reset)
qed

theorem reload_synchronises_witness:
  "case reloadProgramList (\<lambda>_. True) 7 [''.'', ''..'', ''mutt.xml''] (kstate_static\<lparr>contextd_pid := 7, daemon_launched := True\<rparr>) sample_daemon
   of (k', d') \<Rightarrow> programList_k d' = [''mutt''] \<and> watched k' = {comm_key ''mutt''}"
proof -
  have tmp: "map chop4 (clearProgList [''.'', ''..'', ''mutt.xml'']) = [''mutt'']"
    by (simp add: clearProgList_def chop4_def)
  have "ours 7 (kstate_static\<lparr>contextd_pid := 7, daemon_launched := True\<rparr>)"
    "watched (kstate_static\<lparr>contextd_pid := 7, daemon_launched := True\<rparr>) = comm_key ` set (programList_k sample_daemon)"
    by (simp_all add: ours_def watched_def kstate_static_def sample_daemon_def)
  from reload_synchronises [OF this, of "[''.'', ''..'', ''mutt.xml'']" "\<lambda>_. True"] show ?thesis
    by (simp add: tmp sample_daemon_def case_prod_beta)
qed

end
