(* ===== verification/Auditsec_Protocol.thy ===== *)
theory Auditsec_Protocol
  imports Auditsec_Kernel
begin

text \<open>
  The question/answer protocol between the hooks and the daemon, with all interleavings.

  Any number of tasks run the exchange of the hooks (\<open>hook_exchange\<close>) while the daemon's kernel thread
  loops over \<open>sys_auditsec_question\<close> and \<open>sys_auditsec_answer\<close>.  \<open>pwork\<close> is one step of one of them; the
  pieces between two scheduling points are the functions of theory \<open>Auditsec_Kernel\<close>, and taking a
  semaphore needs a positive value (theory \<open>Semaphores\<close> shows that the kernel's semaphores are
  implementations of this).  The switches \<open>tmo\<close> and \<open>cpf\<close> allow the time-outs of the hooks and the
  failures of copying the question to the daemon.  \<open>decide\<close> is the daemon's policy.

  Shown: mutual exclusion of the exchanges, whatever times out; without time-outs a hook never
  allows what the daemon's policy forbids, and returns exactly the policy's decision if no copy fails
  either; without time-outs the protocol never gets stuck and every exchange ends; with time-outs,
  an execution in which a hook takes the late answer to another task's question for its own.
\<close>

type_synonym request = "task_struct \<times> auditsec_struct"

definition request_info :: "request \<Rightarrow> auditsec_info" where
  "request_info r = \<lparr>ai_pid = task_pid (fst r), ai_execname = get_task_comm (task_comm (fst r)),
                     ai_struct = snd r\<rparr>"

datatype hook_pc =
    HIdle
  | HWant request
  | HHolds request
  | HFilled request
  | HAsked request
  | HGot request
  | HRead request int
  | HGaveUp request
  | HDone request int

datatype daemon_pc = DIdle | DTaken | DHas "auditsec_info option" | DStored

record pstate =
  ks :: kstate
  hpc :: "nat \<Rightarrow> hook_pc"
  dpc :: daemon_pc

definition take_hook :: "kstate \<Rightarrow> kstate" where
  "take_hook s = s\<lparr>auditsec_hook_lock := auditsec_hook_lock s - 1\<rparr>"

definition take_question :: "kstate \<Rightarrow> kstate" where
  "take_question s = s\<lparr>auditsec_question_lock := auditsec_question_lock s - 1\<rparr>"

definition take_answer :: "kstate \<Rightarrow> kstate" where
  "take_answer s = s\<lparr>auditsec_answer_lock := auditsec_answer_lock s - 1\<rparr>"

definition goto :: "pstate \<Rightarrow> nat \<Rightarrow> hook_pc \<Rightarrow> kstate \<Rightarrow> pstate" where
  "goto p t pc s = p\<lparr>ks := s, hpc := (hpc p)(t := pc)\<rparr>"

inductive pstart :: "pstate \<Rightarrow> pstate \<Rightarrow> bool" where
  start: "hpc p t \<in> {HIdle} \<union> {HDone r' v' |r' v'. True} \<Longrightarrow>
    prog_is_monitored (task_comm cur) (prog_list (ks p)) \<noteq> 0 \<Longrightarrow> daemon_launched (ks p) \<Longrightarrow>
    pstart p (goto p t (HWant (cur, d)) (ks p))"

inductive pwork :: "bool \<Rightarrow> bool \<Rightarrow> (auditsec_info option \<Rightarrow> int) \<Rightarrow> pstate \<Rightarrow> pstate \<Rightarrow> bool"
  for tmo cpf :: bool and decide :: "auditsec_info option \<Rightarrow> int" where
  get_hook: "hpc p t = HWant r \<Longrightarrow> auditsec_hook_lock (ks p) > 0 \<Longrightarrow>
    pwork tmo cpf decide p (goto p t (HHolds r) (take_hook (ks p)))"
| hook_timeout: "tmo \<Longrightarrow> hpc p t = HWant r \<Longrightarrow>
    pwork tmo cpf decide p (goto p t (HDone r (- EFAULT)) (ks p))"
| fill: "hpc p t = HHolds (cur, d) \<Longrightarrow>
    pwork tmo cpf decide p (goto p t (HFilled (cur, d)) (set_info cur d (ks p)))"
| ask: "hpc p t = HFilled r \<Longrightarrow>
    pwork tmo cpf decide p (goto p t (HAsked r) (up_question (ks p)))"
| get_answer: "hpc p t = HAsked r \<Longrightarrow> auditsec_answer_lock (ks p) > 0 \<Longrightarrow>
    pwork tmo cpf decide p (goto p t (HGot r) (take_answer (ks p)))"
| answer_timeout: "tmo \<Longrightarrow> hpc p t = HAsked r \<Longrightarrow>
    pwork tmo cpf decide p (goto p t (HGaveUp r) (trylock_question (ks p)))"
| give_up: "hpc p t = HGaveUp r \<Longrightarrow>
    pwork tmo cpf decide p (goto p t (HDone r (- EFAULT)) (up_hook (ks p)))"
| read_answer: "hpc p t = HGot r \<Longrightarrow>
    pwork tmo cpf decide p (goto p t (HRead r (fst (hook_read_answer (ks p)))) (ks p))"
| leave: "hpc p t = HRead r v \<Longrightarrow>
    pwork tmo cpf decide p (goto p t (HDone r v) (up_hook (ks p)))"
| d_take: "dpc p = DIdle \<Longrightarrow> auditsec_question_lock (ks p) > 0 \<Longrightarrow>
    pwork tmo cpf decide p (p\<lparr>ks := take_question (ks p), dpc := DTaken\<rparr>)"
| d_copy: "dpc p = DTaken \<Longrightarrow>
    pwork tmo cpf decide p (p\<lparr>dpc := DHas (k_auditsec_info (ks p))\<rparr>)"
| d_copy_fails: "cpf \<Longrightarrow> dpc p = DTaken \<Longrightarrow>
    pwork tmo cpf decide p (p\<lparr>ks := (ks p)\<lparr>auditsec_answer := 0\<rparr>, dpc := DStored\<rparr>)"
| d_store: "dpc p = DHas i \<Longrightarrow>
    pwork tmo cpf decide p (p\<lparr>ks := (ks p)\<lparr>auditsec_answer := decide i\<rparr>, dpc := DStored\<rparr>)"
| d_answer: "dpc p = DStored \<Longrightarrow>
    pwork tmo cpf decide p (p\<lparr>ks := up_answer (ks p), dpc := DIdle\<rparr>)"

definition pstep :: "bool \<Rightarrow> bool \<Rightarrow> (auditsec_info option \<Rightarrow> int) \<Rightarrow> pstate \<Rightarrow> pstate \<Rightarrow> bool" where
  "pstep tmo cpf decide p q = (pstart p q \<or> pwork tmo cpf decide p q)"

definition pinit :: "kstate \<Rightarrow> pstate" where
  "pinit s = \<lparr>ks = s\<lparr>auditsec_hook_lock := 1, auditsec_question_lock := 0, auditsec_answer_lock := 0\<rparr>,
              hpc = (\<lambda>t. HIdle), dpc = DIdle\<rparr>"

section \<open>Mutual exclusion\<close>

fun holds_lock :: "hook_pc \<Rightarrow> bool" where
  "holds_lock (HHolds r) = True"
| "holds_lock (HFilled r) = True"
| "holds_lock (HAsked r) = True"
| "holds_lock (HGot r) = True"
| "holds_lock (HRead r v) = True"
| "holds_lock (HGaveUp r) = True"
| "holds_lock _ = False"

text \<open>Nobody holds the hook lock and it is free, or exactly one task holds it and it is taken.\<close>

definition lock_inv :: "pstate \<Rightarrow> bool" where
  "lock_inv p = (auditsec_hook_lock (ks p) = 1 \<and> (\<forall>t. \<not> holds_lock (hpc p t)) \<or>
     auditsec_hook_lock (ks p) = 0 \<and> (\<exists>t. holds_lock (hpc p t) \<and> (\<forall>u. holds_lock (hpc p u) \<longrightarrow> u = t)))"

lemmas p_defs = goto_def take_hook_def take_question_def take_answer_def k_defs

lemma lock_inv_same:
  assumes "lock_inv p" "auditsec_hook_lock (ks q) = auditsec_hook_lock (ks p)"
    "\<And>u. holds_lock (hpc q u) = holds_lock (hpc p u)"
  shows "lock_inv q"
  using assms by (simp add: lock_inv_def)

lemma lock_inv_goto:
  assumes "lock_inv p" "auditsec_hook_lock s = auditsec_hook_lock (ks p)"
    "holds_lock pc = holds_lock (hpc p t)"
  shows "lock_inv (goto p t pc s)"
  by (rule lock_inv_same [OF assms(1)]) (use assms in \<open>simp_all add: goto_def\<close>)

lemma lock_inv_acquire:
  assumes "lock_inv p" "auditsec_hook_lock (ks p) > 0" "holds_lock pc"
  shows "lock_inv (goto p t pc (take_hook (ks p)))"
  using assms by (auto simp: lock_inv_def goto_def take_hook_def)

lemma lock_inv_release:
  assumes "lock_inv p" "holds_lock (hpc p t)" "\<not> holds_lock pc"
  shows "lock_inv (goto p t pc (up_hook (ks p)))"
proof -
  have "auditsec_hook_lock (ks p) = 0" "\<And>u. holds_lock (hpc p u) \<Longrightarrow> u = t"
    using assms(1,2) by (auto simp: lock_inv_def)
  then show ?thesis
    using assms(3) by (auto simp: lock_inv_def goto_def up_hook_def)
qed

lemma lock_inv_pstart: "pstart p q \<Longrightarrow> lock_inv p \<Longrightarrow> lock_inv q"
  by (induction rule: pstart.induct) (auto intro!: lock_inv_goto)

lemma lock_inv_pwork: "pwork tmo cpf decide p q \<Longrightarrow> lock_inv p \<Longrightarrow> lock_inv q"
proof (induction rule: pwork.induct)
  case (get_hook p t r)
  then show ?case by (simp add: lock_inv_acquire)
next
  case (give_up p t r)
  then show ?case by (simp add: lock_inv_release)
next
  case (leave p t r v)
  then show ?case by (simp add: lock_inv_release)
next
  case (d_take p)
  show ?case by (rule lock_inv_same [OF d_take.prems]) (simp_all add: take_question_def)
next
  case (d_copy p)
  show ?case by (rule lock_inv_same [OF d_copy.prems]) simp_all
next
  case (d_copy_fails p)
  show ?case by (rule lock_inv_same [OF d_copy_fails.prems]) simp_all
next
  case (d_store p i)
  show ?case by (rule lock_inv_same [OF d_store.prems]) simp_all
next
  case (d_answer p)
  show ?case by (rule lock_inv_same [OF d_answer.prems]) (simp_all add: up_answer_def)
qed (simp_all add: lock_inv_goto k_defs take_answer_def)

lemma lock_inv_init: "lock_inv (pinit s)"
  by (simp add: lock_inv_def pinit_def)

lemma lock_inv_reachable: "(pstep tmo cpf decide)\<^sup>*\<^sup>* (pinit s) p \<Longrightarrow> lock_inv p"
  by (induction rule: rtranclp_induct)
    (auto simp: pstep_def lock_inv_init intro: lock_inv_pstart lock_inv_pwork)

lemma lock_inv_unique: "lock_inv p \<Longrightarrow> holds_lock (hpc p t) \<Longrightarrow> holds_lock (hpc p u) \<Longrightarrow> t = u"
  by (auto simp: lock_inv_def)

section \<open>Executions without time-outs\<close>

text \<open>What a task finds as answer to a request: the policy's decision, or the refusal the question
  call stores when the copy to the daemon fails.\<close>

definition right_answer :: "bool \<Rightarrow> (auditsec_info option \<Rightarrow> int) \<Rightarrow> request \<Rightarrow> int \<Rightarrow> bool" where
  "right_answer cpf decide r v = (v = decide (Some (request_info r)) \<or> cpf \<and> v = 0)"

text \<open>The result a hook makes of an answer.\<close>

definition right_result :: "bool \<Rightarrow> (auditsec_info option \<Rightarrow> int) \<Rightarrow> request \<Rightarrow> int \<Rightarrow> bool" where
  "right_result cpf decide r v = (\<exists>a. right_answer cpf decide r a \<and> v = (if a = 0 then - EACCES else 0))"

text \<open>Nothing is under way between the hooks and the daemon.\<close>

definition quiet :: "pstate \<Rightarrow> bool" where
  "quiet p = (auditsec_question_lock (ks p) = 0 \<and> auditsec_answer_lock (ks p) = 0 \<and> dpc p = DIdle)"

text \<open>The stages of a request that has been asked.\<close>

definition in_exchange :: "bool \<Rightarrow> (auditsec_info option \<Rightarrow> int) \<Rightarrow> request \<Rightarrow> pstate \<Rightarrow> bool" where
  "in_exchange cpf decide r p =
     (let q = auditsec_question_lock (ks p); a = auditsec_answer_lock (ks p);
          right = right_answer cpf decide r (auditsec_answer (ks p))
      in k_auditsec_info (ks p) = Some (request_info r) \<and>
         (q = 1 \<and> a = 0 \<and> dpc p = DIdle \<or>
          q = 0 \<and> a = 0 \<and> dpc p = DTaken \<or>
          q = 0 \<and> a = 0 \<and> dpc p = DHas (Some (request_info r)) \<or>
          q = 0 \<and> a = 0 \<and> dpc p = DStored \<and> right \<or>
          q = 0 \<and> a = 1 \<and> dpc p = DIdle \<and> right))"

definition stage_ok :: "bool \<Rightarrow> (auditsec_info option \<Rightarrow> int) \<Rightarrow> pstate \<Rightarrow> hook_pc \<Rightarrow> bool" where
  "stage_ok cpf decide p pc =
     (case pc of
        HHolds r \<Rightarrow> quiet p
      | HFilled r \<Rightarrow> quiet p \<and> k_auditsec_info (ks p) = Some (request_info r)
      | HAsked r \<Rightarrow> in_exchange cpf decide r p
      | HGot r \<Rightarrow> quiet p \<and> right_answer cpf decide r (auditsec_answer (ks p))
      | HRead r v \<Rightarrow> quiet p \<and> right_result cpf decide r v
      | HGaveUp r \<Rightarrow> False
      | HDone r v \<Rightarrow> right_result cpf decide r v
      | _ \<Rightarrow> True)"

definition exch_inv :: "bool \<Rightarrow> (auditsec_info option \<Rightarrow> int) \<Rightarrow> pstate \<Rightarrow> bool" where
  "exch_inv cpf decide p =
     (lock_inv p \<and> (\<forall>t. stage_ok cpf decide p (hpc p t)) \<and> ((\<forall>t. \<not> holds_lock (hpc p t)) \<longrightarrow> quiet p))"

lemma stage_free: "\<not> holds_lock pc \<Longrightarrow> stage_ok cpf decide q pc = stage_ok cpf decide p pc"
  by (cases pc) (simp_all add: stage_ok_def)

lemma exch_inv_goto:
  assumes "exch_inv cpf decide p" "lock_inv (goto p t pc s)"
    and "\<And>u. u \<noteq> t \<Longrightarrow> \<not> holds_lock (hpc p u)"
    and "stage_ok cpf decide (goto p t pc s) pc" "\<not> holds_lock pc \<Longrightarrow> quiet (goto p t pc s)"
  shows "exch_inv cpf decide (goto p t pc s)"
proof -
  have hpc: "hpc (goto p t pc s) = (hpc p)(t := pc)"
    by (simp add: goto_def)
  have "stage_ok cpf decide (goto p t pc s) (((hpc p)(t := pc)) u)" for u
  proof (cases "u = t")
    case False
    then have "stage_ok cpf decide p (hpc p u)" "\<not> holds_lock (hpc p u)"
      using assms(1,3) by (simp_all add: exch_inv_def)
    with False stage_free [of "hpc p u" cpf decide "goto p t pc s" p] show ?thesis
      by simp
  qed (use assms(4) in simp)
  moreover have "(\<forall>u. \<not> holds_lock (((hpc p)(t := pc)) u)) \<Longrightarrow> quiet (goto p t pc s)"
    by (rule assms(5)) (metis fun_upd_same)
  ultimately show ?thesis
    using assms(2) by (simp add: exch_inv_def hpc)
qed

lemma exch_inv_daemon:
  assumes "exch_inv cpf decide p" "\<not> quiet p"
  obtains t r where "hpc p t = HAsked r" "in_exchange cpf decide r p"
    "\<And>q. lock_inv q \<Longrightarrow> hpc q = hpc p \<Longrightarrow> in_exchange cpf decide r q \<Longrightarrow> exch_inv cpf decide q"
proof -
  from assms obtain t where t: "holds_lock (hpc p t)"
    by (auto simp: exch_inv_def)
  have ok: "stage_ok cpf decide p (hpc p t)" and lock: "lock_inv p"
    using assms(1) by (simp_all add: exch_inv_def)
  from t ok assms(2) obtain r where r: "hpc p t = HAsked r"
    by (cases "hpc p t") (auto simp: stage_ok_def)
  have "exch_inv cpf decide q" if q: "lock_inv q" "hpc q = hpc p" "in_exchange cpf decide r q" for q
  proof -
    have "stage_ok cpf decide q (hpc p u)" for u
    proof (cases "u = t")
      case True
      with r q show ?thesis by (simp add: stage_ok_def)
    next
      case False
      with lock t have "\<not> holds_lock (hpc p u)" by (metis lock_inv_unique)
      with assms(1) stage_free [of "hpc p u" cpf decide q p] show ?thesis
        by (simp add: exch_inv_def)
    qed
    with q t show ?thesis by (auto simp: exch_inv_def)
  qed
  with that r ok show ?thesis by (auto simp: stage_ok_def)
qed

lemma stage_ok_cong:
  assumes "ks q = ks p" "dpc q = dpc p"
  shows "stage_ok cpf decide q pc = stage_ok cpf decide p pc"
  using assms by (cases pc) (simp_all add: stage_ok_def quiet_def in_exchange_def Let_def)

lemma exch_inv_pstart: "pstart p q \<Longrightarrow> exch_inv cpf decide p \<Longrightarrow> exch_inv cpf decide q"
proof (induction rule: pstart.induct)
  case (start p t cur d)
  let ?q = "goto p t (HWant (cur, d)) (ks p)"
  have hpc: "hpc ?q = (hpc p)(t := HWant (cur, d))" and same: "ks ?q = ks p" "dpc ?q = dpc p"
    by (simp_all add: goto_def)
  have free: "\<not> holds_lock (hpc p t)"
    using start(1) by auto
  have "lock_inv ?q"
    using start(4) free by (intro lock_inv_goto) (simp_all add: exch_inv_def)
  moreover have "stage_ok cpf decide ?q (hpc ?q u)" for u
    using start(4) stage_ok_cong [OF same, of cpf decide "hpc ?q u"]
    by (cases "u = t") (simp_all add: exch_inv_def hpc, simp add: stage_ok_def)
  moreover have "(\<forall>u. \<not> holds_lock (hpc ?q u)) \<Longrightarrow> \<forall>u. \<not> holds_lock (hpc p u)"
    using free by (metis fun_upd_other hpc)
  ultimately show ?case
    using start(4) same by (auto simp: exch_inv_def quiet_def)
qed

lemma exch_inv_pwork:
  "pwork False cpf decide p q \<Longrightarrow> exch_inv cpf decide p \<Longrightarrow> exch_inv cpf decide q"
proof -
  assume step: "pwork False cpf decide p q" and inv: "exch_inv cpf decide p"
  have lock: "lock_inv p" "lock_inv q"
    using inv lock_inv_pwork [OF step] by (simp_all add: exch_inv_def)
  have ok: "stage_ok cpf decide p (hpc p t)" for t
    using inv by (simp add: exch_inv_def)
  have alone: "u \<noteq> t \<Longrightarrow> \<not> holds_lock (hpc p u)" if "holds_lock (hpc p t)" for t u
    using lock(1) that by (metis lock_inv_unique)
  have daemon: "\<exists>r. in_exchange cpf decide r p \<and> (in_exchange cpf decide r q \<longrightarrow> exch_inv cpf decide q)"
    if "\<not> quiet p" "hpc q = hpc p"
    using exch_inv_daemon [OF inv that(1)] that(2) lock(2) by metis
  from step show ?thesis
    using lock(2)
  proof cases
    case (get_hook t r)
    then have none: "\<not> holds_lock (hpc p u)" for u
      using lock(1) by (auto simp: lock_inv_def)
    then have "quiet p" using inv by (simp add: exch_inv_def)
    then show ?thesis
      using inv lock(2) none unfolding get_hook(1)
      by (intro exch_inv_goto) (auto simp: stage_ok_def quiet_def goto_def take_hook_def)
  next
    case (fill t cur d)
    with ok [of t] alone [of t] show ?thesis
      using inv lock(2) unfolding fill(1)
      by (intro exch_inv_goto)
        (auto simp: stage_ok_def quiet_def goto_def set_info_def request_info_def)
  next
    case (ask t r)
    with ok [of t] alone [of t] show ?thesis
      using inv lock(2) unfolding ask(1)
      by (intro exch_inv_goto)
        (auto simp: stage_ok_def quiet_def goto_def up_question_def in_exchange_def Let_def)
  next
    case (get_answer t r)
    with ok [of t] alone [of t] show ?thesis
      using inv lock(2) unfolding get_answer(1)
      by (intro exch_inv_goto)
        (auto simp: stage_ok_def quiet_def goto_def take_answer_def in_exchange_def Let_def)
  next
    case (give_up t r)
    with ok [of t] show ?thesis by (simp add: stage_ok_def)
  next
    case (read_answer t r)
    with ok [of t] alone [of t] show ?thesis
      using inv lock(2) unfolding read_answer(1)
      by (intro exch_inv_goto)
        (auto simp: stage_ok_def quiet_def goto_def hook_read_answer_def right_result_def)
  next
    case (leave t r v)
    with ok [of t] alone [of t] show ?thesis
      using inv lock(2) unfolding leave(1)
      by (intro exch_inv_goto) (auto simp: stage_ok_def quiet_def goto_def up_hook_def)
  next
    case d_take
    with daemon show ?thesis
      by (auto simp: quiet_def in_exchange_def Let_def take_question_def)
  next
    case d_copy
    with daemon show ?thesis
      by (auto simp: quiet_def in_exchange_def Let_def)
  next
    case d_copy_fails
    with daemon show ?thesis
      by (auto simp: quiet_def in_exchange_def Let_def right_answer_def)
  next
    case (d_store i)
    with daemon show ?thesis
      by (auto simp: quiet_def in_exchange_def Let_def right_answer_def)
  next
    case d_answer
    with daemon show ?thesis
      by (auto simp: quiet_def in_exchange_def Let_def up_answer_def)
  qed simp_all
qed

lemma exch_inv_init: "exch_inv cpf decide (pinit s)"
  by (simp add: exch_inv_def lock_inv_init) (simp add: pinit_def stage_ok_def quiet_def)

lemma exch_inv_reachable: "(pstep False cpf decide)\<^sup>*\<^sup>* (pinit s) p \<Longrightarrow> exch_inv cpf decide p"
  by (induction rule: rtranclp_induct)
    (auto simp: pstep_def exch_inv_init intro: exch_inv_pstart exch_inv_pwork)

section \<open>Progress and termination\<close>

fun finished :: "hook_pc \<Rightarrow> bool" where
  "finished HIdle = True"
| "finished (HDone r v) = True"
| "finished _ = False"

lemma exch_progress:
  assumes "exch_inv cpf decide p" "\<not> finished (hpc p t)"
  shows "\<exists>q. pwork False cpf decide p q"
proof (cases "\<exists>u. holds_lock (hpc p u)")
  case True
  then obtain u where u: "holds_lock (hpc p u)" by blast
  have ok: "stage_ok cpf decide p (hpc p u)"
    using assms(1) by (simp add: exch_inv_def)
  show ?thesis
  proof (cases "hpc p u")
    case (HHolds r)
    then show ?thesis by (cases r) (auto intro: fill)
  next
    case (HAsked r)
    with ok consider "auditsec_question_lock (ks p) > 0" "dpc p = DIdle" | "dpc p = DTaken"
      | i where "dpc p = DHas i" | "dpc p = DStored" | "auditsec_answer_lock (ks p) > 0"
      by (auto simp: stage_ok_def in_exchange_def Let_def)
    then show ?thesis
      using HAsked by cases (blast intro: pwork.intros)+
  qed (use u ok in \<open>auto simp: stage_ok_def intro: ask read_answer leave\<close>)
next
  case False
  then have "auditsec_hook_lock (ks p) > 0"
    using assms(1) by (auto simp: exch_inv_def lock_inv_def)
  moreover have "\<not> holds_lock (hpc p t)" using False by blast
  then obtain r where "hpc p t = HWant r"
    using assms(2) by (cases "hpc p t") auto
  ultimately show ?thesis by (blast intro: get_hook)
qed

fun hrank :: "hook_pc \<Rightarrow> nat" where
  "hrank (HWant r) = 20"
| "hrank (HHolds r) = 18"
| "hrank (HFilled r) = 16"
| "hrank (HAsked r) = 4"
| "hrank (HGot r) = 3"
| "hrank (HRead r v) = 2"
| "hrank (HGaveUp r) = 2"
| "hrank _ = 0"

fun drank :: "daemon_pc \<Rightarrow> nat" where
  "drank DIdle = 0"
| "drank DTaken = 3"
| "drank (DHas i) = 2"
| "drank DStored = 1"

definition prank :: "nat \<Rightarrow> pstate \<Rightarrow> nat" where
  "prank n p = (\<Sum>t<n. hrank (hpc p t)) + 4 * auditsec_question_lock (ks p) + drank (dpc p)"

lemma prank_goto:
  assumes "t < n"
  shows "prank n (goto p t pc s) + hrank (hpc p t) + 4 * auditsec_question_lock (ks p) =
         prank n p + hrank pc + 4 * auditsec_question_lock s"
proof -
  have "(\<Sum>u<n. hrank (f u)) = hrank (f t) + (\<Sum>u \<in> {..<n} - {t}. hrank (f u))" for f :: "nat \<Rightarrow> hook_pc"
    using assms by (simp add: sum.remove)
  moreover have "(\<Sum>u \<in> {..<n} - {t}. hrank (((hpc p)(t := pc)) u)) = (\<Sum>u \<in> {..<n} - {t}. hrank (hpc p u))"
    by (rule sum.cong) auto
  ultimately show ?thesis
    by (simp add: prank_def goto_def del: fun_upd_apply) simp
qed

lemma pwork_decreases:
  assumes "pwork tmo cpf decide p q" "\<And>t. n \<le> t \<Longrightarrow> hpc p t = HIdle"
  shows "prank n q < prank n p"
proof -
  have active: "hpc p t \<noteq> HIdle \<Longrightarrow> t < n" for t
    using assms(2) [of t] by (cases "t < n") auto
  show ?thesis
    using assms(1)
  proof cases
    case (get_hook t r)
    with active [of t] prank_goto [of t n p "HHolds r" "take_hook (ks p)"] show ?thesis
      by (simp add: take_hook_def)
  next
    case (hook_timeout t r)
    with active [of t] prank_goto [of t n p "HDone r (- EFAULT)" "ks p"] show ?thesis by simp
  next
    case (fill t cur d)
    with active [of t] prank_goto [of t n p "HFilled (cur, d)" "set_info cur d (ks p)"] show ?thesis
      by (simp add: set_info_def)
  next
    case (ask t r)
    with active [of t] prank_goto [of t n p "HAsked r" "up_question (ks p)"] show ?thesis
      by (simp add: up_question_def)
  next
    case (get_answer t r)
    with active [of t] prank_goto [of t n p "HGot r" "take_answer (ks p)"] show ?thesis
      by (simp add: take_answer_def)
  next
    case (answer_timeout t r)
    with active [of t] prank_goto [of t n p "HGaveUp r" "trylock_question (ks p)"] show ?thesis
      by (simp add: trylock_question_def)
  next
    case (give_up t r)
    with active [of t] prank_goto [of t n p "HDone r (- EFAULT)" "up_hook (ks p)"] show ?thesis
      by (simp add: up_hook_def)
  next
    case (read_answer t r)
    with active [of t] prank_goto [of t n p "HRead r (fst (hook_read_answer (ks p)))" "ks p"]
    show ?thesis by simp
  next
    case (leave t r v)
    with active [of t] prank_goto [of t n p "HDone r v" "up_hook (ks p)"] show ?thesis
      by (simp add: up_hook_def)
  qed (simp_all add: prank_def take_question_def up_answer_def)
qed

lemma pwork_idle: "pwork tmo cpf decide p q \<Longrightarrow> hpc p t = HIdle \<Longrightarrow> hpc q t = HIdle"
  by (induction rule: pwork.induct) (auto simp: goto_def)

lemma pwork_bounded:
  "(pwork tmo cpf decide ^^ k) p q \<Longrightarrow> (\<And>t. n \<le> t \<Longrightarrow> hpc p t = HIdle) \<Longrightarrow> k + prank n q \<le> prank n p"
proof (induction k arbitrary: p)
  case (Suc k)
  then obtain p' where p': "pwork tmo cpf decide p p'" "(pwork tmo cpf decide ^^ k) p' q"
    by (metis relpowp_Suc_D2)
  have "k + prank n q \<le> prank n p'"
    using Suc.IH [OF p'(2)] Suc.prems(2) pwork_idle [OF p'(1)] by simp
  with pwork_decreases [OF p'(1), of n] Suc.prems(2) show ?case by fastforce
qed simp

lemma exch_inv_pworks:
  "(pwork False cpf decide)\<^sup>*\<^sup>* p q \<Longrightarrow> exch_inv cpf decide p \<Longrightarrow> exch_inv cpf decide q"
  by (induction rule: rtranclp_induct) (auto intro: exch_inv_pwork)

section \<open>A late answer\<close>

lemma goto_simps [simp]:
  "ks (goto p t pc s) = s" "dpc (goto p t pc s) = dpc p" "hpc (goto p t pc s) = (hpc p)(t := pc)"
  "goto (goto p t pc s) t pc' s' = goto p t pc' s'"
  by (simp_all add: goto_def)

lemma ask_steps:
  assumes "hpc p t = HIdle" "auditsec_hook_lock (ks p) > 0"
    and "prog_is_monitored (task_comm cur) (prog_list (ks p)) \<noteq> 0" "daemon_launched (ks p)"
  shows "(pstep tmo cpf decide)\<^sup>*\<^sup>* p
           (goto p t (HAsked (cur, d)) (up_question (set_info cur d (take_hook (ks p)))))"
proof -
  let ?S = "pstep tmo cpf decide"
  have "?S p (goto p t (HWant (cur, d)) (ks p))"
    using assms by (auto simp: pstep_def intro: pstart.intros)
  also have "?S\<^sup>*\<^sup>* (goto p t (HWant (cur, d)) (ks p)) (goto p t (HHolds (cur, d)) (take_hook (ks p)))"
    using get_hook [of "goto p t (HWant (cur, d)) (ks p)" t "(cur, d)" tmo cpf decide] assms(2)
    by (auto simp: pstep_def)
  also have "?S (goto p t (HHolds (cur, d)) (take_hook (ks p)))
      (goto p t (HFilled (cur, d)) (set_info cur d (take_hook (ks p))))"
    using fill [of "goto p t (HHolds (cur, d)) (take_hook (ks p))" t cur d tmo cpf decide]
    by (auto simp: pstep_def)
  also have "?S (goto p t (HFilled (cur, d)) (set_info cur d (take_hook (ks p))))
      (goto p t (HAsked (cur, d)) (up_question (set_info cur d (take_hook (ks p)))))"
    using ask [of "goto p t (HFilled (cur, d)) (set_info cur d (take_hook (ks p)))" t "(cur, d)" tmo cpf decide]
    by (auto simp: pstep_def)
  finally show ?thesis .
qed

lemma late_answer_steps:
  fixes decide :: "auditsec_info option \<Rightarrow> int"
  assumes "hpc p 0 = HAsked r0" "auditsec_question_lock (ks p) = 1" "dpc p = DIdle"
  shows "(pstep True cpf decide)\<^sup>*\<^sup>* p
           ((goto p 0 (HDone r0 (- EFAULT)) (up_hook (take_question (ks p))))\<lparr>dpc := DHas (k_auditsec_info (ks p))\<rparr>)"
proof -
  let ?S = "pstep True cpf decide"
  let ?p1 = "p\<lparr>ks := take_question (ks p), dpc := DTaken\<rparr>"
  let ?p2 = "?p1\<lparr>dpc := DHas (k_auditsec_info (ks p))\<rparr>"
  let ?s = "trylock_question (take_question (ks p))"
  have s: "?s = take_question (ks p)"
    using assms(2) by (simp add: take_question_def trylock_question_def)
  have "?S\<^sup>*\<^sup>* p p" by simp
  also have "?S p ?p1"
    using assms d_take [of p] by (simp add: pstep_def)
  also have "?S ?p1 ?p2"
    using d_copy [of ?p1] by (simp add: pstep_def take_question_def)
  also have "?S ?p2 (goto ?p2 0 (HGaveUp r0) ?s)"
    using answer_timeout [of True ?p2 0 r0] assms(1) by (simp add: pstep_def)
  also have "?S (goto ?p2 0 (HGaveUp r0) ?s) (goto ?p2 0 (HDone r0 (- EFAULT)) (up_hook ?s))"
    using give_up [of "goto ?p2 0 (HGaveUp r0) ?s" 0 r0 True] by (simp add: pstep_def)
  also have "goto ?p2 0 (HDone r0 (- EFAULT)) (up_hook ?s) =
      (goto p 0 (HDone r0 (- EFAULT)) (up_hook (take_question (ks p))))\<lparr>dpc := DHas (k_auditsec_info (ks p))\<rparr>"
    by (rule pstate.equality) (simp_all add: s goto_def)
  finally show ?thesis .
qed

lemma wrong_answer_steps:
  fixes decide :: "auditsec_info option \<Rightarrow> int"
  assumes "hpc p t = HAsked r" "auditsec_answer_lock (ks p) = 0" "dpc p = DHas i"
  shows "\<exists>q. (pstep tmo cpf decide)\<^sup>*\<^sup>* p q \<and> hpc q t = HDone r (if decide i = 0 then - EACCES else 0)"
proof -
  let ?S = "pstep tmo cpf decide"
  let ?v = "if decide i = 0 then - EACCES else 0"
  define p1 where "p1 = p\<lparr>ks := (ks p)\<lparr>auditsec_answer := decide i\<rparr>, dpc := DStored\<rparr>"
  define p2 where "p2 = p1\<lparr>ks := up_answer (ks p1), dpc := DIdle\<rparr>"
  define p3 where "p3 = goto p2 t (HGot r) (take_answer (ks p2))"
  define p4 where "p4 = goto p3 t (HRead r ?v) (ks p3)"
  define p5 where "p5 = goto p4 t (HDone r ?v) (up_hook (ks p4))"
  have v: "fst (hook_read_answer (ks p3)) = ?v"
    by (simp add: p3_def p2_def p1_def hook_read_answer_def take_answer_def up_answer_def)
  have "?S\<^sup>*\<^sup>* p p" by simp
  also have "?S p p1"
    unfolding pstep_def p1_def using assms(3) by (blast intro: d_store)
  also have "?S p1 p2"
    unfolding pstep_def p2_def by (rule disjI2, rule d_answer) (simp add: p1_def)
  also have "?S p2 p3"
    unfolding pstep_def p3_def
    by (rule disjI2, rule get_answer) (simp_all add: p2_def p1_def assms(1) up_answer_def)
  also have "?S p3 p4"
    unfolding pstep_def p4_def v [symmetric]
    by (rule disjI2, rule read_answer) (simp add: p3_def)
  also have "?S p4 p5"
    unfolding pstep_def p5_def by (rule disjI2, rule leave) (simp add: p4_def)
  finally have "?S\<^sup>*\<^sup>* p p5" .
  moreover have "hpc p5 t = HDone r ?v"
    by (simp add: p5_def)
  ultimately show ?thesis by blast
qed

section \<open>Properties\<close>

text \<open>C28: mutual exclusion.  In every reachable state, with or without time-outs and copy failures, at
  most one task is inside the exchange (from taking the hook lock to releasing it), so the shared
  request structure and the answer are used by one task at a time.\<close>

theorem hooks_mutual_exclusion:
  assumes "(pstep tmo cpf decide)\<^sup>*\<^sup>* (pinit s) p" "holds_lock (hpc p t)" "holds_lock (hpc p u)"
  shows "t = u"
  using lock_inv_unique [OF lock_inv_reachable [OF assms(1)] assms(2,3)] .

definition sample_request :: "int \<Rightarrow> request" where
  "sample_request pid = (sample_task\<lparr>task_pid := pid\<rparr>, AUDITSEC_MSG [] 0)"

definition sample_asked :: "nat \<Rightarrow> int \<Rightarrow> pstate \<Rightarrow> pstate" where
  "sample_asked t pid p = goto p t (HAsked (sample_request pid))
     (up_question (set_info (fst (sample_request pid)) (snd (sample_request pid)) (take_hook (ks p))))"

lemma sample_asked_steps:
  assumes "hpc p t = HIdle" "auditsec_hook_lock (ks p) > 0" "prog_list (ks p) = prog_list sample_kstate"
    "daemon_launched (ks p)"
  shows "(pstep tmo cpf decide)\<^sup>*\<^sup>* p (sample_asked t pid p)"
  using assms ask_steps [of p t "fst (sample_request pid)" tmo cpf decide "snd (sample_request pid)"]
    sample_monitored
  by (simp add: sample_asked_def sample_request_def)

lemma sample_first_asked:
  "(pstep tmo cpf decide)\<^sup>*\<^sup>* (pinit sample_kstate) (sample_asked 0 7 (pinit sample_kstate))"
  by (rule sample_asked_steps) (simp_all add: pinit_def sample_kstate_def)

theorem hooks_mutual_exclusion_witness:
  "\<not> holds_lock (hpc (sample_asked 0 7 (pinit sample_kstate)) 1)"
proof
  assume "holds_lock (hpc (sample_asked 0 7 (pinit sample_kstate)) 1)"
  moreover have "holds_lock (hpc (sample_asked 0 7 (pinit sample_kstate)) 0)"
    by (simp add: sample_asked_def)
  ultimately have "(1 :: nat) = 0"
    by (rule hooks_mutual_exclusion [OF sample_first_asked [of True True "\<lambda>i. 1"]])
  then show False by simp
qed

text \<open>C1: without time-outs the hooks enforce the daemon's policy.  When no hook times out, a hook that
  has returned 0 was allowed by the policy's decision on its own request; and if no copy to the
  daemon fails either, its result is exactly that decision.\<close>

theorem hooks_enforce_policy:
  assumes "(pstep False cpf decide)\<^sup>*\<^sup>* (pinit s) p" "hpc p t = HDone r v"
  shows "(v = 0 \<longrightarrow> decide (Some (request_info r)) \<noteq> 0) \<and>
         (\<not> cpf \<longrightarrow> v = (if decide (Some (request_info r)) = 0 then - EACCES else 0))"
proof -
  have "stage_ok cpf decide p (hpc p t)"
    using exch_inv_reachable [OF assms(1)] by (simp add: exch_inv_def)
  with assms(2) show ?thesis
    by (auto simp: stage_ok_def right_result_def right_answer_def EACCES_def)
qed

lemma sample_done:
  "\<exists>p. (pstep False False (\<lambda>i. 1))\<^sup>*\<^sup>* (pinit sample_kstate) p \<and> hpc p 0 = HDone (sample_request 7) 0"
proof -
  let ?p = "sample_asked 0 7 (pinit sample_kstate)" and ?S = "pstep False False (\<lambda>i. 1)"
  let ?p1 = "?p\<lparr>ks := take_question (ks ?p), dpc := DTaken\<rparr>"
  let ?p2 = "?p1\<lparr>dpc := DHas (k_auditsec_info (ks ?p1))\<rparr>"
  note sample_first_asked [of False False "\<lambda>i. 1"]
  also have "?S ?p ?p1"
    unfolding pstep_def
    by (rule disjI2, rule d_take) (simp_all add: sample_asked_def pinit_def up_question_def)
  also have "?S ?p1 ?p2"
    unfolding pstep_def by (rule disjI2, rule d_copy) simp
  finally have "?S\<^sup>*\<^sup>* (pinit sample_kstate) ?p2" .
  moreover have "hpc ?p2 0 = HAsked (sample_request 7)" "auditsec_answer_lock (ks ?p2) = 0"
    by (simp_all add: sample_asked_def p_defs pinit_def)
  then have "\<exists>q. ?S\<^sup>*\<^sup>* ?p2 q \<and> hpc q 0 = HDone (sample_request 7) (if (1 :: int) = 0 then - EACCES else 0)"
    by (intro wrong_answer_steps) simp_all
  then have "\<exists>q. ?S\<^sup>*\<^sup>* ?p2 q \<and> hpc q 0 = HDone (sample_request 7) 0"
    by simp
  ultimately show ?thesis
    by (meson rtranclp_trans)
qed

theorem hooks_enforce_policy_witness:
  "\<exists>p v. (pstep False False (\<lambda>i. 1))\<^sup>*\<^sup>* (pinit sample_kstate) p \<and>
     hpc p 0 = HDone (sample_request 7) v \<and> v = 0"
proof -
  obtain p where p: "(pstep False False (\<lambda>i. 1))\<^sup>*\<^sup>* (pinit sample_kstate) p"
    "hpc p 0 = HDone (sample_request 7) 0"
    using sample_done by blast
  with hooks_enforce_policy [OF p] show ?thesis by auto
qed

text \<open>C29: without time-outs every exchange completes.  From a reachable state in which at most the
  tasks below \<open>n\<close> have called a hook, at most \<open>prank n p\<close> further steps of the tasks and the daemon
  are possible before new calls start, and when no further step is possible every task has its
  result, in agreement with the policy: the protocol neither deadlocks nor runs forever.\<close>

theorem exchanges_complete:
  assumes "(pstep False cpf decide)\<^sup>*\<^sup>* (pinit s) p" "\<And>t. n \<le> t \<Longrightarrow> hpc p t = HIdle"
  shows "((pwork False cpf decide ^^ k) p q \<longrightarrow> k \<le> prank n p) \<and>
         ((pwork False cpf decide)\<^sup>*\<^sup>* p q \<and> (\<nexists>q'. pwork False cpf decide q q') \<longrightarrow>
            (\<forall>t. hpc q t = HIdle \<or> (\<exists>r v. hpc q t = HDone r v \<and> right_result cpf decide r v)))"
proof (intro conjI impI allI)
  show "k \<le> prank n p" if "(pwork False cpf decide ^^ k) p q"
    using pwork_bounded [OF that, of n] assms(2) by simp
next
  fix t
  assume q: "(pwork False cpf decide)\<^sup>*\<^sup>* p q \<and> (\<nexists>q'. pwork False cpf decide q q')"
  have inv: "exch_inv cpf decide q"
    using exch_inv_pworks q exch_inv_reachable [OF assms(1)] by blast
  with q have "finished (hpc q t)"
    using exch_progress by blast
  moreover have "stage_ok cpf decide q (hpc q t)"
    using inv by (simp add: exch_inv_def)
  ultimately show "hpc q t = HIdle \<or> (\<exists>r v. hpc q t = HDone r v \<and> right_result cpf decide r v)"
    by (cases "hpc q t") (auto simp: stage_ok_def)
qed

theorem exchanges_complete_witness:
  "\<nexists>q. (pwork False False (\<lambda>i. 1) ^^ 9) (sample_asked 0 7 (pinit sample_kstate)) q"
proof -
  let ?p = "sample_asked 0 7 (pinit sample_kstate)"
  have "prank 1 ?p = 8"
    by (simp add: prank_def sample_asked_def p_defs pinit_def)
  moreover have "(pwork False False (\<lambda>i. 1) ^^ 9) ?p q \<longrightarrow> 9 \<le> prank 1 ?p" for q
    by (rule exchanges_complete [OF sample_first_asked, THEN conjunct1])
      (simp add: sample_asked_def pinit_def)
  ultimately show ?thesis by fastforce
qed

text \<open>C36: a hook that timed out leaves its question behind.  With time-outs there is an execution in
  which the daemon's late answer to the request of one task is taken by the next task for its own,
  which the policy forbids and the hook allows.\<close>

theorem late_answer_misdelivered:
  fixes decide :: "auditsec_info option \<Rightarrow> int"
  assumes "decide (Some (request_info (sample_request 7))) \<noteq> 0"
    and "decide (Some (request_info (sample_request 8))) = 0"
  shows "\<exists>p. (pstep True False decide)\<^sup>*\<^sup>* (pinit sample_kstate) p \<and> hpc p 1 = HDone (sample_request 8) 0"
proof -
  let ?S = "pstep True False decide" and ?i = "Some (request_info (sample_request 7))"
  define p1 where "p1 = sample_asked 0 7 (pinit sample_kstate)"
  define p2 where "p2 = (goto p1 0 (HDone (sample_request 7) (- EFAULT)) (up_hook (take_question (ks p1))))
               \<lparr>dpc := DHas (k_auditsec_info (ks p1))\<rparr>"
  define p3 where "p3 = sample_asked 1 8 p2"
  have "?S\<^sup>*\<^sup>* (pinit sample_kstate) p1"
    unfolding p1_def by (rule sample_first_asked)
  also have "?S\<^sup>*\<^sup>* p1 p2"
    unfolding p2_def
    by (rule late_answer_steps) (simp_all add: p1_def sample_asked_def pinit_def p_defs)
  also have "?S\<^sup>*\<^sup>* p2 p3"
    unfolding p3_def
    by (rule sample_asked_steps)
      (simp_all add: p2_def p1_def sample_asked_def pinit_def p_defs, simp add: sample_kstate_def)
  finally have "?S\<^sup>*\<^sup>* (pinit sample_kstate) p3" .
  moreover have "hpc p3 1 = HAsked (sample_request 8)" "auditsec_answer_lock (ks p3) = 0" "dpc p3 = DHas ?i"
    by (simp_all add: p3_def p2_def p1_def sample_asked_def pinit_def p_defs request_info_def)
  from wrong_answer_steps [OF this, of True False decide] assms(1)
  obtain q where "?S\<^sup>*\<^sup>* p3 q" "hpc q 1 = HDone (sample_request 8) 0"
    by auto
  ultimately show ?thesis
    by (meson rtranclp_trans)
qed

theorem late_answer_misdelivered_witness:
  "\<exists>p. (pstep True False (\<lambda>i. if i = Some (request_info (sample_request 8)) then 0 else 1))\<^sup>*\<^sup>*
         (pinit sample_kstate) p \<and> hpc p 1 = HDone (sample_request 8) 0"
  by (rule late_answer_misdelivered) (simp_all add: request_info_def sample_request_def)

end
