(* ===== verification/System.thy ===== *)
theory System
  imports Daemon_Theorems Auditsec_Protocol
begin

text \<open>
  The kernel module and the daemon together: a hook that asks, and the daemon's thread that fetches the
  question, decides and answers while the hook waits.
\<close>

definition question_of :: "task_struct \<Rightarrow> auditsec_struct \<Rightarrow> auditsec_info" where
  "question_of cur st = \<lparr>ai_pid = task_pid cur, ai_execname = get_task_comm (task_comm cur), ai_struct = st\<rparr>"

text \<open>A round of the daemon's thread as the hook sees it: what happens until the answer is there.\<close>

definition daemon_serves :: "framework \<Rightarrow> env \<Rightarrow> int \<Rightarrow> daemon \<Rightarrow> wait" where
  "daemon_serves F E tgid d s =
     (case sys_auditsec_question (\<lambda>s. (0, s\<lparr>auditsec_question_lock := auditsec_question_lock s - 1\<rparr>)) tgid True True s of
        (r, Some usai, s) \<Rightarrow>
          (case kthread_round F E usai d of
             Inl _ \<Rightarrow> (- EINTR, s)
           | Inr d' \<Rightarrow>
               let s = snd (sys_auditsec_answer tgid (if last (kernel_answers d') then 1 else 0) s)
               in (0, s\<lparr>auditsec_answer_lock := auditsec_answer_lock s - 1\<rparr>))
      | (r, None, s) \<Rightarrow> (- EINTR, s))"

text \<open>What the daemon answers to a question.\<close>

definition reply_to :: "framework \<Rightarrow> env \<Rightarrow> daemon \<Rightarrow> auditsec_info \<Rightarrow> bool" where
  "reply_to F E d usai =
     (case question_path (ai_struct usai) of
        None \<Rightarrow> True
      | Some path \<Rightarrow> verdict F E (ai_pid usai) path (introduced F E usai d))"

lemma kthread_round_last:
  assumes "question_ok usai"
  obtains d' where "kthread_round F E usai d = Inr d'" "last (kernel_answers d') = reply_to F E d usai"
proof -
  obtain d' where d': "kthread_round F E usai d = Inr d'" and
    core: "core d' = (case question_path (ai_struct usai) of
       None \<Rightarrow> core (answer True (introduced F E usai d))
     | Some path \<Rightarrow> core (answer (verdict F E (ai_pid usai) path (introduced F E usai d))
                             (settled F E (ai_pid usai) path (introduced F E usai d))))"
    using kthread_round_effect [OF assms] by blast
  have "last (kernel_answers d') = reply_to F E d usai"
    using core by (auto simp: core_def answer_def reply_to_def split: option.splits)
  with d' that show thesis by blast
qed

lemma exchange_served:
  assumes "down_hook s = (0, s1)" "fill s1 = Inr (set_info cur st s1)" "daemon_launched s1" "contextd_pid s1 = tgid"
    "question_ok (question_of cur st)"
  shows "\<exists>s'. hook_exchange down_hook (daemon_serves F E tgid d) fill s =
    Inr (if reply_to F E d (question_of cur st) then 0 else - EACCES, s')"
proof -
  obtain d' where d': "kthread_round F E (question_of cur st) d = Inr d'"
    "last (kernel_answers d') = reply_to F E d (question_of cur st)"
    using kthread_round_last [OF assms(5)] by blast
  have "\<exists>s2. daemon_serves F E tgid d (up_question (set_info cur st s1)) = (0, s2) \<and>
      auditsec_answer s2 = (if reply_to F E d (question_of cur st) then 1 else 0)"
    using assms(3,4) d'
    by (simp add: daemon_serves_def sys_auditsec_question_def sys_auditsec_answer_def up_question_def up_answer_def
        set_info_def question_of_def Let_def)
  then obtain s2 where "daemon_serves F E tgid d (up_question (set_info cur st s1)) = (0, s2)"
    "auditsec_answer s2 = (if reply_to F E d (question_of cur st) then 1 else 0)" by blast
  with assms(1,2) show ?thesis
    by (simp add: hook_exchange_def hook_read_answer_def)
qed

lemma buf_cstring_length: "buf_cstring b = Inr str \<Longrightarrow> length (cstring str) < length b"
proof (induction b arbitrary: str rule: buf_cstring.induct)
  case (3 c b)
  then show ?case by (auto simp: bind_fault_Inr_iff split: if_splits)
qed simp_all

lemma buf_write_length: "buf_write b n str = Inr b' \<Longrightarrow> length b' = length b"
  by (auto simp: buf_write_def split: if_splits)

lemma calculate_path_length: "calculate_path dn off len b = Inr (r, b') \<Longrightarrow> length b' = length b"
proof (induction dn arbitrary: r b')
  case (Dentry parent name)
  then obtain pos b1 where 1: "calculate_path parent off len b = Inr (pos, b1)"
    by (auto simp: bind_fault_Inr_iff)
  from Dentry.IH [OF 1] Dentry.prems show ?case
    by (auto simp: 1 Let_def bind_fault_Inr_iff dest!: buf_write_length split: if_splits)
qed simp

lemma paths_length:
  "file_path f b = Inr (n, b') \<Longrightarrow> length b' = length b" "dir_path dn b = Inr (n, b') \<Longrightarrow> length b' = length b"
  by (auto simp: file_path_def dir_path_def store_NUL_def bind_fault_Inr_iff Let_def
      dest!: buf_write_length calculate_path_length split: if_splits)

text \<open>The request that a hook stores, and whether the memory for it was there.\<close>

definition socket_request :: "nat \<Rightarrow> char list \<Rightarrow> fault + auditsec_struct" where
  "socket_request fam addr =
     (if fam = PF_INET then bind_fault (memcpy_from addr sizeof_sockaddr_in) (\<lambda>a. Inr (AUDITSEC_SOCKET AUDITSEC_IPV4 a))
      else bind_fault (memcpy_from addr sizeof_sockaddr_in6) (\<lambda>a. Inr (AUDITSEC_SOCKET AUDITSEC_IPV6 a)))"

fun request :: "hook_call \<Rightarrow> fault + auditsec_struct" where
  "request (HMkdir ok dn mode) =
     bind_fault (dir_path dn (buf_alloc (PATH_MAX + 1))) (\<lambda>(_, fullpath). bind_fault (buf_cstring fullpath) (\<lambda>path.
       Inr (AUDITSEC_DIR (strncpy_k (dentry_name dn) (NAME_MAX + 1)) (strncpy_k path (PATH_MAX + 1)) mode)))"
| "request (HFile ok f fmask) =
     bind_fault (file_path f (buf_alloc (PATH_MAX + 1))) (\<lambda>(_, fullpath). bind_fault (buf_cstring fullpath) (\<lambda>path.
       Inr (AUDITSEC_FILE (strncpy_k (dentry_name (f_dentry f)) (NAME_MAX + 1)) (strncpy_k path (PATH_MAX + 1)) fmask)))"
| "request (HBind fam addr) = socket_request fam addr"
| "request (HConnect fam addr) = socket_request fam addr"
| "request (HSend msg msize) = Inr (AUDITSEC_MSG msg msize)"
| "request (HRecv msg msize) = Inr (AUDITSEC_MSG msg msize)"

fun memory_ok :: "hook_call \<Rightarrow> bool" where
  "memory_ok (HMkdir ok dn mode) = ok"
| "memory_ok (HFile ok f fmask) = ok"
| "memory_ok _ = True"

lemma request_ok:
  assumes "request c = Inr st" "length (cstring (task_comm cur)) < TASK_COMM_LEN"
  shows "question_ok (question_of cur st)"
  using assms
  by (cases c) (auto simp: question_ok_def question_of_def get_task_comm_def terminated_strncpy_k bind_fault_Inr_iff
      socket_request_def buf_alloc_def dest!: paths_length buf_cstring_length split: if_splits)

text \<open>A monitored program whose name fits acts while the daemon with the number \<open>tgid\<close> is launched, and no
  other hook holds the lock.\<close>

definition asked :: "task_struct \<Rightarrow> int \<Rightarrow> wait \<Rightarrow> kstate \<Rightarrow> bool" where
  "asked cur tgid down_hook s =
     (prog_is_monitored (task_comm cur) (prog_list s) \<noteq> 0 \<and> daemon_launched s \<and> contextd_pid s = tgid \<and>
      length (cstring (task_comm cur)) < TASK_COMM_LEN \<and>
      down_hook s = (0, s\<lparr>auditsec_hook_lock := auditsec_hook_lock s - 1\<rparr>))"

lemma hook_run_served:
  assumes "asked cur tgid down_hook s" "request c = Inr st" "memory_ok c"
  shows "\<exists>s'. hook_run cur down_hook (daemon_serves F E tgid d) c s =
    Inr (if reply_to F E d (question_of cur st) then 0 else - EACCES, s')"
proof -
  let ?s1 = "s\<lparr>auditsec_hook_lock := auditsec_hook_lock s - 1\<rparr>"
  have served: "\<exists>s'. hook_exchange down_hook (daemon_serves F E tgid d) fill s =
      Inr (if reply_to F E d (question_of cur st) then 0 else - EACCES, s')" if "fill ?s1 = Inr (set_info cur st ?s1)" for fill
    using assms(1) request_ok [OF assms(2)] that by (intro exchange_served) (auto simp: asked_def)
  show ?thesis
    using assms served
    by (cases c) (auto simp: asked_def hook_defs bind_fault_Inr_iff socket_request_def split: if_splits)
qed

section \<open>Properties\<close>

text \<open>
  C2: when a monitored program acts and the daemon serves, the kernel allows the operation exactly if it is not about a
  path, or the daemon neither has the process registered nor can register it, or the rules, the user and
  the prevention system grant a transition for the path; otherwise the operation fails with EACCES.
\<close>

theorem hooks_follow_rules:
  assumes "asked cur tgid down_hook s" "request c = Inr st" "memory_ok c"
  shows "\<exists>s'. hook_run cur down_hook (daemon_serves F E tgid d) c s =
    Inr (case question_path st of
           None \<Rightarrow> 0
         | Some path \<Rightarrow>
             let d1 = introduced F E (question_of cur st) d
             in if ocontains (clients d1) (task_pid cur) \<and> \<not> granted F E d1 (task_pid cur) (path_vals path)
                then - EACCES else 0, s')"
proof -
  have "ai_pid (question_of cur st) = task_pid cur" "ai_struct (question_of cur st) = st"
    by (simp_all add: question_of_def)
  with hook_run_served [OF assms, of F E d] show ?thesis
    by (auto simp: reply_to_def verdict_def Let_def split: option.split)
qed

definition mutt_task :: task_struct where
  "mutt_task = \<lparr>task_pid = 5, task_tgid = 5, task_comm = ''mutt''\<rparr>"

definition mutt_kstate :: kstate where
  "mutt_kstate = sample_kstate\<lparr>prog_list := [strncpy_k ''mutt'' TASK_COMM_LEN]\<rparr>"

lemma mutt_mkdir:
  "request (HMkdir True (Dentry IS_ROOT ''tmp'') 7) =
     Inr (AUDITSEC_DIR (strncpy_k ''tmp'' (NAME_MAX + 1)) (strncpy_k ''/tmp'' (PATH_MAX + 1)) 7)"
proof -
  have "dir_path (Dentry IS_ROOT ''tmp'') (buf_alloc (PATH_MAX + 1)) =
      Inr (5, map Some ''/tmp'' @ Some NUL # replicate (PATH_MAX - 4) None)"
    by (simp add: dir_path_def buf_write_def buf_alloc_def store_NUL_def PATH_MAX_def NAME_MAX_def strncpy_k_exact Let_def)
  then show ?thesis by simp
qed

lemma mutt_refused:
  "introduced simple_framework sample_env (question_of mutt_task st) sample_daemon = sample_daemon"
  "ocontains (clients sample_daemon) (task_pid mutt_task)"
  "\<not> granted simple_framework sample_env sample_daemon (task_pid mutt_task) (path_vals ''/tmp'')"
proof -
  show known: "ocontains (clients sample_daemon) (task_pid mutt_task)"
    by (simp add: sample_daemon_def mutt_task_def ocontains_def)
  then show "introduced simple_framework sample_env (question_of mutt_task st) sample_daemon = sample_daemon"
    by (simp add: introduced_def may_register_def question_of_def)
  have "\<not> tn_valid (found simple_framework sample_daemon 5 (path_vals ''/tmp''))" by code_simp
  then show "\<not> granted simple_framework sample_env sample_daemon (task_pid mutt_task) (path_vals ''/tmp'')"
    by (simp add: granted_def mutt_task_def)
qed

text \<open>A registered program that makes a directory for which no rule has a transition is refused, and one
  that sends a message is not.\<close>

theorem hooks_follow_rules_witness:
  "(\<exists>s'. hook_run mutt_task (\<lambda>s. (0, s\<lparr>auditsec_hook_lock := auditsec_hook_lock s - 1\<rparr>))
       (daemon_serves simple_framework sample_env 2 sample_daemon) (HMkdir True (Dentry IS_ROOT ''tmp'') 7) mutt_kstate = Inr (- EACCES, s')) \<and>
   (\<exists>s'. hook_run mutt_task (\<lambda>s. (0, s\<lparr>auditsec_hook_lock := auditsec_hook_lock s - 1\<rparr>))
       (daemon_serves simple_framework sample_env 2 sample_daemon) (HSend ''hi'' 2) mutt_kstate = Inr (0, s'))"
proof -
  let ?dh = "\<lambda>s. (0, s\<lparr>auditsec_hook_lock := auditsec_hook_lock s - 1\<rparr>)"
  have asked: "asked mutt_task 2 ?dh mutt_kstate"
    by (simp add: asked_def mutt_task_def mutt_kstate_def sample_kstate_def prog_is_monitored_iff)
      (simp add: TASK_COMM_LEN_def)
  have path: "cstring (strncpy_k ''/tmp'' (PATH_MAX + 1)) = ''/tmp''"
    by (simp add: cstring_strncpy_k PATH_MAX_def)
  show ?thesis
    using hooks_follow_rules [OF asked mutt_mkdir, of simple_framework sample_env sample_daemon]
      hooks_follow_rules [OF asked, of "HSend ''hi'' 2" "AUDITSEC_MSG ''hi'' 2" simple_framework sample_env sample_daemon]
    by (simp add: path [simplified] mutt_refused Let_def)
qed

end
