(* ===== verification/Semaphores.thy ===== *)
theory Semaphores
  imports Prelude
begin

text \<open>
  The counting semaphores of the kernel (\<open>kernel/semaphore.c\<close>), on which the question/answer protocol
  of the module is built.

  A semaphore is its counter and its list of waiters; the waiters whose flag \<open>up\<close> has been set by a
  release but which have not run since are kept in \<open>woken\<close>.  Every function of the file holds the
  semaphore's spin lock from entry to exit or to \<open>schedule_timeout\<close>, so each piece between two
  scheduling points is one operation: \<open>down_enter\<close> (the fast path, or joining the queue),
  \<open>down_common_head\<close> (the tests before going to sleep), \<open>down_common_wake\<close> (the code after
  \<open>schedule_timeout\<close>), \<open>up_sem\<close> and \<open>down_trylock\<close>.  The counter is a natural number.

  \<open>sem_step\<close> interleaves these operations for any number of tasks and shows the events that the callers see: a
  release, and a return with or without a unit.  \<open>csem_run\<close> is the plain counter that every release
  increments and every unit handed out decrements, undefined where it would fall below zero; the semaphore is
  shown to follow it, which is the view the protocol theory uses.
\<close>

type_synonym task = nat

record semaphore =
  sem_count :: nat
  wait_list :: "task list"
  woken :: "task list"

datatype down_result = Acquired | Queued

section \<open>Operations\<close>

definition sema_init :: "nat \<Rightarrow> semaphore" where
  "sema_init val = \<lparr>sem_count = val, wait_list = [], woken = []\<rparr>"

definition down_enter :: "task \<Rightarrow> semaphore \<Rightarrow> down_result \<times> semaphore" where
  "down_enter t s =
     (if sem_count s > 0 then (Acquired, s\<lparr>sem_count := sem_count s - 1\<rparr>)
      else (Queued, s\<lparr>wait_list := wait_list s @ [t]\<rparr>))"

text \<open>The loop head of \<open>__down_common\<close>: \<open>None\<close> goes to sleep, \<open>Some r\<close> returns \<open>r\<close>.\<close>

definition down_common_head :: "bool \<Rightarrow> int \<Rightarrow> task \<Rightarrow> semaphore \<Rightarrow> int option \<times> semaphore" where
  "down_common_head signal_pending timeout t s =
     (if signal_pending then (Some (- EINTR), s\<lparr>wait_list := remove1 t (wait_list s)\<rparr>)
      else if timeout \<le> 0 then (Some (- ETIME), s\<lparr>wait_list := remove1 t (wait_list s)\<rparr>)
      else (None, s))"

definition down_common_wake :: "bool \<Rightarrow> int \<Rightarrow> task \<Rightarrow> semaphore \<Rightarrow> int option \<times> semaphore" where
  "down_common_wake signal_pending timeout t s =
     (if t \<in> set (woken s) then (Some 0, s\<lparr>woken := remove1 t (woken s)\<rparr>)
      else down_common_head signal_pending timeout t s)"

definition up_sem :: "semaphore \<Rightarrow> semaphore" where
  "up_sem s =
     (case wait_list s of
        [] \<Rightarrow> s\<lparr>sem_count := sem_count s + 1\<rparr>
      | t # ts \<Rightarrow> s\<lparr>wait_list := ts, woken := woken s @ [t]\<rparr>)"

definition down_trylock :: "semaphore \<Rightarrow> int \<times> semaphore" where
  "down_trylock s =
     (let count = int (sem_count s) - 1 in
      (if count < 0 then 1 else 0, if count \<ge> 0 then s\<lparr>sem_count := nat count\<rparr> else s))"

section \<open>Interleavings\<close>

datatype tstate = Running | Asleep | Returned int

datatype sem_event = Up | Got task | Failed task int

definition returned :: "task \<Rightarrow> int \<Rightarrow> sem_event list" where
  "returned t r = [if r = 0 then Got t else Failed t r]"

inductive sem_step :: "semaphore \<times> (task \<Rightarrow> tstate) \<Rightarrow> sem_event list \<Rightarrow> semaphore \<times> (task \<Rightarrow> tstate) \<Rightarrow> bool" where
  enter_fast: "ts t = Running \<Longrightarrow> down_enter t s = (Acquired, s') \<Longrightarrow>
    sem_step (s, ts) (returned t 0) (s', ts(t := Returned 0))"
| enter_sleep: "ts t = Running \<Longrightarrow> down_enter t s = (Queued, s1) \<Longrightarrow>
    down_common_head sig tmo t s1 = (None, s') \<Longrightarrow> sem_step (s, ts) [] (s', ts(t := Asleep))"
| enter_fail: "ts t = Running \<Longrightarrow> down_enter t s = (Queued, s1) \<Longrightarrow>
    down_common_head sig tmo t s1 = (Some r, s') \<Longrightarrow> sem_step (s, ts) (returned t r) (s', ts(t := Returned r))"
| wake_return: "ts t = Asleep \<Longrightarrow> down_common_wake sig tmo t s = (Some r, s') \<Longrightarrow>
    sem_step (s, ts) (returned t r) (s', ts(t := Returned r))"
| wake_again: "ts t = Asleep \<Longrightarrow> down_common_wake sig tmo t s = (None, s') \<Longrightarrow>
    sem_step (s, ts) [] (s', ts)"
| release: "sem_step (s, ts) [Up] (up_sem s, ts)"
| trylock: "ts t = Running \<Longrightarrow> down_trylock s = (r, s') \<Longrightarrow>
    sem_step (s, ts) (returned t r) (s', ts(t := Returned r))"
| again: "ts t = Returned r \<Longrightarrow> sem_step (s, ts) [] (s, ts(t := Running))"

inductive sem_run :: "semaphore \<times> (task \<Rightarrow> tstate) \<Rightarrow> sem_event list \<Rightarrow> semaphore \<times> (task \<Rightarrow> tstate) \<Rightarrow> bool" where
  no_step: "sem_run p [] p"
| one_more: "sem_run p es q \<Longrightarrow> sem_step q e q' \<Longrightarrow> sem_run p (es @ e) q'"

text \<open>The counter that a sequence of events leaves, if each unit handed out was there.\<close>

fun csem_run :: "nat \<Rightarrow> sem_event list \<Rightarrow> nat option" where
  "csem_run v [] = Some v"
| "csem_run v (Up # es) = csem_run (Suc v) es"
| "csem_run v (Got t # es) = (if v = 0 then None else csem_run (v - 1) es)"
| "csem_run v (Failed t r # es) = csem_run v es"

text \<open>The units that are free: those in the counter, and those handed to woken tasks that have not run yet.\<close>

definition free_units :: "semaphore \<Rightarrow> nat" where
  "free_units s = sem_count s + length (woken s)"

definition sem_wf :: "semaphore \<times> (task \<Rightarrow> tstate) \<Rightarrow> bool" where
  "sem_wf p = (case p of (s, ts) \<Rightarrow>
     (wait_list s \<noteq> [] \<longrightarrow> sem_count s = 0) \<and> distinct (wait_list s @ woken s) \<and>
     (\<forall>t. t \<in> set (wait_list s @ woken s) \<longleftrightarrow> ts t = Asleep))"

lemmas sem_op_defs = down_enter_def down_common_head_def down_common_wake_def up_sem_def
  down_trylock_def

lemma sem_wf_init: "sem_wf (sema_init n, \<lambda>t. Running)"
  by (simp add: sem_wf_def sema_init_def)

lemma sem_wf_iff:
  "sem_wf (s, ts) \<longleftrightarrow> (wait_list s \<noteq> [] \<longrightarrow> sem_count s = 0) \<and> distinct (wait_list s) \<and>
     distinct (woken s) \<and> set (wait_list s) \<inter> set (woken s) = {} \<and>
     (\<forall>t. ts t = Asleep \<longleftrightarrow> t \<in> set (wait_list s) \<or> t \<in> set (woken s))"
  by (auto simp: sem_wf_def)

lemma down_enter_cases:
  "down_enter t s = (Acquired, s') \<Longrightarrow> sem_count s = Suc (sem_count s') \<and> wait_list s' = wait_list s \<and> woken s' = woken s"
  "down_enter t s = (Queued, s') \<Longrightarrow> sem_count s = 0 \<and> s' = s\<lparr>wait_list := wait_list s @ [t]\<rparr>"
  by (auto simp: down_enter_def split: if_splits)

lemma down_common_head_cases:
  "down_common_head sig tmo t s = (None, s') \<Longrightarrow> s' = s"
  "down_common_head sig tmo t s = (Some r, s') \<Longrightarrow>
     r \<noteq> 0 \<and> s' = s\<lparr>wait_list := remove1 t (wait_list s)\<rparr>"
  by (auto simp: down_common_head_def errno_defs split: if_splits)

lemma down_common_wake_cases:
  "down_common_wake sig tmo t s = (None, s') \<Longrightarrow> s' = s"
  "down_common_wake sig tmo t s = (Some r, s') \<Longrightarrow>
     (if t \<in> set (woken s) then r = 0 \<and> s' = s\<lparr>woken := remove1 t (woken s)\<rparr>
      else r \<noteq> 0 \<and> s' = s\<lparr>wait_list := remove1 t (wait_list s)\<rparr>)"
  by (auto simp: down_common_wake_def dest: down_common_head_cases split: if_splits)

lemma down_trylock_cases:
  "down_trylock s = (r, s') \<Longrightarrow>
     wait_list s' = wait_list s \<and> woken s' = woken s \<and>
     (r = 0 \<and> sem_count s = Suc (sem_count s') \<or> r = 1 \<and> s' = s)"
  by (auto simp: down_trylock_def Let_def split: if_splits)

lemma sem_wf_not_queued:
  "sem_wf (s, ts) \<Longrightarrow> ts t \<noteq> Asleep \<Longrightarrow> t \<notin> set (wait_list s) \<and> t \<notin> set (woken s)"
  by (metis sem_wf_iff)

lemma sem_step_wf [wf_intros]: "sem_step p es q \<Longrightarrow> sem_wf p \<Longrightarrow> sem_wf q"
proof (induction rule: sem_step.induct)
  case (enter_fast ts t s s')
  then have "t \<notin> set (woken s)"
    using sem_wf_not_queued [of s ts t] by simp
  with enter_fast(1,3) down_enter_cases(1) [OF enter_fast(2)] show ?case
    by (simp add: sem_wf_iff)
next
  case (enter_sleep ts t s s1 sig tmo s')
  then have "t \<notin> set (wait_list s)" "t \<notin> set (woken s)"
    using sem_wf_not_queued [of s ts t] by simp_all
  with enter_sleep(1,4) down_enter_cases(2) [OF enter_sleep(2)]
    down_common_head_cases(1) [OF enter_sleep(3)] show ?case
    by (simp add: sem_wf_iff)
next
  case (enter_fail ts t s s1 sig tmo r s')
  then have "t \<notin> set (wait_list s)" "t \<notin> set (woken s)"
    using sem_wf_not_queued [of s ts t] by simp_all
  moreover from this have "s' = s"
    using down_enter_cases(2) [OF enter_fail(2)] down_common_head_cases(2) [OF enter_fail(3)]
    by (simp add: remove1_append)
  ultimately show ?case
    using enter_fail(1,4) by (simp add: sem_wf_iff)
next
  case (wake_return ts t sig tmo s r s')
  note wf = wake_return(3) [unfolded sem_wf_iff]
  show ?case
  proof (cases "t \<in> set (woken s)")
    case True
    then have "s' = s\<lparr>woken := remove1 t (woken s)\<rparr>"
      using down_common_wake_cases(2) [OF wake_return(2)] by simp
    with wf True show ?thesis by (simp add: sem_wf_iff) blast
  next
    case False
    then have "s' = s\<lparr>wait_list := remove1 t (wait_list s)\<rparr>"
      using down_common_wake_cases(2) [OF wake_return(2)] by simp
    with wf False show ?thesis by (simp add: sem_wf_iff) auto
  qed
next
  case (wake_again ts t sig tmo s s')
  then show ?case by (auto dest!: down_common_wake_cases)
next
  case (release s ts)
  then show ?case
    by (cases "wait_list s") (auto simp: sem_wf_iff up_sem_def)
next
  case (trylock ts t s r s')
  then have "t \<notin> set (wait_list s)" "t \<notin> set (woken s)"
    using sem_wf_not_queued [of s ts t] by simp_all
  with trylock(1,3) down_trylock_cases [OF trylock(2)] show ?case
    by (simp add: sem_wf_iff) (metis nat.distinct(1))
next
  case (again ts t r s)
  then have "t \<notin> set (wait_list s)" "t \<notin> set (woken s)"
    using sem_wf_not_queued [of s ts t] by simp_all
  with again show ?case by (simp add: sem_wf_iff)
qed

section \<open>The kernel semaphore implements the counting semaphore\<close>

lemma csem_run_append:
  "csem_run v (es @ fs) = (case csem_run v es of None \<Rightarrow> None | Some w \<Rightarrow> csem_run w fs)"
  by (induction v es rule: csem_run.induct) auto

lemma csem_run_returned:
  "csem_run (Suc v) (returned t 0) = Some v" "r \<noteq> 0 \<Longrightarrow> csem_run v (returned t r) = Some v"
  by (simp_all add: returned_def)

lemma sem_step_counted:
  "sem_step p es q \<Longrightarrow> sem_wf p \<Longrightarrow> csem_run (free_units (fst p)) es = Some (free_units (fst q))"
proof (induction rule: sem_step.induct)
  case (enter_fast ts t s s')
  from down_enter_cases(1) [OF enter_fast(2)] show ?case by (simp add: free_units_def csem_run_returned)
next
  case (enter_sleep ts t s s1 sig tmo s')
  from down_enter_cases(2) [OF enter_sleep(2)] down_common_head_cases(1) [OF enter_sleep(3)] show ?case
    by (simp add: free_units_def)
next
  case (enter_fail ts t s s1 sig tmo r s')
  from down_enter_cases(2) [OF enter_fail(2)] down_common_head_cases(2) [OF enter_fail(3)] show ?case
    by (simp add: free_units_def csem_run_returned)
next
  case (wake_return ts t sig tmo s r s')
  show ?case
  proof (cases "t \<in> set (woken s)")
    case True
    then have "length (woken s) = Suc (length (remove1 t (woken s)))"
      by (metis One_nat_def Suc_pred length_pos_if_in_set length_remove1)
    with down_common_wake_cases(2) [OF wake_return(2)] True show ?thesis
      by (simp add: free_units_def csem_run_returned)
  next
    case False
    with down_common_wake_cases(2) [OF wake_return(2)] show ?thesis by (simp add: free_units_def csem_run_returned)
  qed
next
  case (wake_again ts t sig tmo s s')
  from down_common_wake_cases(1) [OF wake_again(2)] show ?case by (simp add: free_units_def)
next
  case (release s ts)
  then show ?case by (cases "wait_list s") (simp_all add: up_sem_def free_units_def)
next
  case (trylock ts t s r s')
  from down_trylock_cases [OF trylock(2)] show ?case by (auto simp: free_units_def csem_run_returned)
qed (simp add: free_units_def)

lemma sem_run_counted:
  "sem_run p es q \<Longrightarrow> sem_wf p \<Longrightarrow> sem_wf q \<and> csem_run (free_units (fst p)) es = Some (free_units (fst q))"
  by (induction rule: sem_run.induct) (auto simp: csem_run_append dest: sem_step_counted intro: sem_step_wf)

lemma up_sem_waiting: "k \<le> length (wait_list s) \<Longrightarrow>
    (up_sem ^^ k) s = s\<lparr>wait_list := drop k (wait_list s), woken := woken s @ take k (wait_list s)\<rparr>"
proof (induction k)
  case (Suc k)
  then have "drop k (wait_list s) = wait_list s ! k # drop (Suc k) (wait_list s)"
    by (simp add: Cons_nth_drop_Suc)
  with Suc show ?case
    by (simp add: up_sem_def take_Suc_conv_app_nth)
qed simp

section \<open>Properties\<close>

text \<open>C30: the kernel's semaphores count.  In every interleaving of \<open>down_interruptible\<close>, \<open>down_timeout\<close>,
  \<open>down_trylock\<close> and \<open>up\<close> by any number of tasks, with their sleeps, wake-ups, signals and time-outs, a
  plain counter that starts with the same value, goes up with every release and down with every successful return never
  has to hand out a unit that it does not have, and it ends as the semaphore's counter plus the number of
  woken tasks that have not run yet; so the wait list neither loses nor duplicates a unit.  While tasks sleep that have not been
  woken, they are all in the wait list and the semaphore's counter is zero, so that no unit is kept from them.\<close>

theorem semaphore_implements_counting:
  assumes "sem_run (sema_init n, \<lambda>t. Running) es (s, ts)"
  shows "csem_run n es = Some (sem_count s + length (woken s)) \<and>
    (\<forall>t. ts t = Asleep \<and> t \<notin> set (woken s) \<longrightarrow> t \<in> set (wait_list s) \<and> sem_count s = 0)"
proof -
  have wf: "sem_wf (s, ts)" and "csem_run n es = Some (sem_count s + length (woken s))"
    using sem_run_counted [OF assms sem_wf_init] by (simp_all add: free_units_def sema_init_def)
  moreover have "t \<in> set (wait_list s) \<and> sem_count s = 0" if "ts t = Asleep" "t \<notin> set (woken s)" for t
    using wf that by (auto simp: sem_wf_iff)
  ultimately show ?thesis by blast
qed

text \<open>Task 1 takes the only unit, task 2 sleeps, and a release wakes task 2, which returns.\<close>

theorem semaphore_implements_counting_witness:
  "csem_run 1 [Got 1, Up, Got 2] = Some 0 \<and>
   (\<exists>s ts. sem_run (sema_init 1, \<lambda>t. Running) [Got 1, Up, Got 2] (s, ts) \<and> sem_count s + length (woken s) = 0)"
proof -
  let ?s = "\<lambda>w u. \<lparr>sem_count = 0, wait_list = w, woken = u\<rparr>" and ?t1 = "(\<lambda>t. Running)(1 := Returned 0)"
  have 1: "sem_step (sema_init 1, \<lambda>t. Running) [Got 1] (?s [] [], ?t1)"
    using enter_fast [of "\<lambda>t. Running" 1 "sema_init 1"] by (simp add: down_enter_def sema_init_def returned_def)
  have 2: "sem_step (?s [] [], ?t1) [] (?s [2] [], ?t1(2 := Asleep))"
    by (rule enter_sleep [where sig = False and tmo = 1 and ?s1.0 = "?s [2] []"])
      (simp_all add: down_enter_def down_common_head_def)
  have 3: "sem_step (?s [2] [], ?t1(2 := Asleep)) [Up] (?s [] [2], ?t1(2 := Asleep))"
    using release [of "?s [2] []"] by (simp add: up_sem_def)
  have 4: "sem_step (?s [] [2], ?t1(2 := Asleep)) [Got 2] (?s [] [], ?t1(2 := Asleep, 2 := Returned 0))"
    using wake_return [of "?t1(2 := Asleep)" 2 False 1 "?s [] [2]" 0 "?s [] []"]
    by (simp add: down_common_wake_def returned_def)
  have run: "sem_run (sema_init 1, \<lambda>t. Running) ((([] @ [Got 1]) @ []) @ [Up]) (?s [] [2], ?t1(2 := Asleep))"
    by (intro one_more [OF one_more [OF one_more [OF no_step 1] 2] 3])
  have "sem_run (sema_init 1, \<lambda>t. Running) [Got 1, Up, Got 2] (?s [] [], ?t1(2 := Asleep, 2 := Returned 0))"
    using one_more [OF run 4] by simp
  with semaphore_implements_counting [OF this] show ?thesis by fastforce
qed

text \<open>Waiters are served first come, first served: \<open>k\<close> releases wake the first \<open>k\<close> waiters in the
  order in which they queued, and no other; the counter does not change.\<close>

theorem up_serves_in_order:
  assumes "k \<le> length (wait_list s)"
  shows "woken ((up_sem ^^ k) s) = woken s @ take k (wait_list s) \<and>
         wait_list ((up_sem ^^ k) s) = drop k (wait_list s) \<and>
         sem_count ((up_sem ^^ k) s) = sem_count s"
  using assms by (simp add: up_sem_waiting)

theorem up_serves_in_order_witness:
  "woken ((up_sem ^^ 2) \<lparr>sem_count = 0, wait_list = [4, 7, 9], woken = []\<rparr>) = [4, 7]"
  using up_serves_in_order [of 2 "\<lparr>sem_count = 0, wait_list = [4, 7, 9], woken = []\<rparr>"]
  by (simp add: numeral_2_eq_2)

end
