(* ===== verification/Configuration_Roundtrip.thy ===== *)
theory Configuration_Roundtrip
  imports Configuration_XML Configuration_Theorems
begin

text \<open>
  Writing a configuration and reading it back: what of it is the same, and which transitions it then
  gives.
\<close>

section \<open>Elements read back\<close>

definition forget :: "'a abstract_rule_scheme \<Rightarrow> 'a abstract_rule_scheme" where
  "forget r = r\<lparr>ar_id := InvalidId, ar_priority := InvalidPriority\<rparr>"

text \<open>What the file keeps of a transition rule, a matching rule and a rule: flags of transition rules
  that are set come back as \<open>true\<close>, a condition of blanks only comes back as one on the empty value, and
  the program is the one now known under the name.  Matching rules without conditions and transition
  rules without a source domain do not come back.\<close>

definition saved_trule :: "trule \<Rightarrow> trule" where
  "saved_trule t = t\<lparr>tr_notify := True, tr_prompt := True\<rparr>"

definition saved_condition :: "string \<times> string \<Rightarrow> string \<times> string" where
  "saved_condition kv = (fst kv, if blank (snd kv) then [] else snd kv)"

definition saved_mrule :: "program \<Rightarrow> mrule \<Rightarrow> mrule" where
  "saved_mrule p m = m\<lparr>mr_prog := p, conditions := map saved_condition (conditions m)\<rparr>"

definition saved :: "program \<Rightarrow> 'a abstract_rule_scheme \<Rightarrow> 'a abstract_rule_scheme" where
  "saved p r =
     r\<lparr>ar_program := p, mrules := map (saved_mrule p) (filter (\<lambda>m. conditions m \<noteq> []) (mrules r)),
       trules := map saved_trule (filter (\<lambda>t. from_domain t \<noteq> []) (trules r))\<rparr>"

text \<open>The conditions of a matching rule are a map from names to values, in the order of the names.\<close>

definition storable_rule :: "'a abstract_rule_scheme \<Rightarrow> bool" where
  "storable_rule r = list_all (\<lambda>m. osorted (conditions m)) (mrules r)"

text \<open>Rules whose document has all of them.\<close>

definition complete_rule :: "'a abstract_rule_scheme \<Rightarrow> bool" where
  "complete_rule r =
     (list_all (\<lambda>m. conditions m \<noteq> [] \<and> list_all solid (ovals (conditions m))) (mrules r) \<and>
      list_all (\<lambda>t. from_domain t \<noteq> []) (trules r))"

lemma saved_mrule_solid:
  assumes "list_all solid (ovals (conditions m))"
  shows "saved_mrule p m = m\<lparr>mr_prog := p\<rparr>"
proof -
  have "saved_condition kv = kv" if "kv \<in> set (conditions m)" for kv
    using assms that by (cases kv) (auto simp: saved_condition_def solid_def ovals_def list_all_iff)
  then have "map saved_condition (conditions m) = conditions m" by (rule map_idI)
  then show ?thesis by (simp add: saved_mrule_def)
qed

lemma saved_complete:
  assumes "complete_rule r"
  shows "saved p r = r\<lparr>ar_program := p, mrules := map (\<lambda>m. m\<lparr>mr_prog := p\<rparr>) (mrules r), trules := map saved_trule (trules r)\<rparr>"
proof -
  have "filter (\<lambda>m. conditions m \<noteq> []) (mrules r) = mrules r" "filter (\<lambda>t. from_domain t \<noteq> []) (trules r) = trules r"
    using assms by (auto simp: complete_rule_def list_all_iff filter_id_conv)
  moreover have "map (saved_mrule p) (mrules r) = map (\<lambda>m. m\<lparr>mr_prog := p\<rparr>) (mrules r)"
    using assms by (auto simp: complete_rule_def list_all_iff intro!: saved_mrule_solid)
  ultimately show ?thesis by (simp add: saved_def)
qed

lemma condition_elem_norm:
  "is_element (condition_elem kv)" "tagName (condition_elem kv) = fst kv"
  "dom_text (dom_norm (condition_elem kv)) = snd (saved_condition kv)"
  by (simp_all add: condition_elem_def saved_condition_def)

lemma parse_conditions:
  assumes "osorted (pre @ cs)" "conditions m = pre"
  shows "\<exists>b. fold parse_condition (map dom_norm (map condition_elem cs)) (m, a) = (m\<lparr>conditions := pre @ map saved_condition cs\<rparr>, b)"
  using assms
proof (induction cs arbitrary: pre m a)
  case Nil
  then show ?case by auto
next
  case (Cons kv cs)
  obtain k v where kv: "kv = (k, v)" by fastforce
  have less: "\<forall>k' \<in> set (okeys pre). k' < k"
    using Cons.prems(1) by (auto simp: kv osorted_def okeys_def sorted_wrt_append)
  then have absent: "ofind (conditions m) k = None"
    using Cons.prems(2) by (intro ofind_notin_okeys) auto
  define kv' where "kv' = saved_condition kv"
  have kv': "fst kv' = k" by (simp add: kv'_def kv saved_condition_def)
  obtain b where b: "parse_condition (dom_norm (condition_elem kv)) (m, a) = (m\<lparr>conditions := pre @ [kv']\<rparr>, b)"
    using condition_elem_norm [of kv] Cons.prems(2) absent oinsert_snoc [OF less, of "snd kv'"] kv'
    by (cases kv') (simp add: parse_condition_def addCondition_def kv Let_def kv'_def del: dom_norm.simps)
  have "osorted ((pre @ [kv']) @ cs)"
    using Cons.prems(1) kv' by (simp add: osorted_def okeys_def kv)
  then show ?case
    using Cons.IH [of "pre @ [kv']" "m\<lparr>conditions := pre @ [kv']\<rparr>" b] b by (simp add: kv'_def del: dom_norm.simps)
qed

lemma mrule_elem_norm:
  "dom_norm (mrule_elem m) = Element RULE_MRULE_TAG [(ACTION_TAG, mr_action m), (DISPLAY_NAME_TAG, mr_display_name m)]
     (map dom_norm (map condition_elem (conditions m)))"
proof -
  have "filter (\<lambda>k. \<not> blank_text k) (map condition_elem cs) = map condition_elem cs" for cs
    by (induction cs) (simp_all add: condition_elem_def)
  then show ?thesis by (simp add: mrule_elem_def)
qed

lemma parse_mrule_elem:
  assumes "conditions m \<noteq> []" "osorted (conditions m)"
  shows "\<exists>b. parse_mrule (dom_norm (mrule_elem m)) (r, a) =
      (r\<lparr>mrules := mrules r @ [saved_mrule (ar_program r) m]\<rparr>, b)"
proof -
  have kids: "child_elements (dom_norm (mrule_elem m)) = map dom_norm (map condition_elem (conditions m))"
    unfolding mrule_elem_norm child_elements_def by (simp add: filter_map o_def condition_elem_norm(1))
  have "hasChildNodes (dom_norm (mrule_elem m))"
    using assms(1) unfolding mrule_elem_norm by (simp add: hasChildNodes_def)
  moreover obtain b where "fold parse_condition (map dom_norm (map condition_elem (conditions m)))
      (MRule (ar_program r) (mr_action m) (mr_display_name m), a) =
      (MRule (ar_program r) (mr_action m) (mr_display_name m)\<lparr>conditions := map saved_condition (conditions m)\<rparr>, b)"
    using parse_conditions [of "[]" "conditions m" "MRule (ar_program r) (mr_action m) (mr_display_name m)" a] assms
    by (auto simp: MRule_def)
  moreover have "MRule (ar_program r) (mr_action m) (mr_display_name m)\<lparr>conditions := map saved_condition (conditions m)\<rparr> =
      saved_mrule (ar_program r) m"
    by (simp add: MRule_def saved_mrule_def)
  ultimately show ?thesis
    unfolding parse_mrule_def kids by (simp add: mrule_elem_norm Let_def del: map_map)
qed

lemma parse_mrules_elems:
  assumes "list_all (\<lambda>m. osorted (conditions m)) ms"
  shows "\<exists>b. fold parse_mrule (map dom_norm (map mrule_elem ms)) (r, a) =
      (r\<lparr>mrules := mrules r @ map (saved_mrule (ar_program r)) (filter (\<lambda>m. conditions m \<noteq> []) ms)\<rparr>, b)"
  using assms
proof (induction ms arbitrary: r a)
  case Nil
  show ?case by (rule exI [of _ a]) simp
next
  case (Cons m ms)
  show ?case
  proof (cases "conditions m = []")
    case True
    then have "parse_mrule (dom_norm (mrule_elem m)) (r, a) = (r, a)"
      unfolding mrule_elem_norm by (simp add: parse_mrule_def hasChildNodes_def)
    with Cons.IH [of r a] Cons.prems True show ?thesis by simp
  next
    case False
    then obtain b where "parse_mrule (dom_norm (mrule_elem m)) (r, a) = (r\<lparr>mrules := mrules r @ [saved_mrule (ar_program r) m]\<rparr>, b)"
      using parse_mrule_elem [of m r a] Cons.prems by auto
    with Cons.IH [of "r\<lparr>mrules := mrules r @ [saved_mrule (ar_program r) m]\<rparr>" b] Cons.prems False show ?thesis
      by simp
  qed
qed

lemma elem_tags [simp]:
  "is_element (mrule_elem m)" "tagName (mrule_elem m) = RULE_MRULE_TAG"
  "is_element (trule_elem tag from_tag t)" "tagName (trule_elem tag from_tag t) = tag"
  "is_element (domain_elem F dd d)" "tagName (domain_elem F dd d) = DOMAIN_TAG"
  "is_element (nokill_elem p)" "tagName (nokill_elem p) = NOKILL_PROGRAM_TAG"
  "is_element (arule_elem x)"
  by (simp_all add: mrule_elem_def trule_elem_def domain_elem_def nokill_elem_def) (cases x; simp)

lemma parse_trules_elems:
  assumes "from_tag \<noteq> RULE_NOTIFY_TAG" "from_tag \<noteq> RULE_PROMPT_TAG"
  shows "fold (parse_trule from_tag) (map dom_norm (map (trule_elem tag from_tag) ts)) r =
      r\<lparr>trules := trules r @ map saved_trule (filter (\<lambda>t. from_domain t \<noteq> []) ts)\<rparr>"
proof (induction ts arbitrary: r)
  case (Cons t ts)
  have "parse_trule from_tag (dom_norm (trule_elem tag from_tag t)) r =
      (if from_domain t = [] then r else r\<lparr>trules := trules r @ [saved_trule t]\<rparr>)"
    using assms
    by (cases "has_notify t"; cases "has_prompt t")
      (simp_all add: parse_trule_def trule_elem_def Let_def saved_trule_def TRule_def trule_setNotify_def trule_setPrompt_def)
  with Cons show ?case by simp
qed simp

lemma parseMRules_elem:
  assumes "storable_rule r0" "firstChildElement RULE_MATCHING_TAG e = Some (matching_elem r0)"
  shows "\<exists>b. parseMRules (dom_norm e) r a =
      (True, r\<lparr>mrules := mrules r @ map (saved_mrule (ar_program r)) (filter (\<lambda>m. conditions m \<noteq> []) (mrules r0))\<rparr>, b)"
proof -
  have "children_named RULE_MRULE_TAG (matching_elem r0) = map mrule_elem (mrules r0)"
    by (simp add: matching_elem_def children_named_def filter_id_conv)
  then have "parseMRules (dom_norm e) r a = (True, fold parse_mrule (map dom_norm (map mrule_elem (mrules r0))) (r, a))"
    using assms(2) by (simp add: parseMRules_def)
  moreover obtain b where "fold parse_mrule (map dom_norm (map mrule_elem (mrules r0))) (r, a) =
      (r\<lparr>mrules := mrules r @ map (saved_mrule (ar_program r)) (filter (\<lambda>m. conditions m \<noteq> []) (mrules r0))\<rparr>, b)"
    using parse_mrules_elems [of "mrules r0" r a] assms(1) by (auto simp: storable_rule_def)
  ultimately show ?thesis by metis
qed

lemma parseTRulesForLoop_elem:
  "parseTRulesForLoop (dom_norm (arule_elem (ALoop l0))) l = (True, l\<lparr>trules := trules l @ map saved_trule (filter (\<lambda>t. from_domain t \<noteq> []) (trules l0))\<rparr>)"
proof -
  have "children_named LOOP_DOMAIN_TAG (Element LOOP_DOMAINS_TAG [] (map (trule_elem LOOP_DOMAIN_TAG LOOP_DOMAIN_NAME_TAG) (trules l0))) =
      map (trule_elem LOOP_DOMAIN_TAG LOOP_DOMAIN_NAME_TAG) (trules l0)"
    by (simp add: children_named_def filter_id_conv)
  moreover have "firstChildElement LOOP_DOMAINS_TAG (arule_elem (ALoop l0)) =
      Some (Element LOOP_DOMAINS_TAG [] (map (trule_elem LOOP_DOMAIN_TAG LOOP_DOMAIN_NAME_TAG) (trules l0)))"
    by (simp add: firstChildElement_def children_named_def matching_elem_def)
  moreover have "fold (parse_trule LOOP_DOMAIN_NAME_TAG) (map dom_norm (map (trule_elem LOOP_DOMAIN_TAG LOOP_DOMAIN_NAME_TAG) (trules l0))) l =
      l\<lparr>trules := trules l @ map saved_trule (filter (\<lambda>t. from_domain t \<noteq> []) (trules l0))\<rparr>"
    by (rule parse_trules_elems) simp_all
  ultimately show ?thesis by (simp add: parseTRulesForLoop_def del: arule_elem.simps dom_norm.simps map_map)
qed

lemma parseTRulesForRule_elem:
  "parseTRulesForRule (dom_norm (arule_elem (ARule r0))) r = (True, r\<lparr>trules := trules r @ map saved_trule (filter (\<lambda>t. from_domain t \<noteq> []) (trules r0))\<rparr>)"
proof -
  let ?allow = "Element ALLOW_TAG [] (map (trule_elem RULE_TRANSIT_TAG RULE_TRANSIT_FROM_TAG) (trules r0))"
  have "children_named RULE_TRANSIT_TAG ?allow = map (trule_elem RULE_TRANSIT_TAG RULE_TRANSIT_FROM_TAG) (trules r0)"
    by (simp add: children_named_def filter_id_conv)
  moreover have "firstChildElement RULE_TRANSITIONS_TAG (arule_elem (ARule r0)) = Some (Element RULE_TRANSITIONS_TAG [] [?allow])"
    by (simp add: firstChildElement_def children_named_def matching_elem_def)
  moreover have "firstChildElement ALLOW_TAG (Element RULE_TRANSITIONS_TAG [] [?allow]) = Some ?allow"
    by (simp add: firstChildElement_def children_named_def)
  moreover have "fold (parse_trule RULE_TRANSIT_FROM_TAG) (map dom_norm (map (trule_elem RULE_TRANSIT_TAG RULE_TRANSIT_FROM_TAG) (trules r0))) r =
      r\<lparr>trules := trules r @ map saved_trule (filter (\<lambda>t. from_domain t \<noteq> []) (trules r0))\<rparr>"
    by (rule parse_trules_elems) simp_all
  ultimately show ?thesis by (simp add: parseTRulesForRule_def del: arule_elem.simps dom_norm.simps map_map)
qed

definition numbered :: "int \<Rightarrow> 'a abstract_rule_scheme \<Rightarrow> 'a abstract_rule_scheme" where
  "numbered i r = r\<lparr>ar_id := i, ar_priority := i\<rparr>"

lemma rule_attributes_back:
  "attribute (arule_elem (ALoop l)) RULE_APP_NAME_TAG = rule_key l" "attribute (arule_elem (ARule r)) RULE_APP_NAME_TAG = rule_key r"
  "attribute (arule_elem (ALoop l)) RULE_DISPLAY_NAME_TAG = ar_display_name l"
  "attribute (arule_elem (ARule r)) RULE_DISPLAY_NAME_TAG = ar_display_name r"
  "attribute (arule_elem (ARule r)) RULE_TRANSIT_TO_TAG = dom_name (transit_to r)"
  "parse_flags (dom_norm (arule_elem (ALoop l))) r1 = r1\<lparr>ar_notify := ar_notify l, ar_prompt := ar_prompt l\<rparr>"
  "parse_flags (dom_norm (arule_elem (ARule r))) r1 = r1\<lparr>ar_notify := ar_notify r, ar_prompt := ar_prompt r\<rparr>"
  by (simp_all add: rule_attributes_def rule_key_def parse_flags_def Let_def)

lemma parseLoop_elem:
  assumes "storable_rule l"
  shows "\<exists>b. parseLoop (dom_norm (arule_elem (ALoop l))) c =
     c\<lparr>idCounter := idCounter c + 1, assigned_values := b,
       cf_loops := table_push (rule_key l) (numbered (idCounter c + 1) (saved (program_of (programs c) (rule_key l)) l)) (cf_loops c)\<rparr>"
proof -
  let ?e = "arule_elem (ALoop l)"
  let ?P = "program_of (programs c) (rule_key l)"
  have m: "firstChildElement RULE_MATCHING_TAG ?e = Some (matching_elem l)"
    by (simp add: firstChildElement_def children_named_def matching_elem_def)
  define l1 where "l1 = parse_flags (dom_norm ?e) (fst (Loop False False ?P (ar_display_name l) (idCounter c)))"
  obtain b where b: "parseMRules (dom_norm ?e) l1 (assigned_values c) =
      (True, l1\<lparr>mrules := mrules l1 @ map (saved_mrule (ar_program l1)) (filter (\<lambda>m. conditions m \<noteq> []) (mrules l))\<rparr>, b)"
    using parseMRules_elem [OF assms m] by blast
  have "l1\<lparr>mrules := mrules l1 @ map (saved_mrule (ar_program l1)) (filter (\<lambda>m. conditions m \<noteq> []) (mrules l)), trules := trules l1 @ map saved_trule (filter (\<lambda>t. from_domain t \<noteq> []) (trules l))\<rparr> =
      numbered (idCounter c + 1) (saved ?P l)"
    unfolding l1_def rule_attributes_back
    by (rule abstract_rule.equality) (simp_all add: Loop_def numbered_def saved_def)
  with b show ?thesis
    unfolding parseLoop_def l1_def
    by (intro exI [of _ b]) (simp add: Let_def parseTRulesForLoop_elem rule_attributes_back(1,3) Loop_def
        del: arule_elem.simps dom_norm.simps)
qed

lemma parseRule_elem:
  assumes "storable_rule r" "ofind (domains c) (dom_name (transit_to r)) = Some (transit_to r)" "transit_to r \<noteq> Domain0"
  shows "\<exists>b. parseRule (dom_norm (arule_elem (ARule r))) c =
     c\<lparr>idCounter := idCounter c + 1, assigned_values := b,
       cf_rules := table_push (rule_key r) (numbered (idCounter c + 1) (saved (program_of (programs c) (rule_key r)) r)) (cf_rules c)\<rparr>"
proof -
  let ?e = "arule_elem (ARule r)"
  let ?P = "program_of (programs c) (rule_key r)"
  have m: "firstChildElement RULE_MATCHING_TAG ?e = Some (matching_elem r)"
    by (simp add: firstChildElement_def children_named_def matching_elem_def)
  define r1 where "r1 = parse_flags (dom_norm ?e) (fst (Rule False False ?P (transit_to r) (ar_display_name r) (idCounter c)))"
  obtain b where b: "parseMRules (dom_norm ?e) r1 (assigned_values c) =
      (True, r1\<lparr>mrules := mrules r1 @ map (saved_mrule (ar_program r1)) (filter (\<lambda>m. conditions m \<noteq> []) (mrules r))\<rparr>, b)"
    using parseMRules_elem [OF assms(1) m] by blast
  have "r1\<lparr>mrules := mrules r1 @ map (saved_mrule (ar_program r1)) (filter (\<lambda>m. conditions m \<noteq> []) (mrules r)), trules := trules r1 @ map saved_trule (filter (\<lambda>t. from_domain t \<noteq> []) (trules r))\<rparr> =
      numbered (idCounter c + 1) (saved ?P r)"
    unfolding r1_def rule_attributes_back
    by (rule rule.equality) (simp_all add: Rule_def numbered_def saved_def)
  moreover have "oindex Domain0 (dom_name (transit_to r)) (domains c) = (transit_to r, domains c)"
    using assms(2) by (simp add: oindex_def)
  ultimately show ?thesis
    using b assms(3) unfolding parseRule_def r1_def
    by (intro exI [of _ b]) (simp add: Let_def parseTRulesForRule_elem rule_attributes_back(2,4,5) Rule_def
        del: arule_elem.simps dom_norm.simps)
qed

section \<open>All rules of a configuration\<close>

fun storable_arule :: "(string, domain) omap \<Rightarrow> arule \<Rightarrow> bool" where
  "storable_arule D (ALoop l) = storable_rule l"
| "storable_arule D (ARule r) =
     (storable_rule r \<and> transit_to r \<noteq> Domain0 \<and> ofind D (dom_name (transit_to r)) = Some (transit_to r))"

text \<open>The loops, and the rules, of one program in a list.\<close>

fun loops_of :: "string \<Rightarrow> arule list \<Rightarrow> loop list" where
  "loops_of k [] = []"
| "loops_of k (ALoop l # xs) = (if rule_key l = k then l # loops_of k xs else loops_of k xs)"
| "loops_of k (ARule r # xs) = loops_of k xs"

fun rules_of :: "string \<Rightarrow> arule list \<Rightarrow> rule list" where
  "rules_of k [] = []"
| "rules_of k (ALoop l # xs) = rules_of k xs"
| "rules_of k (ARule r # xs) = (if rule_key r = k then r # rules_of k xs else rules_of k xs)"

lemma table_push_value:
  "ovalue [] (table_push k r m) k' = (if k' = k then ovalue [] m k @ [r] else ovalue [] m k')"
  by (simp add: table_push_def Let_def case_prod_beta oindex_value ovalue_def ofind_oindex)

lemma forget_numbered [simp]: "forget (numbered i r) = forget r"
  by (simp add: forget_def numbered_def)

lemma parse_aloop:
  assumes "storable_rule l"
  shows "\<exists>b. parse_element (dom_norm (arule_elem (ALoop l))) c =
     c\<lparr>idCounter := idCounter c + 1, assigned_values := b,
       cf_loops := table_push (rule_key l) (numbered (idCounter c + 1) (saved (program_of (programs c) (rule_key l)) l)) (cf_loops c)\<rparr>"
  using parseLoop_elem [OF assms, of c] by (simp add: parse_element_def)

lemma parse_arule:
  assumes "storable_arule (domains c) (ARule r)"
  shows "\<exists>b. parse_element (dom_norm (arule_elem (ARule r))) c =
     c\<lparr>idCounter := idCounter c + 1, assigned_values := b,
       cf_rules := table_push (rule_key r) (numbered (idCounter c + 1) (saved (program_of (programs c) (rule_key r)) r)) (cf_rules c)\<rparr>"
  using parseRule_elem [of r c] assms by (simp add: parse_element_def)

lemma parse_arules:
  assumes "list_all (storable_arule (domains c)) xs"
  defines "c' \<equiv> fold parse_element (map dom_norm (map arule_elem xs)) c"
  shows "domains c' = domains c \<and> default_domain c' = default_domain c \<and> no_kill_programs c' = no_kill_programs c \<and>
      programs c' = programs c \<and>
      map forget (ovalue [] (cf_loops c') k) =
        map forget (ovalue [] (cf_loops c) k @ map (saved (program_of (programs c) k)) (loops_of k xs)) \<and>
      map forget (ovalue [] (cf_rules c') k) =
        map forget (ovalue [] (cf_rules c) k @ map (saved (program_of (programs c) k)) (rules_of k xs))"
  using assms(1) unfolding c'_def
proof (induction xs arbitrary: c)
  case (Cons x xs)
  show ?case
  proof (cases x)
    case (ALoop l)
    then obtain b where eq: "parse_element (dom_norm (arule_elem x)) c =
       c\<lparr>idCounter := idCounter c + 1, assigned_values := b,
         cf_loops := table_push (rule_key l) (numbered (idCounter c + 1) (saved (program_of (programs c) (rule_key l)) l)) (cf_loops c)\<rparr>"
      using parse_aloop [of l c] Cons.prems by auto
    show ?thesis
      using Cons.IH [of "parse_element (dom_norm (arule_elem x)) c"] Cons.prems
      by (simp add: eq del: map_map) (simp add: ALoop table_push_value)
  next
    case (ARule r)
    then obtain b where eq: "parse_element (dom_norm (arule_elem x)) c =
       c\<lparr>idCounter := idCounter c + 1, assigned_values := b,
         cf_rules := table_push (rule_key r) (numbered (idCounter c + 1) (saved (program_of (programs c) (rule_key r)) r)) (cf_rules c)\<rparr>"
      using parse_arule [of c r] Cons.prems by auto
    show ?thesis
      using Cons.IH [of "parse_element (dom_norm (arule_elem x)) c"] Cons.prems
      by (simp add: eq del: map_map) (simp add: ARule table_push_value)
  qed
qed simp

section \<open>The list of all rules\<close>

fun is_loop_of :: "string \<Rightarrow> arule \<Rightarrow> bool" where
  "is_loop_of k (ALoop l) = (rule_key l = k)"
| "is_loop_of k (ARule r) = False"

fun is_rule_of :: "string \<Rightarrow> arule \<Rightarrow> bool" where
  "is_rule_of k (ALoop l) = False"
| "is_rule_of k (ARule r) = (rule_key r = k)"

lemma of_filter:
  "map ALoop (loops_of k xs) = filter (is_loop_of k) xs" "map ARule (rules_of k xs) = filter (is_rule_of k) xs"
  by (induction k xs rule: loops_of.induct) auto

lemma sort_key_sorted: "sorted (map f xs) \<Longrightarrow> sort_key f xs = xs"
  by (induction xs) (auto simp: insort_is_Cons)

lemma table_all_program:
  assumes "table_wf m"
  shows "filter (\<lambda>r. rule_key r = k) (table_all m) = ovalue [] m k"
proof -
  have "osorted m" "\<forall>(k, l) \<in> set m. \<forall>r \<in> set l. rule_key r = k" using assms by (simp_all add: table_wf_def)
  then show ?thesis
  proof (induction m)
    case (Cons kl m)
    obtain k' l where kl: "kl = (k', l)" by fastforce
    have IH: "filter (\<lambda>r. rule_key r = k) (table_all m) = ovalue [] m k"
      using Cons by simp
    have "ofind m k' = None"
      using Cons.prems(1) by (intro ofind_notin_okeys) (auto simp: kl)
    moreover have "filter (\<lambda>r. rule_key r = k) l = (if k = k' then l else [])"
      using Cons.prems(2) by (auto simp: kl filter_id_conv filter_empty_conv)
    ultimately show ?case using IH by (auto simp: kl ovalue_def)
  qed (simp add: ovalue_def)
qed

lemma allAbstractRules_of:
  assumes "config_wf c"
  shows "loops_of k (allAbstractRules True c) = ovalue [] (cf_loops c) k"
    "rules_of k (allAbstractRules True c) = ovalue [] (cf_rules c) k"
proof -
  have wf: "table_wf (cf_loops c)" "table_wf (cf_rules c)" using assms by (simp_all add: config_wf_def stores_wf_def)
  have 1: "filter (is_loop_of k) (map ALoop ls @ map ARule rs) = map ALoop (filter (\<lambda>l. rule_key l = k) ls)"
    "filter (is_rule_of k) (map ALoop ls @ map ARule rs) = map ARule (filter (\<lambda>r. rule_key r = k) rs)" for ls rs
    by (simp_all add: filter_map o_def)
  have p: "map arule_priority (map ALoop ls) = map ar_priority ls" "map arule_priority (map ARule rs) = map ar_priority rs" for ls rs
    by simp_all
  have "map ALoop (loops_of k (allAbstractRules True c)) = map ALoop (ovalue [] (cf_loops c) k)"
    unfolding of_filter allAbstractRules_def Let_def using table_wf_values(2) [OF wf(1)]
    by (simp only: if_True filter_sort 1 table_all_program [OF wf(1)] sort_key_sorted p)
  then show "loops_of k (allAbstractRules True c) = ovalue [] (cf_loops c) k"
    by (simp add: inj_map_eq_map inj_def)
  have "map ARule (rules_of k (allAbstractRules True c)) = map ARule (ovalue [] (cf_rules c) k)"
    unfolding of_filter allAbstractRules_def Let_def using table_wf_values(2) [OF wf(2)]
    by (simp only: if_True filter_sort 1 table_all_program [OF wf(2)] sort_key_sorted p)
  then show "rules_of k (allAbstractRules True c) = ovalue [] (cf_rules c) k"
    by (simp add: inj_map_eq_map inj_def)
qed

section \<open>Domains and unkillable programs\<close>

definition storable_domain :: "domain \<Rightarrow> bool" where
  "storable_domain d \<longleftrightarrow>
     dom_name d \<noteq> [] \<and> solid (dom_description d) \<and> c_int (dom_confidentiality d) \<and> c_int (dom_reliability d)"

lemma parseDomain_elem:
  assumes "numbers_ok F" "storable_domain d" "\<not> ocontains (domains c) (dom_name d)"
  shows "parseDomain F (dom_norm (domain_elem F dd d)) c =
     c\<lparr>domains := oinsert (dom_name d) d (domains c), default_domain := (if dd = d then d else default_domain c)\<rparr>"
proof -
  have num: "to_int F (of_int_str F (dom_confidentiality d)) = Some (dom_confidentiality d)"
    "to_int F (of_int_str F (dom_reliability d)) = Some (dom_reliability d)"
    using assms(1,2) by (simp_all add: numbers_ok_def storable_domain_def)
  have desc: "firstChildElement DESCRIPTION_TAG (domain_elem F dd d) = Some (Element DESCRIPTION_TAG [] [TextNode (dom_description d)])"
    by (simp add: domain_elem_def firstChildElement_def children_named_def)
  have txt1: "dom_text (dom_norm (Element DESCRIPTION_TAG [] [TextNode (dom_description d)])) = dom_description d"
    using assms(2) by (intro text_norm) (simp add: storable_domain_def)
  have attrs: "attribute (domain_elem F dd d) NAME_TAG = dom_name d" "attribute (domain_elem F dd d) DISPLAY_NAME_TAG = dom_display_name d"
    "attribute (domain_elem F dd d) ICON_TAG = dom_icon_path d"
    "dom_attribute (domain_elem F dd d) CONFIDENTIALITY_TAG dv = of_int_str F (dom_confidentiality d)"
    "dom_attribute (domain_elem F dd d) RELIABILITY_TAG dv = of_int_str F (dom_reliability d)"
    "dom_attribute (domain_elem F dd d) DEFAULT_TAG RULE_FALSE = (if dd = d then RULE_TRUE else RULE_FALSE)" for dv
    by (simp_all add: domain_elem_def)
  have "Domain (dom_name d) (dom_display_name d) (dom_icon_path d) (dom_description d) (dom_confidentiality d) (dom_reliability d) = d"
    by (simp add: Domain_def)
  then show ?thesis
    using assms(2,3) unfolding parseDomain_def storable_domain_def
    by (simp add: attrs desc txt1 toInt0_def num Let_def del: dom_norm.simps)
qed

lemma parse_domains_elems:
  assumes "numbers_ok F" "osorted (pre @ D)" "\<forall>(k, d) \<in> set D. dom_name d = k \<and> storable_domain d" "domains c = pre"
  shows "fold (parseDomain F) (map dom_norm (map (domain_elem F dd) (ovals D))) c =
     c\<lparr>domains := pre @ D, default_domain := (if dd \<in> set (ovals D) then dd else default_domain c)\<rparr>"
  using assms(2-4)
proof (induction D arbitrary: pre c)
  case (Cons kd D)
  obtain k d where kd: "kd = (k, d)" by fastforce
  have less: "\<forall>k' \<in> set (okeys pre). k' < k"
    using Cons.prems(1) by (auto simp: kd osorted_def okeys_def sorted_wrt_append)
  have d: "dom_name d = k" "storable_domain d" using Cons.prems(2) by (auto simp: kd)
  have "\<not> ocontains (domains c) (dom_name d)"
    using less Cons.prems(3) d(1) by (auto simp: in_okeys_iff [symmetric])
  with parseDomain_elem [OF assms(1), of d c dd] d oinsert_snoc [OF less, of d] Cons.prems(3)
  have step: "parseDomain F (dom_norm (domain_elem F dd d)) c = c\<lparr>domains := pre @ [kd], default_domain := (if dd = d then d else default_domain c)\<rparr>"
    by (simp add: kd)
  from Cons.IH [of "pre @ [kd]" "c\<lparr>domains := pre @ [kd], default_domain := (if dd = d then d else default_domain c)\<rparr>"] Cons.prems step
  show ?case by (cases "dd = d") (simp_all add: kd)
qed simp

lemma parse_nokill_elems:
  assumes "list_all (\<lambda>p. p \<noteq> [] \<and> is_absolute F p) ps"
  shows "fold (parseNoKillProgram F) (map dom_norm (map nokill_elem ps)) c = c\<lparr>no_kill_programs := no_kill_programs c @ ps\<rparr>"
  using assms
proof (induction ps arbitrary: c)
  case (Cons p ps)
  have "parseNoKillProgram F (dom_norm (nokill_elem p)) c = c\<lparr>no_kill_programs := no_kill_programs c @ [p]\<rparr>"
    using Cons.prems by (simp add: parseNoKillProgram_def nokill_elem_def)
  with Cons show ?case by simp
qed simp

section \<open>The whole file\<close>

definition storable_config :: "framework \<Rightarrow> configuration \<Rightarrow> bool" where
  "storable_config F c =
     (config_wf c \<and> distinct (map arule_priority (listed c)) \<and>
      list_all storable_domain (ovals (domains c)) \<and>
      (default_domain c = Domain0 \<or> default_domain c \<in> set (ovals (domains c))) \<and>
      list_all (\<lambda>p. p \<noteq> [] \<and> is_absolute F p) (no_kill_programs c) \<and>
      list_all (storable_arule (domains c)) (listed c))"

lemma arule_elem_tag: "tagName (arule_elem x) = (case x of ALoop l \<Rightarrow> LOOP_TAG | ARule r \<Rightarrow> RULE_TAG)"
  by (cases x) simp_all

lemma transitions_children:
  "children_named DOMAIN_TAG (transitions_dom F c) = map (domain_elem F (default_domain c)) (ovals (domains c))"
  "firstChildElement NOKILL_ROOT_TAG (transitions_dom F c) = Some (Element NOKILL_ROOT_TAG [] (map nokill_elem (no_kill_programs c)))"
  "child_elements (transitions_dom F c) = map (domain_elem F (default_domain c)) (ovals (domains c)) @
     [Element NOKILL_ROOT_TAG [] (map nokill_elem (no_kill_programs c))] @ map arule_elem (allAbstractRules True c)"
  by (simp_all add: transitions_dom_def firstChildElement_def children_named_def child_elements_def filter_map o_def
      arule_elem_tag filter_id_conv split: arule.split)

lemma parse_element_other: "tagName e \<noteq> LOOP_TAG \<Longrightarrow> tagName e \<noteq> RULE_TAG \<Longrightarrow> parse_element e c = c"
  by (simp add: parse_element_def)

lemma parse_elements_other:
  "\<forall>e \<in> set es. tagName e \<noteq> LOOP_TAG \<and> tagName e \<noteq> RULE_TAG \<Longrightarrow> fold parse_element es c = c"
  by (induction es) (auto simp: parse_element_other)

lemma set_allAbstractRules: "set (allAbstractRules True c) = set (listed c)"
  by (auto simp: listed_def allAbstractRules_def)

lemma parse_transitions_dom:
  assumes "numbers_ok F" "storable_config F c" "domains c0 = []" "cf_loops c0 = []" "cf_rules c0 = []" "no_kill_programs c0 = []"
  defines "c' \<equiv> parse_transitions F (dom_norm (transitions_dom F c)) c0"
  shows "domains c' = domains c" "no_kill_programs c' = no_kill_programs c" "programs c' = programs c0"
    "default_domain c' = (if default_domain c = Domain0 then default_domain c0 else default_domain c)"
    "map forget (ovalue [] (cf_loops c') k) = map forget (map (saved (program_of (programs c0) k)) (ovalue [] (cf_loops c) k))"
    "map forget (ovalue [] (cf_rules c') k) = map forget (map (saved (program_of (programs c0) k)) (ovalue [] (cf_rules c) k))"
proof -
  note st = assms(2) [unfolded storable_config_def]
  have wf: "config_wf c" using st by blast
  then have D: "osorted (domains c)" "\<And>k d. ofind (domains c) k = Some d \<Longrightarrow> dom_name d = k"
    by (simp_all add: config_wf_def names_wf_def)
  have entries: "\<forall>(k, d) \<in> set (domains c). dom_name d = k \<and> storable_domain d"
  proof (clarify, intro conjI)
    fix k d assume "(k, d) \<in> set (domains c)"
    then have find: "ofind (domains c) k = Some d" using om.entry_iff [OF D(1)] by blast
    then have "d \<in> set (ovals (domains c))" using ovals_iff [OF D(1)] by blast
    with st show "storable_domain d" by (auto simp: list_all_iff)
    show "dom_name d = k" by (rule D(2) [OF find])
  qed
  have no_default: "Domain0 \<notin> set (ovals (domains c))"
    using st by (auto simp: list_all_iff storable_domain_def Domain0_def)
  define c1 where "c1 = c0\<lparr>domains := domains c, default_domain :=
      (if default_domain c \<in> set (ovals (domains c)) then default_domain c else default_domain c0), no_kill_programs := no_kill_programs c\<rparr>"
  have dom1: "fold (parseDomain F) (map dom_norm (map (domain_elem F (default_domain c)) (ovals (domains c)))) c0 =
      c0\<lparr>domains := domains c, default_domain :=
      (if default_domain c \<in> set (ovals (domains c)) then default_domain c else default_domain c0)\<rparr>"
    using parse_domains_elems [OF assms(1), of "[]" "domains c" c0 "default_domain c"] D(1) entries assms(3) by simp
  have nok: "children_named NOKILL_PROGRAM_TAG (Element NOKILL_ROOT_TAG [] (map nokill_elem ps)) = map nokill_elem ps" for ps
    by (simp add: children_named_def filter_id_conv)
  have elems: "fold parse_element (map dom_norm (map (domain_elem F (default_domain c)) (ovals (domains c)))) c1 = c1"
    by (rule parse_elements_other) auto
  have "c' = fold parse_element (map dom_norm (map arule_elem (allAbstractRules True c))) c1"
    unfolding c'_def parse_transitions_def children_norm firstChildElement_norm transitions_children option.map
      map_append fold_append comp_def dom1 Let_def option.case nok list.map fold_simps id_def
    using st elems assms(6)
    by (simp add: parse_nokill_elems parse_element_other c1_def del: map_map)
  moreover have "list_all (storable_arule (domains c1)) (allAbstractRules True c)"
    using st by (simp add: list_all_iff set_allAbstractRules c1_def)
  ultimately have all: "domains c' = domains c1 \<and> default_domain c' = default_domain c1 \<and> no_kill_programs c' = no_kill_programs c1 \<and>
      programs c' = programs c1 \<and>
      map forget (ovalue [] (cf_loops c') k) =
        map forget (ovalue [] (cf_loops c1) k @ map (saved (program_of (programs c1) k)) (loops_of k (allAbstractRules True c))) \<and>
      map forget (ovalue [] (cf_rules c') k) =
        map forget (ovalue [] (cf_rules c1) k @ map (saved (program_of (programs c1) k)) (rules_of k (allAbstractRules True c)))"
    using parse_arules [of c1 "allAbstractRules True c" k] by metis
  have c1: "domains c1 = domains c" "programs c1 = programs c0" "no_kill_programs c1 = no_kill_programs c" "cf_loops c1 = []" "cf_rules c1 = []"
    "default_domain c1 = (if default_domain c = Domain0 then default_domain c0 else default_domain c)"
    using assms(4,5) st no_default by (auto simp: c1_def)
  show "domains c' = domains c" "no_kill_programs c' = no_kill_programs c" "programs c' = programs c0"
    "default_domain c' = (if default_domain c = Domain0 then default_domain c0 else default_domain c)"
    "map forget (ovalue [] (cf_loops c') k) = map forget (map (saved (program_of (programs c0) k)) (ovalue [] (cf_loops c) k))"
    "map forget (ovalue [] (cf_rules c') k) = map forget (map (saved (program_of (programs c0) k)) (ovalue [] (cf_rules c) k))"
    using all unfolding c1 allAbstractRules_of [OF wf] by (simp_all add: ovalue_def)
qed

section \<open>Transitions after reading back\<close>

definition saved_flags :: "'a abstract_rule_scheme \<Rightarrow> 'a abstract_rule_scheme" where
  "saved_flags r = r\<lparr>trules := map saved_trule (trules r)\<rparr>"

definition flags_kept :: "'a abstract_rule_scheme \<Rightarrow> bool" where
  "flags_kept r = list_all (\<lambda>t. (has_notify t \<longrightarrow> tr_notify t) \<and> (has_prompt t \<longrightarrow> tr_prompt t)) (trules r)"

lemma find_map: "find P (map f xs) = map_option f (find (\<lambda>x. P (f x)) xs)"
  by (induction xs) simp_all

lemma saved_trule_matches [simp]: "trule_matches F (saved_trule t) d = trule_matches F t d"
  by (simp add: trule_matches_def saved_trule_def)

lemma mrule_matches_prog [simp]: "mrule_matches F (m\<lparr>mr_prog := p\<rparr>) vals = mrule_matches F m vals"
  by (simp add: mrule_matches_def split: option.split)

lemma arule_matches_forget: "arule_matches F T (forget r) prog current vals = arule_matches F T r prog current vals"
  by (simp add: arule_matches_def mrules_loop_eq forget_def split: option.split)

lemma arule_matches_saved:
  "app_name p = rule_key r \<Longrightarrow> complete_rule r \<Longrightarrow>
     arule_matches F T (saved p r) prog current vals = arule_matches F T (saved_flags r) prog current vals"
  by (simp add: arule_matches_def mrules_loop_eq saved_complete saved_flags_def rule_key_def split: option.split)

lemma arule_matches_flags:
  assumes "flags_kept r"
  shows "arule_matches F T (saved_flags r) prog current vals = arule_matches F T r prog current vals"
proof -
  let ?P = "\<lambda>t. trule_matches F t (dom_name current)"
  have f: "find ?P (trules (saved_flags r)) = map_option saved_trule (find ?P (trules r))"
    by (simp add: saved_flags_def find_map)
  have "(has_notify t \<longrightarrow> tr_notify t) \<and> (has_prompt t \<longrightarrow> tr_prompt t)" if "find ?P (trules r) = Some t" for t
    using assms that by (auto simp: flags_kept_def list_all_iff find_Some_iff)
  moreover have "ar_program (saved_flags r) = ar_program r" "mrules (saved_flags r) = mrules r"
    "ar_prompt (saved_flags r) = ar_prompt r" "ar_notify (saved_flags r) = ar_notify r"
    "has_prompt (saved_trule t) = has_prompt t" "has_notify (saved_trule t) = has_notify t"
    "tr_prompt (saved_trule t)" "tr_notify (saved_trule t)" for t
    by (simp_all add: saved_flags_def saved_trule_def)
  ultimately show ?thesis
    by (cases "find ?P (trules r)") (simp_all add: arule_matches_def mrules_loop_eq f)
qed

text \<open>A configuration in which every flag of a transition rule that is set is set to \<open>true\<close>.\<close>

definition with_saved_flags :: "configuration \<Rightarrow> configuration" where
  "with_saved_flags c =
     c\<lparr>cf_loops := map (\<lambda>(k, l). (k, map saved_flags l)) (cf_loops c),
       cf_rules := map (\<lambda>(k, l). (k, map saved_flags l)) (cf_rules c)\<rparr>"

lemma ovalue_map: "ovalue [] (map (\<lambda>(k, l). (k, map f l)) m) k = map f (ovalue [] m k)"
  by (simp add: ovalue_def map_of_map split: option.split)

lemma same_matches:
  fixes matches :: "'r abstract_rule_scheme \<Rightarrow> transition \<times> bool"
  assumes "\<And>r. matches (forget r) = matches r" "\<And>r. r \<in> set ys \<Longrightarrow> matches (f r) = matches (g r)"
    "map forget xs = map forget (map f ys)"
  shows "map matches xs = map matches (map g ys)"
proof -
  have "map matches xs = map matches (map forget xs)" by (simp add: assms(1))
  also have "\<dots> = map matches (map forget (map f ys))" by (simp only: assms(3))
  also have "\<dots> = map matches (map g ys)" by (simp add: assms(1,2))
  finally show ?thesis .
qed

lemma loop_matches_forget: "loop_matches F (forget l) p d v = loop_matches F l p d v"
  by (simp add: loop_matches_def arule_matches_forget)

lemma rule_matches_forget: "rule_matches F (forget r) p d v = rule_matches F r p d v"
  unfolding rule_matches_def arule_matches_forget
  by (simp add: rule_targetDomain_def forget_def arule_matches_def mrules_loop_eq split: option.split)

lemma loop_matches_saved:
  "app_name q = rule_key l \<Longrightarrow> complete_rule l \<Longrightarrow> loop_matches F (saved q l) p d v = loop_matches F (saved_flags l) p d v"
  by (simp add: loop_matches_def arule_matches_saved)

lemma rule_matches_saved:
  assumes "app_name q = rule_key r" "complete_rule r"
  shows "rule_matches F (saved q r) p d v = rule_matches F (saved_flags r) p d v"
proof -
  have "rule_targetDomain (saved q r) = rule_targetDomain (saved_flags r)"
    by (simp add: rule_targetDomain_def saved_def saved_flags_def fun_eq_iff)
  then show ?thesis unfolding rule_matches_def using arule_matches_saved [OF assms] by metis
qed

lemma rule_matches_flags:
  assumes "flags_kept r"
  shows "rule_matches F (saved_flags r) p d v = rule_matches F r p d v"
proof -
  have "rule_targetDomain (saved_flags r) = rule_targetDomain r"
    by (simp add: rule_targetDomain_def saved_flags_def fun_eq_iff)
  then show ?thesis unfolding rule_matches_def using arule_matches_flags [OF assms] by metis
qed

lemma stored_are_listed:
  assumes "config_wf c"
  shows "l \<in> set (ovalue [] (cf_loops c) k) \<Longrightarrow> ALoop l \<in> set (listed c)"
    "r \<in> set (ovalue [] (cf_rules c) k) \<Longrightarrow> ARule r \<in> set (listed c)"
proof -
  have wf: "table_wf (cf_loops c)" "table_wf (cf_rules c)"
    using assms by (simp_all add: config_wf_def stores_wf_def)
  show "l \<in> set (ovalue [] (cf_loops c) k) \<Longrightarrow> ALoop l \<in> set (listed c)"
    using in_table_all [OF wf(1), of l] table_wf_values(1) [OF wf(1), of l k]
    by (simp add: listed_def allAbstractRules_def)
  show "r \<in> set (ovalue [] (cf_rules c) k) \<Longrightarrow> ARule r \<in> set (listed c)"
    using in_table_all [OF wf(2), of r] table_wf_values(1) [OF wf(2), of r k]
    by (simp add: listed_def allAbstractRules_def)
qed

fun complete_arule :: "arule \<Rightarrow> bool" where
  "complete_arule (ALoop l) = complete_rule l"
| "complete_arule (ARule r) = complete_rule r"

lemma stored_complete:
  assumes "config_wf c" "list_all complete_arule (listed c)"
  shows "l \<in> set (ovalue [] (cf_loops c) k) \<Longrightarrow> complete_rule l" "r \<in> set (ovalue [] (cf_rules c) k) \<Longrightarrow> complete_rule r"
  using stored_are_listed [OF assms(1)] assms(2) unfolding list_all_iff
  by (metis complete_arule.simps(1), metis complete_arule.simps(2))

lemma read_back_outcomes:
  assumes "config_wf c"
    "\<And>k. map forget (ovalue [] (cf_loops c') k) = map forget (map (saved (program_of (programs c) k)) (ovalue [] (cf_loops c) k))"
    "\<And>k. map forget (ovalue [] (cf_rules c') k) = map forget (map (saved (program_of (programs c) k)) (ovalue [] (cf_rules c) k))"
    "list_all complete_arule (listed c)"
  shows "outcomes F c' app current vals = outcomes F (with_saved_flags c) app current vals"
proof -
  have wf: "table_wf (cf_loops c)" "table_wf (cf_rules c)" "names_wf (domains c) (programs c)"
    using assms(1) by (simp_all add: config_wf_def stores_wf_def)
  let ?k = "app_name app" and ?p = "program_of (programs c) (app_name app)"
  note name = program_of_name [OF wf(3), of ?k] and complete = stored_complete [OF assms(1,4)]
  have "map (\<lambda>l. loop_matches F l app current vals) (ovalue [] (cf_loops c') ?k) =
      map (\<lambda>l. loop_matches F l app current vals) (map saved_flags (ovalue [] (cf_loops c) ?k))"
    by (rule same_matches [where f = "saved ?p", OF _ _ assms(2)])
      (use name table_wf_values(1) [OF wf(1)] complete in \<open>simp_all add: loop_matches_forget loop_matches_saved\<close>)
  moreover have "map (\<lambda>r. rule_matches F r app current vals) (ovalue [] (cf_rules c') ?k) =
      map (\<lambda>r. rule_matches F r app current vals) (map saved_flags (ovalue [] (cf_rules c) ?k))"
    by (rule same_matches [where f = "saved ?p", OF _ _ assms(3)])
      (use name table_wf_values(1) [OF wf(2)] complete in \<open>simp_all add: rule_matches_forget rule_matches_saved\<close>)
  ultimately show ?thesis
    by (simp add: outcomes_def with_saved_flags_def ovalue_map del: map_map)
qed

fun arule_flags_kept :: "arule \<Rightarrow> bool" where
  "arule_flags_kept (ALoop l) = flags_kept l"
| "arule_flags_kept (ARule r) = flags_kept r"

lemma with_saved_flags_outcomes:
  assumes "config_wf c" "list_all arule_flags_kept (listed c)"
  shows "outcomes F (with_saved_flags c) app current vals = outcomes F c app current vals"
proof -
  have "flags_kept l" if "l \<in> set (ovalue [] (cf_loops c) k)" for l k
    using stored_are_listed(1) [OF assms(1) that] assms(2) unfolding list_all_iff by (metis arule_flags_kept.simps(1))
  moreover have "flags_kept r" if "r \<in> set (ovalue [] (cf_rules c) k)" for r k
    using stored_are_listed(2) [OF assms(1) that] assms(2) unfolding list_all_iff by (metis arule_flags_kept.simps(2))
  ultimately show ?thesis
    by (simp add: outcomes_def with_saved_flags_def ovalue_map loop_matches_def arule_matches_flags rule_matches_flags)
qed

section \<open>Properties\<close>

text \<open>The file of a configuration, read by an object that knows the same programs.\<close>

definition reload ::
    "framework \<Rightarrow> 'doc xml \<Rightarrow> string \<Rightarrow> configuration \<Rightarrow> configuration \<Rightarrow> configuration" where
  "reload F X path c c0 =
     readConf F X \<lparr>transitions_file = [path \<mapsto> retrieveTransitionsDOM F X c], program_files = []\<rparr> path c0"

lemma reload_eq:
  assumes "xml_ok X" "dom_writable (transitions_dom F c)" "path \<noteq> []"
  shows "reload F X path c c0 =
     parse_transitions F (dom_norm (transitions_dom F c)) (c0\<lparr>cf_rules := [], cf_loops := [], domains := [], no_kill_programs := []\<rparr>)"
proof -
  have "of_text X (to_text X (transitions_dom F c)) = Some (dom_norm (transitions_dom F c))"
    using assms(1,2) unfolding xml_ok_def transitions_dom_def by blast
  moreover have "tagName (transitions_dom F c) = TRANSITIONS_XML_ROOT" by (simp add: transitions_dom_def)
  ultimately show ?thesis
    using assms(3) by (simp add: reload_def readConf_def parseTransitionsFile_def retrieveTransitionsDOM_def)
qed

lemma reload_parts:
  assumes "xml_ok X" "numbers_ok F" "storable_config F c" "dom_writable (transitions_dom F c)" "path \<noteq> []"
    "programs c0 = programs c"
  defines "c' \<equiv> reload F X path c c0"
  shows "domains c' = domains c" "no_kill_programs c' = no_kill_programs c" "programs c' = programs c"
    "default_domain c' = (if default_domain c = Domain0 then default_domain c0 else default_domain c)"
    "map forget (ovalue [] (cf_loops c') k) = map forget (map (saved (program_of (programs c) k)) (ovalue [] (cf_loops c) k))"
    "map forget (ovalue [] (cf_rules c') k) = map forget (map (saved (program_of (programs c) k)) (ovalue [] (cf_rules c) k))"
  using parse_transitions_dom [OF assms(2,3), of "c0\<lparr>cf_rules := [], cf_loops := [], domains := [], no_kill_programs := []\<rparr>"]
  unfolding c'_def reload_eq [OF assms(1,4,5)] by (simp_all add: assms(6))

text \<open>
  C8: saving a configuration and reading the file back, into one that knows the same programs, restores
  its domains, its unkillable programs, its default domain if it has one (otherwise the reading configuration
  keeps its own) and, for every program, its loops and rules in order, with their flags, targets, sources and matching
  rules.  Identifiers and priorities are new, the flags of single sources that are set are all read as true, the program is the
  one now known under the name, a condition on blanks becomes one on the empty text, and sources without a
  name and matching rules without conditions are lost.  The configuration is to be well formed, with different
  priorities, named domains whose description is not only blanks and whose levels are C integers, a default domain
  and targets that are among its domains, and absolute unkillable paths; the names of
  conditions are to be names of XML elements, and other texts of printable ASCII characters.
\<close>

theorem transitions_file_roundtrip:
  assumes "xml_ok X" "numbers_ok F" "storable_config F c" "dom_writable (transitions_dom F c)" "path \<noteq> []"
    "programs c0 = programs c"
  shows "domains (reload F X path c c0) = domains c \<and> no_kill_programs (reload F X path c c0) = no_kill_programs c \<and>
    default_domain (reload F X path c c0) = (if default_domain c = Domain0 then default_domain c0 else default_domain c) \<and>
    (\<forall>k. map forget (loopsForProgram (reload F X path c c0) k) =
           map (\<lambda>l. forget (saved (program_of (programs c) k) l)) (loopsForProgram c k)) \<and>
    (\<forall>k. map forget (rulesForProgram (reload F X path c c0) k) =
           map (\<lambda>r. forget (saved (program_of (programs c) k) r)) (rulesForProgram c k))"
  using reload_parts [OF assms] by (simp add: loopsForProgram_def rulesForProgram_def)

text \<open>
  A configuration that was saved and read back finds, for every program, domain and set of values,
  the transition that the saved configuration with all set flags of transition rules turned to true
  finds, provided that no source or matching rule is lost or changed; if none of these flags was false, that is the
  transition found before.
\<close>

theorem reload_transitions:
  assumes "xml_ok X" "numbers_ok F" "storable_config F c" "dom_writable (transitions_dom F c)" "path \<noteq> []"
    "programs c0 = programs c" "list_all complete_arule (listed c)"
  shows "getFirstMatchingTransition F (reload F X path c c0) app current vals =
      getFirstMatchingTransition F (with_saved_flags c) app current vals \<and>
    (list_all arule_flags_kept (listed c) \<longrightarrow>
      getFirstMatchingTransition F (reload F X path c c0) app current vals = getFirstMatchingTransition F c app current vals)"
proof -
  have wf: "config_wf c" using assms(3) by (simp add: storable_config_def)
  have "outcomes F (reload F X path c c0) app current vals = outcomes F (with_saved_flags c) app current vals"
    using read_back_outcomes [OF wf reload_parts(5,6) [OF assms(1-6)] assms(7)] .
  with with_saved_flags_outcomes [OF wf, of F app current vals] show ?thesis
    by (simp add: getFirstMatchingTransition_eq)
qed

definition silent_config :: configuration where
  "silent_config =
     newLoop False False
       ((sample_dialog ''mail'')\<lparr>dg_prompt := True, dg_domains := [trule_setPrompt False (TRule ''mail'')],
          dg_mrules := [(MRule sample_program [] [])\<lparr>conditions := [(''to'', ''bob'')]\<rparr>]\<rparr>)
       (addDomain (sample_domain ''mail'') True (snd (addProgram simple_framework sample_program False Configuration0)))"

lemma silent_config_storable: "storable_config simple_framework silent_config"
  unfolding storable_config_def
proof (intro conjI)
  show "config_wf silent_config"
    unfolding silent_config_def by (intro newLoop_wf addDomain_wf addProgram_wf Configuration0_wf)
qed code_simp+

theorem transitions_file_roundtrip_witness:
  "domains (reload simple_framework tree_xml ''t.xml'' silent_config silent_config) = [(''mail'', sample_domain ''mail'')] \<and>
   map (\<lambda>l. map tr_prompt (trules l)) (loopsForProgram silent_config ''mutt'') = [[False]] \<and>
   map (\<lambda>l. map tr_prompt (trules (forget l))) (loopsForProgram (reload simple_framework tree_xml ''t.xml'' silent_config silent_config) ''mutt'') = [[True]]"
proof -
  let ?c = "reload simple_framework tree_xml ''t.xml'' silent_config silent_config"
  have "dom_writable (transitions_dom simple_framework silent_config)" by code_simp
  from transitions_file_roundtrip [OF tree_xml_ok simple_framework_numbers silent_config_storable this, of "''t.xml''" silent_config]
  have rt: "domains ?c = domains silent_config" "map forget (loopsForProgram ?c ''mutt'') =
      map (\<lambda>l. forget (saved (program_of (programs silent_config) ''mutt'') l)) (loopsForProgram silent_config ''mutt'')"
    by simp_all
  have "map (\<lambda>l. map tr_prompt (trules l)) (map forget (loopsForProgram ?c ''mutt'')) = [[True]]"
    unfolding rt by code_simp
  moreover have "domains silent_config = [(''mail'', sample_domain ''mail'')]"
    "map (\<lambda>l. map tr_prompt (trules l)) (loopsForProgram silent_config ''mutt'') = [[False]]"
    by code_simp+
  ultimately show ?thesis using rt(1) by (simp add: o_def)
qed

theorem reload_transitions_witness:
  "getFirstMatchingTransition simple_framework silent_config sample_program (sample_domain ''mail'') [(''to'', ''bob'')] =
     Transition sample_program (sample_domain ''mail'') (sample_domain ''mail'') False True \<and>
   getFirstMatchingTransition simple_framework (reload simple_framework tree_xml ''t.xml'' silent_config silent_config)
     sample_program (sample_domain ''mail'') [(''to'', ''bob'')] =
     Transition sample_program (sample_domain ''mail'') (sample_domain ''mail'') True True"
proof -
  have "dom_writable (transitions_dom simple_framework silent_config)" "list_all complete_arule (listed silent_config)"
    by code_simp+
  from reload_transitions [OF tree_xml_ok simple_framework_numbers silent_config_storable this(1) _ _ this(2), of "''t.xml''" silent_config
      sample_program "sample_domain ''mail''" "[(''to'', ''bob'')]"]
  have "getFirstMatchingTransition simple_framework (reload simple_framework tree_xml ''t.xml'' silent_config silent_config)
      sample_program (sample_domain ''mail'') [(''to'', ''bob'')] =
      getFirstMatchingTransition simple_framework (with_saved_flags silent_config) sample_program (sample_domain ''mail'') [(''to'', ''bob'')]"
    by simp
  also have "\<dots> = Transition sample_program (sample_domain ''mail'') (sample_domain ''mail'') True True" by code_simp
  finally show ?thesis by (intro conjI) code_simp
qed

end
