(* ===== verification/Firewall.thy ===== *)
theory Firewall
  imports Daemon_Theorems "HOL-Library.Multiset"
begin

text \<open>
  The plugin that opens the firewall for the hosts of the current domain (\<open>plugins/iptable-blocker\<close>): the list of
  rules it has put into the firewall (\<open>rulelist.cpp\<close>), the cache of the hosts that pages refer to
  (\<open>domaincachethread.cpp\<close>) and the plugin itself.

  The commands that it starts are the list \<open>executed\<close>.  They are started without waiting for the ones before; the
  theorems speak about the firewall if they run in the order in which they are started.  The outside is the
  record \<open>net\<close>: the addresses of a host, the parts of a URL and its text, the text of a page, and the texts that
  the successive matches of a regular expression capture in a page.
\<close>

record qurl =
  u_scheme :: string
  u_host :: string
  u_port :: int
  u_path :: string

record net =
  gethostbyname :: "string \<Rightarrow> string list option"
  to_url :: "string \<Rightarrow> qurl"
  url_text :: "qurl \<Rightarrow> string"
  page_text :: "qurl \<Rightarrow> string option"
  captures :: "string \<Rightarrow> string \<Rightarrow> string list"

section \<open>The list of rules\<close>

text \<open>\<open>QString::arg\<close> with several arguments replaces the markers with the lowest numbers at once.\<close>

definition qargs :: "string \<Rightarrow> string list \<Rightarrow> string" where
  "qargs s as =
     (let ps = pieces s;
          m = zip (sort (remdups (marker_numbers ps))) as
      in concat (map (\<lambda>p. case p of Inl c \<Rightarrow> [c]
           | Inr (n, t) \<Rightarrow> (case map_of m n of Some a \<Rightarrow> a | None \<Rightarrow> CHR ''%'' # t)) ps))"

record rule_list =
  fw_rules :: "(string, string list) omap"
  maxDomains :: int
  gwInterface :: string
  iptablesPath :: string
  dnsCache :: "(string, string list) omap"
  domainCache :: "(string, qurl list) omap"
  thread_app :: string
  thread_url :: qurl
  thread_running :: bool
  executed :: "string list"
  dns_errors :: "string list"

definition unsigned_int :: "int \<Rightarrow> int" where
  "unsigned_int i = i mod 2 ^ 32"

definition RuleList :: rule_list where
  "RuleList = \<lparr>fw_rules = [], maxDomains = unsigned_int (- 1), gwInterface = ''eth0'', iptablesPath = ''/sbin/iptables'',
     dnsCache = [], domainCache = [], thread_app = [], thread_url = \<lparr>u_scheme = [], u_host = [], u_port = - 1, u_path = []\<rparr>,
     thread_running = False, executed = [], dns_errors = []\<rparr>"

definition dnsRequest :: "net \<Rightarrow> string \<Rightarrow> rule_list \<Rightarrow> string list \<times> rule_list" where
  "dnsRequest N host rl =
     (let (ipsCache, cache) = oindex [] host (dnsCache rl);
          rl = rl\<lparr>dnsCache := cache\<rparr>
      in if ipsCache \<noteq> [] then (ipsCache, rl)
         else case gethostbyname N host of
           Some ips \<Rightarrow> (ips, rl\<lparr>dnsCache := oinsert host ips (dnsCache rl)\<rparr>)
         | None \<Rightarrow> ([], rl\<lparr>dns_errors := dns_errors rl @
              [qarg (''Error while querying the DNS server(Host='' @ [CHR 0x27] @ ''%1'' @ [CHR 0x27] @ '')'') host]\<rparr>))"

definition createIPTableAcceptRule :: "framework \<Rightarrow> string \<Rightarrow> int \<Rightarrow> rule_list \<Rightarrow> string" where
  "createIPTableAcceptRule F ip port rl =
     qarg (qarg (qarg (qargs ''%0 -I OUTPUT -d %1 -p tcp --dport %2 -j %3 -o %4'' [iptablesPath rl, ip])
       (of_int_str F port)) ''ACCEPT'') (gwInterface rl)"

definition createIPTableRejectRule :: "framework \<Rightarrow> string \<Rightarrow> int \<Rightarrow> rule_list \<Rightarrow> string" where
  "createIPTableRejectRule F ip port rl =
     qarg (qarg (qarg (qargs ''%0 -D OUTPUT -d %1 -p tcp --dport %2 -j %3 -o %4'' [iptablesPath rl, ip])
       (of_int_str F port)) ''DROP'') (gwInterface rl)"

definition IPTableRuleExists :: "string \<Rightarrow> rule_list \<Rightarrow> bool" where
  "IPTableRuleExists rule rl = list_ex (\<lambda>l. rule \<in> set l) (ovals (fw_rules rl))"

definition exec_cmd :: "string \<Rightarrow> rule_list \<Rightarrow> rule_list" where
  "exec_cmd cmd rl = rl\<lparr>executed := executed rl @ [cmd]\<rparr>"

definition delete_command :: "string \<Rightarrow> string" where
  "delete_command rule = str_replace '' -A'' '' -D'' (str_replace '' -I'' '' -D'' rule)"

definition reject :: "string \<Rightarrow> rule_list \<Rightarrow> bool \<times> rule_list" where
  "reject rule rl =
     (if IPTableRuleExists rule rl then (True, exec_cmd (delete_command rule) rl) else (False, rl))"

definition fw_addRule :: "framework \<Rightarrow> string \<Rightarrow> string \<Rightarrow> int \<Rightarrow> rule_list \<Rightarrow> bool \<times> rule_list" where
  "fw_addRule F app ip port rl =
     (let accept_cmd = createIPTableAcceptRule F ip port rl
      in if \<not> IPTableRuleExists accept_cmd rl then
           let rl = rl\<lparr>fw_rules := oinsert app (ovalue [] (fw_rules rl) app @ [accept_cmd]) (fw_rules rl)\<rparr>
           in (True, exec_cmd accept_cmd rl)
         else (False, rl))"

fun reject_all :: "string list \<Rightarrow> bool \<times> rule_list \<Rightarrow> bool \<times> rule_list" where
  "reject_all [] brl = brl"
| "reject_all (r # rs) (ret, rl) = (let (ok, rl) = reject r rl in reject_all rs (ret \<and> ok, rl))"

definition removeAppRules :: "string \<Rightarrow> rule_list \<Rightarrow> bool \<times> rule_list" where
  "removeAppRules app rl =
     (let (r_rules, m) = oindex [] app (fw_rules rl);
          (ret, rl) = reject_all r_rules (True, rl\<lparr>fw_rules := m\<rparr>)
      in (ret, rl\<lparr>fw_rules := oinsert app [] (fw_rules rl)\<rparr>))"

definition removeAll_rules :: "rule_list \<Rightarrow> rule_list" where
  "removeAll_rules rl = fold (\<lambda>app rl. snd (removeAppRules app rl)) (okeys (fw_rules rl)) rl"

definition addDomain_fw :: "framework \<Rightarrow> net \<Rightarrow> string \<Rightarrow> string \<Rightarrow> int \<Rightarrow> rule_list \<Rightarrow> bool \<times> rule_list" where
  "addDomain_fw F N app host port rl =
     (if maxDomains rl = 0 then (False, rl)
      else
        let (r, m) = oindex [] app (fw_rules rl);
            rl = rl\<lparr>fw_rules := m\<rparr>;
            rl = (if r \<noteq> [] \<and> maxDomains rl = 1 then snd (removeAppRules app rl) else rl);
            (ips, rl) = dnsRequest N host rl
        in (True, fold (\<lambda>ip rl. snd (fw_addRule F app ip port rl)) ips rl))"

definition removeRule :: "framework \<Rightarrow> string \<Rightarrow> string \<Rightarrow> int \<Rightarrow> rule_list \<Rightarrow> bool \<times> rule_list" where
  "removeRule F app ip port rl =
     (let accept_cmd = createIPTableAcceptRule F ip port rl;
          (r, m) = oindex [] app (fw_rules rl);
          rl = rl\<lparr>fw_rules := m\<rparr>
      in if accept_cmd \<in> set r
         then reject accept_cmd (rl\<lparr>fw_rules := oinsert app (removeAll accept_cmd r) (fw_rules rl)\<rparr>)
         else (False, rl))"

definition removeDomain :: "framework \<Rightarrow> net \<Rightarrow> string \<Rightarrow> string \<Rightarrow> int \<Rightarrow> rule_list \<Rightarrow> bool \<times> rule_list" where
  "removeDomain F N app host port rl =
     (let (ips, rl) = dnsRequest N host rl
      in fold (\<lambda>ip (ret, rl). let (ok, rl) = removeRule F app ip port rl in (ret \<and> ok, rl)) ips (True, rl))"

section \<open>The cache of hosts\<close>

definition urlToCacheUrl :: "qurl \<Rightarrow> qurl" where
  "urlToCacheUrl url = url\<lparr>u_path := ''/''\<rparr>"

text \<open>The set of addresses is listed in the order in which they were found.\<close>

definition getURLsFromPage :: "net \<Rightarrow> string \<Rightarrow> qurl list" where
  "getURLsFromPage N page =
     map (to_url N) (remdups
       (captures N (''<.*src='' @ [CHR 0x22] @ ''(https?://[^'' @ [CHR 0x22] @ '']*)'' @ [CHR 0x22] @ ''.*>'') page @
        captures N (''<link .*href='' @ [CHR 0x22] @ ''(https?://[^'' @ [CHR 0x22] @ '']*)'' @ [CHR 0x22] @ ''.*>'') page))"

definition url_state :: "framework \<Rightarrow> net \<Rightarrow> qurl \<Rightarrow> (string, string) omap" where
  "url_state F N url =
     oinsert ''path'' (u_path url) (oinsert ''port'' (of_int_str F (u_port url)) (oinsert ''host'' (u_host url)
       (oinsert ''protocol'' (u_scheme url) (oinsert ''url'' (url_text N url) []))))"

text \<open>An address is allowed if the rules have a transition for it from the current domain.\<close>

fun addURLList :: "framework \<Rightarrow> net \<Rightarrow> daemon \<Rightarrow> qurl list \<Rightarrow> qurl \<Rightarrow> string \<Rightarrow> rule_list \<Rightarrow> rule_list" where
  "addURLList F N d [] toUrl app rl = rl"
| "addURLList F N d (url # urls) toUrl app rl =
     addURLList F N d urls toUrl app
       (let url = (if u_port url = - 1 then url\<lparr>u_port := (if str_lower (u_scheme url) = ''http'' then 80 else 443)\<rparr> else url);
            program = getProgramByName F (conf d) app False
        in if tn_valid (getFirstMatchingTransition F (conf d) program (c_domain d) (url_state F N url)) then
             let rl = rl\<lparr>domainCache := oinsert (u_host toUrl)
                   (ovalue [] (domainCache rl) (u_host toUrl) @ [urlToCacheUrl url]) (domainCache rl)\<rparr>
             in snd (addDomain_fw F N (thread_app rl) (u_host url) (unsigned_int (u_port url)) rl)
           else rl)"

definition updateURLCache :: "framework \<Rightarrow> net \<Rightarrow> daemon \<Rightarrow> string \<Rightarrow> qurl \<Rightarrow> rule_list \<Rightarrow> bool \<times> rule_list" where
  "updateURLCache F N d app url rl =
     (case page_text N url of
        None \<Rightarrow> (False, rl)
      | Some page \<Rightarrow>
          let rl = rl\<lparr>domainCache := oinsert (u_host url) [] (domainCache rl)\<rparr>
          in (True, addURLList F N d (getURLsFromPage N page) url app rl))"

text \<open>The thread from its start to its end, as one step.\<close>

definition cache_thread_run :: "framework \<Rightarrow> net \<Rightarrow> daemon \<Rightarrow> rule_list \<Rightarrow> rule_list" where
  "cache_thread_run F N d rl =
     (if thread_running rl
      then (snd (updateURLCache F N d (thread_app rl) (thread_url rl) rl))\<lparr>thread_running := False\<rparr> else rl)"

text \<open>The call first waits for the thread, and starts it in the end.\<close>

definition updateCache :: "framework \<Rightarrow> net \<Rightarrow> daemon \<Rightarrow> string \<Rightarrow> qurl \<Rightarrow> rule_list \<Rightarrow> rule_list" where
  "updateCache F N d app url rl =
     (let rl = cache_thread_run F N d rl;
          (listDomain, m) = oindex [] (u_host url) (domainCache rl);
          rl = rl\<lparr>domainCache := m\<rparr>;
          rl = (if listDomain \<noteq> [] then addURLList F N d listDomain url app rl else rl)
      in rl\<lparr>thread_app := app, thread_url := url, thread_running := True\<rparr>)"

definition addURL :: "framework \<Rightarrow> net \<Rightarrow> daemon \<Rightarrow> string \<Rightarrow> qurl \<Rightarrow> rule_list \<Rightarrow> rule_list" where
  "addURL F N d app url rl =
     updateCache F N d app url (snd (addDomain_fw F N app (u_host url) (unsigned_int (u_port url)) rl))"

section \<open>The plugin\<close>

record blocker =
  bl_rules :: rule_list
  flushRules :: bool
  static_allow :: "(string, (string \<times> int) list) omap"

fun elementsByTagName :: "string \<Rightarrow> dnode \<Rightarrow> dnode list" where
  "elementsByTagName t (TextNode s) = []"
| "elementsByTagName t (Element u as ks) =
     (concat (map (\<lambda>k. (if is_element k \<and> tagName k = t then [k] else []) @ elementsByTagName t k) ks))"

definition read_option :: "framework \<Rightarrow> dnode \<Rightarrow> blocker \<Rightarrow> blocker" where
  "read_option F element b =
     (let name = attribute element ''name'';
          val = attribute element ''value'';
          value_i = (case to_int F val of None \<Rightarrow> - 123456 | Some i \<Rightarrow> i)
      in if name = ''flushRulesWhenChangingContext'' \<and> (val = ''true'' \<or> val = ''false'') then b\<lparr>flushRules := val = ''true''\<rparr>
         else if name = ''maxDomainsPerApplication'' \<and> value_i \<ge> - 1 \<and> value_i \<le> 1
           then b\<lparr>bl_rules := (bl_rules b)\<lparr>maxDomains := unsigned_int value_i\<rparr>\<rparr>
         else if name = ''GWInterface'' then b\<lparr>bl_rules := (bl_rules b)\<lparr>gwInterface := val\<rparr>\<rparr>
         else if name = ''IPTablesPath'' then b\<lparr>bl_rules := (bl_rules b)\<lparr>iptablesPath := val\<rparr>\<rparr>
         else b)"

definition read_allow :: "framework \<Rightarrow> string \<Rightarrow> dnode \<Rightarrow> blocker \<Rightarrow> blocker" where
  "read_allow F domain_name element b =
     (let ip = attribute element ''ip''
      in case to_int F (attribute element ''port'') of
           None \<Rightarrow> b
         | Some i \<Rightarrow>
             let port = unsigned_int i
             in if ip \<noteq> [] \<and> port < 65536
                then b\<lparr>static_allow := oinsert domain_name (ovalue [] (static_allow b) domain_name @ [(ip, port)]) (static_allow b)\<rparr>
                else b)"

definition read_domain :: "framework \<Rightarrow> dnode \<Rightarrow> blocker \<Rightarrow> blocker" where
  "read_domain F element b =
     fold (read_allow F (attribute element ''name'')) (elementsByTagName ''allow'' element) b"

text \<open>The document, as the child of a node for the whole; \<open>None\<close> if the file cannot be opened or read.\<close>

definition blocker_readConf :: "framework \<Rightarrow> dnode option \<Rightarrow> blocker \<Rightarrow> bool \<times> blocker" where
  "blocker_readConf F doc b =
     (case doc of
        None \<Rightarrow> (False, b)
      | Some root \<Rightarrow>
          let whole = Element [] [] [root];
              b = fold (read_option F) (elementsByTagName ''option'' whole) b
          in (True, fold (read_domain F) (elementsByTagName ''domain'' whole) b))"

definition ContextdPluginIPTableBlocker :: "framework \<Rightarrow> dnode option \<Rightarrow> blocker" where
  "ContextdPluginIPTableBlocker F doc =
     snd (blocker_readConf F doc \<lparr>bl_rules = RuleList, flushRules = True, static_allow = []\<rparr>)"

definition addStaticAllows :: "framework \<Rightarrow> string \<Rightarrow> blocker \<Rightarrow> blocker" where
  "addStaticAllows F domain b =
     (let (toAllow, m) = oindex [] domain (static_allow b)
      in b\<lparr>static_allow := m,
           bl_rules := fold (\<lambda>ipp rl. snd (fw_addRule F ''static_allow'' (fst ipp) (snd ipp) rl)) toAllow (bl_rules b)\<rparr>)"

definition setPort :: "int \<Rightarrow> qurl \<Rightarrow> qurl" where
  "setPort port url = url\<lparr>u_port := (if port < - 1 \<or> port > 65535 then - 1 else port)\<rparr>"

definition blocker_eventHandler ::
    "framework \<Rightarrow> net \<Rightarrow> dnode option \<Rightarrow> daemon \<Rightarrow> plugin_event \<Rightarrow> blocker \<Rightarrow> blocker" where
  "blocker_eventHandler F N doc d ev b =
     (case ev of
        TransitionDemandEvent pid prev result t \<Rightarrow>
          let c = ovalue (ContextClient [] Program0 0) (clients d) pid;
              appName = app_name (cl_program c);
              url_s = ovalue [] (cl_currentState c) ''url'';
              host = ovalue [] (cl_currentState c) ''host'';
              port = ovalue [] (cl_currentState c) ''port'';
              domain = dom_name (tn_transit_to t);
              b = (if flushRules b then b\<lparr>bl_rules := removeAll_rules (bl_rules b)\<rparr> else b);
              b = addStaticAllows F domain b
          in if result = CONTEXT_ACCEPT then
               if url_s \<noteq> [] \<and> host \<noteq> [] \<and> port \<noteq> []
               then b\<lparr>bl_rules := addURL F N d appName (setPort (toInt0 F port) (to_url N url_s)) (bl_rules b)\<rparr>
               else if host \<noteq> [] \<and> port \<noteq> []
               then b\<lparr>bl_rules := snd (addDomain_fw F N appName host (unsigned_int (toInt0 F port)) (bl_rules b))\<rparr>
               else b
             else b
      | RestartEvent \<Rightarrow> b\<lparr>bl_rules := removeAll_rules (bl_rules b)\<rparr>
      | ReloadEvent \<Rightarrow> snd (blocker_readConf F doc b)
      | _ \<Rightarrow> b)"

end
