(* ===== verification/Firewall_Theorems.thy ===== *)
theory Firewall_Theorems
  imports Firewall
begin

text \<open>
  The rules that the plugin remembers are the rules in the firewall.  The firewall is the chain of rules that the
  commands build: \<open>-I\<close> puts a rule in front, \<open>-D\<close> removes the first equal rule.
\<close>

section \<open>Commands\<close>

definition iptables :: "string \<Rightarrow> string list \<Rightarrow> string list" where
  "iptables cmd c =
     (let rest = dropWhile (\<lambda>x. x \<noteq> CHR '' '') cmd
      in if take 11 rest = '' -I OUTPUT '' then drop 11 rest # c
         else if take 11 rest = '' -D OUTPUT '' then remove1 (drop 11 rest) c
         else c)"

definition chain :: "rule_list \<Rightarrow> string list" where
  "chain rl = fold iptables (executed rl) []"

text \<open>Words of a command that are neither options nor contain place markers, and the rule of an address.\<close>

definition clean :: "string \<Rightarrow> bool" where
  "clean w = (w \<noteq> [] \<and> CHR '' '' \<notin> set w \<and> CHR ''%'' \<notin> set w \<and> hd w \<noteq> CHR ''-'')"

definition address_rule :: "framework \<Rightarrow> rule_list \<Rightarrow> string \<times> int \<Rightarrow> string" where
  "address_rule F rl ipp =
     ''-d '' @ fst ipp @ '' -p tcp --dport '' @ of_int_str F (snd ipp) @ '' -j ACCEPT -o '' @ gwInterface rl"

definition rule_spec :: "string \<Rightarrow> string" where
  "rule_spec r = drop 11 (dropWhile (\<lambda>x. x \<noteq> CHR '' '') r)"

definition good :: "string \<Rightarrow> bool" where
  "good r = (\<exists>p s. CHR '' '' \<notin> set p \<and> r = p @ '' -I OUTPUT '' @ s \<and> delete_command r = p @ '' -D OUTPUT '' @ s)"

lemma dropWhile_word: "CHR '' '' \<notin> set p \<Longrightarrow> dropWhile (\<lambda>x. x \<noteq> CHR '' '') (p @ CHR '' '' # s) = CHR '' '' # s"
  by (induction p) auto

lemma iptables_insert: "good r \<Longrightarrow> iptables r c = rule_spec r # c"
  using dropWhile_word by (auto simp: good_def iptables_def rule_spec_def)

lemma iptables_delete: "good r \<Longrightarrow> iptables (delete_command r) c = remove1 (rule_spec r) c"
  using dropWhile_word by (auto simp: good_def iptables_def rule_spec_def)

subsection \<open>The text of a rule\<close>

definition render :: "(char + nat \<times> string) list \<Rightarrow> string" where
  "render ps = concat (map (\<lambda>p. case p of Inl c \<Rightarrow> [c] | Inr (n, t) \<Rightarrow> CHR ''%'' # t) ps)"

lemma fold_min: "\<forall>n \<in> set ns. k < n \<Longrightarrow> fold min ns (k :: nat) = k"
  by (induction ns) (auto simp: min_def)

lemma qarg_first:
  assumes "pieces s = map Inl xs @ Inr (k, t) # ps" "k < 100" "\<forall>n \<in> set (marker_numbers ps). k < n"
  shows "qarg s a = xs @ a @ render ps"
proof -
  have low: "fold min (marker_numbers (pieces s)) 100 = k"
    using assms(2,3) by (simp add: assms(1) marker_numbers_append fold_min min_def)
  have "concat (map (\<lambda>p. case p of Inl c \<Rightarrow> [c] | Inr (n, t) \<Rightarrow> if n = k then a else CHR ''%'' # t) ps) = render ps"
    unfolding render_def using assms(3)
    by (intro arg_cong [where f = concat] map_cong) (auto simp: marker_numbers_def split: sum.split)
  then show ?thesis by (simp add: qarg_def Let_def low [unfolded assms(1)] assms(1) concat_literals del: map_map)
qed

lemma pieces_literal: "pieces '' -p tcp --dport %2 -j %3 -o %4'' =
    map Inl '' -p tcp --dport '' @ Inr (2, ''2'') # map Inl '' -j '' @ Inr (3, ''3'') # map Inl '' -o '' @ [Inr (4, ''4'')]"
  "pieces '' -j %3 -o %4'' = map Inl '' -j '' @ Inr (3, ''3'') # map Inl '' -o '' @ [Inr (4, ''4'')]"
  "pieces '' -o %4'' = map Inl '' -o '' @ [Inr (4, ''4'')]"
  by code_simp+

lemma qargs_template:
  "qargs ''%0 -I OUTPUT -d %1 -p tcp --dport %2 -j %3 -o %4'' [p, ip] =
     p @ '' -I OUTPUT -d '' @ ip @ '' -p tcp --dport %2 -j %3 -o %4''"
proof -
  have ps: "pieces ''%0 -I OUTPUT -d %1 -p tcp --dport %2 -j %3 -o %4'' =
      Inr (0, ''0'') # map Inl '' -I OUTPUT -d '' @ Inr (1, ''1'') # map Inl '' -p tcp --dport '' @ Inr (2, ''2'') #
      map Inl '' -j '' @ Inr (3, ''3'') # map Inl '' -o '' @ [Inr (4, ''4'')]"
    by code_simp
  have ns: "sort (remdups (marker_numbers (pieces ''%0 -I OUTPUT -d %1 -p tcp --dport %2 -j %3 -o %4''))) = [0, 1, 2, 3, 4]"
    by code_simp
  show ?thesis unfolding qargs_def Let_def ns unfolding ps by simp
qed

lemma accept_rule_text:
  assumes "CHR ''%'' \<notin> set (iptablesPath rl)" "CHR ''%'' \<notin> set ip" "CHR ''%'' \<notin> set (of_int_str F port)"
  shows "createIPTableAcceptRule F ip port rl = iptablesPath rl @ '' -I OUTPUT '' @ address_rule F rl (ip, port)"
proof -
  define x where "x = iptablesPath rl @ '' -I OUTPUT -d '' @ ip"
  have x: "CHR ''%'' \<notin> set (x @ '' -p tcp --dport '')" using assms by (simp add: x_def)
  have 1: "qarg (x @ '' -p tcp --dport %2 -j %3 -o %4'') a = x @ '' -p tcp --dport '' @ a @ '' -j %3 -o %4''" for a
  proof -
    have "pieces (x @ '' -p tcp --dport %2 -j %3 -o %4'') = map Inl (x @ '' -p tcp --dport '') @
        Inr (2, ''2'') # map Inl '' -j '' @ Inr (3, ''3'') # map Inl '' -o '' @ [Inr (4, ''4'')]"
      using pieces_plain [of x] x by (simp only: pieces_literal set_append Un_iff de_Morgan_disj simp_thms map_append append_assoc)
    from qarg_first [OF this] show ?thesis by (simp add: marker_numbers_append marker_numbers_def render_def)
  qed
  define y where "y = x @ '' -p tcp --dport '' @ of_int_str F port"
  have y: "CHR ''%'' \<notin> set (y @ '' -j '')" using assms by (simp add: y_def x_def)
  have 2: "qarg (y @ '' -j %3 -o %4'') a = y @ '' -j '' @ a @ '' -o %4''" for a
  proof -
    have "pieces (y @ '' -j %3 -o %4'') = map Inl (y @ '' -j '') @ Inr (3, ''3'') # map Inl '' -o '' @ [Inr (4, ''4'')]"
      using pieces_plain [of y] y by (simp only: pieces_literal set_append Un_iff de_Morgan_disj simp_thms map_append append_assoc)
    from qarg_first [OF this] show ?thesis by (simp add: marker_numbers_append marker_numbers_def render_def)
  qed
  define z where "z = y @ '' -j ACCEPT''"
  have z: "CHR ''%'' \<notin> set (z @ '' -o '')" using y by (simp add: z_def)
  have 3: "qarg (z @ '' -o %4'') a = z @ '' -o '' @ a" for a
  proof -
    have "pieces (z @ '' -o %4'') = map Inl (z @ '' -o '') @ [Inr (4, ''4'')]"
      using pieces_plain [of z] z by (simp only: pieces_literal set_append Un_iff de_Morgan_disj simp_thms map_append append_assoc)
    from qarg_first [OF this] show ?thesis by (simp add: marker_numbers_def render_def)
  qed
  have "createIPTableAcceptRule F ip port rl = qarg (qarg (qarg (x @ '' -p tcp --dport %2 -j %3 -o %4'') (of_int_str F port)) ''ACCEPT'') (gwInterface rl)"
    by (simp add: createIPTableAcceptRule_def qargs_template x_def)
  also have "\<dots> = qarg (qarg (y @ '' -j %3 -o %4'') ''ACCEPT'') (gwInterface rl)" by (simp add: 1 y_def)
  also have "\<dots> = qarg (z @ '' -o %4'') (gwInterface rl)" by (simp add: 2 z_def)
  also have "\<dots> = z @ '' -o '' @ gwInterface rl" by (rule 3)
  finally show ?thesis by (simp add: z_def y_def x_def address_rule_def)
qed

text \<open>Replacing an option in a command, word by word.\<close>

definition spaced :: "string list \<Rightarrow> string" where
  "spaced ws = concat (map (\<lambda>w. CHR '' '' # w) ws)"

definition option_to_D :: "char \<Rightarrow> string \<Rightarrow> string" where
  "option_to_D x w = (if take 2 w = [CHR ''-'', x] then CHR ''-'' # CHR ''D'' # drop 2 w else w)"

lemma spaced_simps: "spaced [] = []" "spaced (w # ws) = CHR '' '' # w @ spaced ws"
  by (simp_all add: spaced_def)

lemma replace_word:
  "CHR '' '' \<notin> set w \<Longrightarrow> str_replace [CHR '' '', CHR ''-'', x] r (w @ s) = w @ str_replace [CHR '' '', CHR ''-'', x] r s"
  by (induction w) auto

lemma replace_spaced:
  assumes "x \<noteq> CHR '' ''" "list_all (\<lambda>w. w \<noteq> [] \<and> CHR '' '' \<notin> set w) ws"
  shows "str_replace [CHR '' '', CHR ''-'', x] [CHR '' '', CHR ''-'', CHR ''D''] (spaced ws) = spaced (map (option_to_D x) ws)"
  using assms(2)
proof (induction ws)
  case (Cons w ws)
  obtain c w' where w: "w = c # w'" using Cons.prems by (cases w) auto
  have hd: "spaced ws = [] \<or> hd (spaced ws) = CHR '' ''" by (cases ws) (simp_all add: spaced_def)
  have two: "take 2 (w @ spaced ws) = [CHR ''-'', x] \<longleftrightarrow> take 2 w = [CHR ''-'', x]"
    using hd assms(1) w Cons.prems by (cases w'; cases "spaced ws") auto
  show ?case
  proof (cases "take 2 w = [CHR ''-'', x]")
    case True
    then obtain v where v: "w = CHR ''-'' # x # v" by (metis append_take_drop_id append_Cons append_Nil)
    then have "CHR '' '' \<notin> set v" using Cons.prems by simp
    with Cons v show ?thesis by (simp add: spaced_def option_to_D_def replace_word)
  next
    case False
    have "str_replace [CHR '' '', CHR ''-'', x] [CHR '' '', CHR ''-'', CHR ''D''] (CHR '' '' # w @ spaced ws) =
        CHR '' '' # str_replace [CHR '' '', CHR ''-'', x] [CHR '' '', CHR ''-'', CHR ''D''] (w @ spaced ws)"
      using False two by (simp add: numeral_2_eq_2)
    also have "\<dots> = CHR '' '' # w @ spaced (map (option_to_D x) ws)"
      using Cons by (simp add: replace_word)
    finally show ?thesis using False by (simp only: spaced_simps list.map option_to_D_def [of x w] if_False)
  qed
qed (simp add: spaced_def)

lemma good_rule:
  assumes "clean (iptablesPath rl)" "clean (gwInterface rl)" "clean ip" "numbers_ok F"
  shows "good (createIPTableAcceptRule F ip port rl)"
    "rule_spec (createIPTableAcceptRule F ip port rl) = address_rule F rl (ip, port)"
proof -
  define n where "n = of_int_str F port"
  have n: "n \<noteq> []" "CHR '' '' \<notin> set n" "CHR ''%'' \<notin> set n" "take 2 n \<noteq> ''-I''" "take 2 n \<noteq> ''-A''"
  proof -
    have digits: "\<forall>c \<in> set n. c = CHR ''-'' \<or> digit_val c \<noteq> None" and "n \<noteq> []"
      using assms(4) by (simp_all add: n_def numbers_ok_def)
    have none: "digit_val (CHR '' '') = None" "digit_val (CHR ''%'') = None" "digit_val (CHR ''I'') = None" "digit_val (CHR ''A'') = None"
      by code_simp+
    have no: "c \<notin> set n" if "digit_val c = None" "c \<noteq> CHR ''-''" for c using digits that by blast
    show "n \<noteq> []" "CHR '' '' \<notin> set n" "CHR ''%'' \<notin> set n" using \<open>n \<noteq> []\<close> no none by simp_all
    have "CHR ''I'' \<notin> set (take 2 n)" "CHR ''A'' \<notin> set (take 2 n)" using no none in_set_takeD by fastforce+
    then show "take 2 n \<noteq> ''-I''" "take 2 n \<noteq> ''-A''" by (metis list.set_intros)+
  qed
  have two: "take 2 w \<noteq> [CHR ''-'', x]" if "clean w" for w x using that by (cases w) (auto simp: clean_def)
  have opt: "option_to_D x w = w" if "clean w" for w x using two [OF that] by (simp add: option_to_D_def)
  have optn: "option_to_D (CHR ''I'') n = n" "option_to_D (CHR ''A'') n = n" using n by (simp_all add: option_to_D_def)
  define ws where "ws o' = [o', ''OUTPUT'', ''-d'', ip, ''-p'', ''tcp'', ''--dport'', n, ''-j'', ''ACCEPT'', ''-o'', gwInterface rl]" for o' :: string
  have words: "list_all (\<lambda>w. w \<noteq> [] \<and> CHR '' '' \<notin> set w) (ws o')" if "o' \<noteq> []" "CHR '' '' \<notin> set o'" for o'
    using that assms(2,3) n by (simp add: ws_def clean_def)
  have rule: "createIPTableAcceptRule F ip port rl = iptablesPath rl @ spaced (ws ''-I'')"
    "iptablesPath rl @ '' -I OUTPUT '' @ address_rule F rl (ip, port) = iptablesPath rl @ spaced (ws ''-I'')"
    "iptablesPath rl @ '' -D OUTPUT '' @ address_rule F rl (ip, port) = iptablesPath rl @ spaced (ws ''-D'')"
    using accept_rule_text [of rl ip F port] assms(1,3) n by (simp_all add: clean_def ws_def spaced_def address_rule_def n_def)
  have sp: "CHR '' '' \<notin> set (iptablesPath rl)" using assms(1) by (simp add: clean_def)
  have "map (option_to_D (CHR ''I'')) (ws ''-I'') = ws ''-D''" "map (option_to_D (CHR ''A'')) (ws ''-D'') = ws ''-D''"
    unfolding ws_def list.map opt [OF assms(2)] opt [OF assms(3)] optn by (simp_all add: option_to_D_def)
  then have "str_replace '' -I'' '' -D'' (spaced (ws ''-I'')) = spaced (ws ''-D'')"
    and "str_replace '' -A'' '' -D'' (spaced (ws ''-D'')) = spaced (ws ''-D'')"
    using replace_spaced [OF _ words] by simp_all
  then have "delete_command (iptablesPath rl @ spaced (ws ''-I'')) = iptablesPath rl @ spaced (ws ''-D'')"
    using replace_word [OF sp] by (simp add: delete_command_def)
  with sp rule show "good (createIPTableAcceptRule F ip port rl)" unfolding good_def by metis
  show "rule_spec (createIPTableAcceptRule F ip port rl) = address_rule F rl (ip, port)"
    using dropWhile_word [OF sp] by (simp add: rule_spec_def rule(1) rule(2) [symmetric])
qed

section \<open>The rules that are remembered\<close>

definition all_rules :: "rule_list \<Rightarrow> string list" where
  "all_rules rl = concat (ovals (fw_rules rl))"

definition fw_ok :: "rule_list \<Rightarrow> bool" where
  "fw_ok rl = (osorted (fw_rules rl) \<and> distinct (all_rules rl) \<and> list_all good (all_rules rl) \<and>
     mset (chain rl) = mset (map rule_spec (all_rules rl)))"

lemma ovalue_out: "\<forall>k' \<in> set (okeys m). (k :: 'k::linorder) < k' \<Longrightarrow> ovalue d m k = d"
  by (rule ovalue_absent) (auto simp: in_okeys_iff)

lemma mset_oinsert:
  "osorted m \<Longrightarrow> mset (concat (ovals (oinsert k v m))) + mset (ovalue [] m k) = mset (concat (ovals m)) + mset v"
proof (induction k v m rule: oinsert.induct)
  case (2 k v k' v' m)
  show ?case
  proof (cases k k' rule: linorder_cases)
    case less
    then have "ovalue [] ((k', v') # m) k = []" using "2.prems" by (intro ovalue_out) auto
    with less show ?thesis by simp
  next
    case equal
    then show ?thesis by (simp add: ovalue_def)
  next
    case greater
    then have "ovalue [] ((k', v') # m) k = ovalue [] m k" by (auto simp: ovalue_def)
    moreover from greater have "\<not> k < k'" "k \<noteq> k'" by auto
    ultimately show ?thesis using 2 by simp
  qed
qed (simp add: ovalue_def)

lemma mset_oindex: "osorted m \<Longrightarrow> mset (concat (ovals (snd (oindex [] k m)))) = mset (concat (ovals m))"
  using mset_oinsert [of m k "[]"] by (auto simp: oindex_def ovalue_def split: option.split)

lemma ovalue_subset: "set (ovalue [] m k) \<subseteq> set (concat (ovals m))"
proof (cases "ofind m k")
  case (Some v)
  then have "v \<in> set (ovals m)" using map_of_SomeD [OF Some] by (force simp: ovals_def)
  with Some show ?thesis by (auto simp: ovalue_def)
qed (simp add: ovalue_def)

lemma rule_exists_iff: "IPTableRuleExists r rl \<longleftrightarrow> r \<in> set (all_rules rl)"
  by (auto simp: IPTableRuleExists_def all_rules_def list_ex_iff)

lemma chain_exec: "chain (exec_cmd cmd rl) = iptables cmd (chain rl)"
  by (simp add: chain_def exec_cmd_def)

lemma chain_rules [simp]: "chain (rl\<lparr>fw_rules := m\<rparr>) = chain rl"
  by (simp add: chain_def)

lemma list_all_mset: "mset xs = mset ys \<Longrightarrow> list_all P xs = list_all P ys"
  by (metis list_all_iff set_mset_mset)

text \<open>The same rules under other names.\<close>

lemma fw_ok_same:
  assumes "fw_ok rl" "osorted m" "mset (concat (ovals m)) = mset (all_rules rl)"
  shows "fw_ok (rl\<lparr>fw_rules := m\<rparr>)"
  using assms mset_eq_imp_distinct_iff [OF assms(3)] list_all_mset [OF assms(3)]
  by (simp add: fw_ok_def all_rules_def)

lemma fw_ok_oindex: "fw_ok rl \<Longrightarrow> fw_ok (rl\<lparr>fw_rules := snd (oindex [] k (fw_rules rl))\<rparr>)"
  by (rule fw_ok_same) (simp_all add: fw_ok_def osorted_oindex mset_oindex all_rules_def)

definition settings :: "rule_list \<Rightarrow> int \<times> string \<times> string" where
  "settings rl = (maxDomains rl, gwInterface rl, iptablesPath rl)"

lemma fw_addRule_effect:
  assumes "fw_ok rl" "clean (iptablesPath rl)" "clean (gwInterface rl)" "clean ip" "numbers_ok F"
  shows "fw_ok (snd (fw_addRule F app ip port rl))"
    "set (all_rules (snd (fw_addRule F app ip port rl))) = insert (createIPTableAcceptRule F ip port rl) (set (all_rules rl))"
proof -
  define r where "r = createIPTableAcceptRule F ip port rl"
  define m where "m = oinsert app (ovalue [] (fw_rules rl) app @ [r]) (fw_rules rl)"
  have sorted: "osorted (fw_rules rl)" using assms(1) by (simp add: fw_ok_def)
  have good: "good r" unfolding r_def by (rule good_rule [OF assms(2-5)])
  have add: "mset (concat (ovals m)) = mset (r # all_rules rl)"
    using mset_oinsert [OF sorted, of app "ovalue [] (fw_rules rl) app @ [r]"] by (simp add: m_def all_rules_def)
  show "set (all_rules (snd (fw_addRule F app ip port rl))) = insert (createIPTableAcceptRule F ip port rl) (set (all_rules rl))"
    using mset_eq_setD [OF add]
    by (auto simp: fw_addRule_def Let_def rule_exists_iff r_def [symmetric] m_def [symmetric] exec_cmd_def all_rules_def)
  show "fw_ok (snd (fw_addRule F app ip port rl))"
  proof (cases "r \<in> set (all_rules rl)")
    case True
    with assms(1) show ?thesis by (simp add: fw_addRule_def Let_def rule_exists_iff r_def [symmetric])
  next
    case False
    then have eq: "snd (fw_addRule F app ip port rl) = exec_cmd r (rl\<lparr>fw_rules := m\<rparr>)"
      by (simp add: fw_addRule_def Let_def rule_exists_iff r_def [symmetric] m_def)
    have "distinct (concat (ovals m))" "list_all good (concat (ovals m))"
      using assms(1) False good mset_eq_imp_distinct_iff [OF add] list_all_mset [OF add] by (simp_all add: fw_ok_def)
    moreover have "mset (map rule_spec (concat (ovals m))) = mset (rule_spec r # map rule_spec (all_rules rl))"
      using arg_cong [OF add, of "image_mset rule_spec"] by simp
    moreover have "osorted m" unfolding m_def by (rule osorted_oinsert [OF sorted])
    ultimately show ?thesis
      using assms(1) by (simp add: eq fw_ok_def chain_exec iptables_insert [OF good]) (simp add: all_rules_def exec_cmd_def)
  qed
qed

lemma fw_addRule_settings [simp]:
  "settings (snd (fw_addRule F app ip port rl)) = settings rl" "dnsCache (snd (fw_addRule F app ip port rl)) = dnsCache rl"
  by (simp_all add: fw_addRule_def settings_def exec_cmd_def Let_def)

text \<open>Removing the rules of one program.\<close>

lemma reject_all_eq:
  "set rs \<subseteq> set (all_rules rl) \<Longrightarrow> reject_all rs (b, rl) = (b, rl\<lparr>executed := executed rl @ map delete_command rs\<rparr>)"
proof (induction rs arbitrary: rl)
  case (Cons r rs)
  have "reject r rl = (True, exec_cmd (delete_command r) rl)" using Cons.prems by (simp add: reject_def rule_exists_iff)
  moreover have "reject_all rs (b, exec_cmd (delete_command r) rl) =
      (b, rl\<lparr>executed := executed rl @ delete_command r # map delete_command rs\<rparr>)"
    using Cons.IH [of "exec_cmd (delete_command r) rl"] Cons.prems by (simp add: exec_cmd_def all_rules_def)
  ultimately show ?case by simp
qed simp

lemma fold_delete: "list_all good rs \<Longrightarrow> mset (fold iptables (map delete_command rs) c) = mset c - mset (map rule_spec rs)"
  by (induction rs arbitrary: c) (simp_all add: iptables_delete)

lemma removeAppRules_eq:
  assumes "fw_ok rl"
  shows "snd (removeAppRules app rl) = rl\<lparr>executed := executed rl @ map delete_command (ovalue [] (fw_rules rl) app),
    fw_rules := oinsert app [] (snd (oindex [] app (fw_rules rl)))\<rparr>"
proof -
  define m where "m = snd (oindex [] app (fw_rules rl))"
  have "mset (concat (ovals m)) = mset (all_rules rl)" unfolding m_def all_rules_def using assms(1) by (simp add: fw_ok_def mset_oindex)
  then have "set (ovalue [] (fw_rules rl) app) \<subseteq> set (all_rules (rl\<lparr>fw_rules := m\<rparr>))"
    using ovalue_subset mset_eq_setD by (fastforce simp: all_rules_def)
  from reject_all_eq [OF this] show ?thesis
    by (simp add: removeAppRules_def case_prod_beta oindex_value m_def [symmetric] Let_def)
qed

lemma removeAppRules_effect:
  assumes "fw_ok rl"
  shows "fw_ok (snd (removeAppRules app rl))"
    "ovalue [] (fw_rules (snd (removeAppRules app rl))) k = (if k = app then [] else ovalue [] (fw_rules rl) k)"
    "set (okeys (fw_rules (snd (removeAppRules app rl)))) = insert app (set (okeys (fw_rules rl)))"
    "settings (snd (removeAppRules app rl)) = settings rl" "dnsCache (snd (removeAppRules app rl)) = dnsCache rl"
proof -
  define m where "m = snd (oindex [] app (fw_rules rl))"
  note eq = removeAppRules_eq [OF assms, of app, folded m_def]
  have sorted: "osorted (fw_rules rl)" "osorted m" using assms by (simp_all add: fw_ok_def m_def osorted_oindex)
  have val: "ovalue [] m app = ovalue [] (fw_rules rl) app" by (simp add: m_def ovalue_def ofind_oindex)
  define rs where "rs = ovalue [] (fw_rules rl) app"
  define m' where "m' = oinsert app [] m"
  have m: "mset (concat (ovals m')) + mset rs = mset (all_rules rl)"
    using mset_oinsert [OF sorted(2), of app "[]"] mset_oindex [OF sorted(1), of app] val
    by (simp add: m_def all_rules_def m'_def rs_def)
  then have m2: "mset (concat (ovals m') @ rs) = mset (all_rules rl)" by simp
  have good: "list_all good rs" "list_all good (concat (ovals m'))" "distinct (concat (ovals m'))"
    using assms list_all_mset [OF m2, of good] mset_eq_imp_distinct_iff [OF m2] by (simp_all add: fw_ok_def)
  have "mset (map rule_spec (concat (ovals m'))) + mset (map rule_spec rs) = mset (map rule_spec (all_rules rl))"
    using arg_cong [OF m, of "image_mset rule_spec"] by simp
  then have "mset (map rule_spec (concat (ovals m'))) = mset (map rule_spec (all_rules rl)) - mset (map rule_spec rs)"
    by (metis add_diff_cancel_right')
  moreover have "mset (chain (snd (removeAppRules app rl))) = mset (map rule_spec (all_rules rl)) - mset (map rule_spec rs)"
    using fold_delete [OF good(1), of "chain rl"] assms by (simp add: eq chain_def rs_def fw_ok_def)
  moreover have "fw_rules (snd (removeAppRules app rl)) = m'" by (simp add: eq m'_def)
  moreover have "osorted m'" unfolding m'_def by (rule osorted_oinsert [OF sorted(2)])
  ultimately show "fw_ok (snd (removeAppRules app rl))" using good by (simp add: fw_ok_def all_rules_def)
  show "ovalue [] (fw_rules (snd (removeAppRules app rl))) k = (if k = app then [] else ovalue [] (fw_rules rl) k)"
    by (simp add: eq ovalue_def) (simp add: m_def ofind_oindex)
  show "set (okeys (fw_rules (snd (removeAppRules app rl)))) = insert app (set (okeys (fw_rules rl)))"
    by (simp add: eq okeys_oinsert m_def oindex_def split: option.split)
  show "settings (snd (removeAppRules app rl)) = settings rl" "dnsCache (snd (removeAppRules app rl)) = dnsCache rl"
    by (simp_all add: eq settings_def)
qed

lemma remove_programs:
  assumes "fw_ok rl"
  defines "f \<equiv> fold (\<lambda>app rl. snd (removeAppRules app rl))"
  shows "fw_ok (f apps rl) \<and> settings (f apps rl) = settings rl \<and> dnsCache (f apps rl) = dnsCache rl \<and>
    set (okeys (fw_rules (f apps rl))) = set apps \<union> set (okeys (fw_rules rl)) \<and>
    (\<forall>k. ovalue [] (fw_rules (f apps rl)) k = (if k \<in> set apps then [] else ovalue [] (fw_rules rl) k))"
  using assms(1)
proof (induction apps arbitrary: rl)
  case (Cons app apps)
  note e = removeAppRules_effect [OF Cons.prems, of app]
  have "f (app # apps) rl = f apps (snd (removeAppRules app rl))" by (simp add: f_def)
  with Cons.IH [OF e(1)] e show ?case by auto
qed (simp add: f_def)

lemma removeAll_effect:
  assumes "fw_ok rl"
  shows "fw_ok (removeAll_rules rl)" "all_rules (removeAll_rules rl) = []" "settings (removeAll_rules rl) = settings rl"
    "dnsCache (removeAll_rules rl) = dnsCache rl"
proof -
  note e = remove_programs [OF assms, of "okeys (fw_rules rl)", folded removeAll_rules_def]
  show "fw_ok (removeAll_rules rl)" "settings (removeAll_rules rl) = settings rl" "dnsCache (removeAll_rules rl) = dnsCache rl"
    using e by simp_all
  have "v = []" if "v \<in> set (ovals (fw_rules (removeAll_rules rl)))" for v
  proof -
    have "osorted (fw_rules (removeAll_rules rl))" using e by (simp add: fw_ok_def)
    with that obtain k where k: "ofind (fw_rules (removeAll_rules rl)) k = Some v" by (auto simp: ovals_iff)
    then have "k \<in> set (okeys (fw_rules (removeAll_rules rl)))" by (auto simp: set_okeys)
    with e have "ovalue [] (fw_rules (removeAll_rules rl)) k = []" by simp
    with k show ?thesis by (simp add: ovalue_def)
  qed
  then show "all_rules (removeAll_rules rl) = []" by (auto simp: all_rules_def)
qed

section \<open>Hosts\<close>

definition rl_ok :: "rule_list \<Rightarrow> bool" where
  "rl_ok rl = (fw_ok rl \<and> clean (iptablesPath rl) \<and> clean (gwInterface rl) \<and>
     (\<forall>ips \<in> set (ovals (dnsCache rl)). list_all clean ips))"

text \<open>The resolver gives addresses as words.\<close>

definition net_ok :: "net \<Rightarrow> bool" where
  "net_ok N = (\<forall>host ips. gethostbyname N host = Some ips \<longrightarrow> list_all clean ips)"

lemma fw_ok_other [simp]:
  "fw_ok (rl\<lparr>dnsCache := c\<rparr>) = fw_ok rl" "fw_ok (rl\<lparr>domainCache := x\<rparr>) = fw_ok rl" "fw_ok (rl\<lparr>thread_app := a\<rparr>) = fw_ok rl"
  "fw_ok (rl\<lparr>thread_url := u\<rparr>) = fw_ok rl" "fw_ok (rl\<lparr>thread_running := b\<rparr>) = fw_ok rl" "fw_ok (rl\<lparr>dns_errors := e\<rparr>) = fw_ok rl"
  "fw_ok (rl\<lparr>maxDomains := i\<rparr>) = fw_ok rl" "fw_ok (rl\<lparr>gwInterface := g\<rparr>) = fw_ok rl" "fw_ok (rl\<lparr>iptablesPath := p\<rparr>) = fw_ok rl"
  by (simp_all add: fw_ok_def all_rules_def chain_def)

lemma rl_ok_other [simp]:
  "rl_ok (rl\<lparr>domainCache := x\<rparr>) = rl_ok rl" "rl_ok (rl\<lparr>thread_app := a\<rparr>) = rl_ok rl" "rl_ok (rl\<lparr>thread_url := u\<rparr>) = rl_ok rl"
  "rl_ok (rl\<lparr>thread_running := b\<rparr>) = rl_ok rl" "rl_ok (rl\<lparr>maxDomains := i\<rparr>) = rl_ok rl"
  by (simp_all add: rl_ok_def)

lemma settings_eqD:
  "settings rl' = settings rl \<Longrightarrow> maxDomains rl' = maxDomains rl \<and> gwInterface rl' = gwInterface rl \<and> iptablesPath rl' = iptablesPath rl"
  by (simp add: settings_def)

lemma rl_ok_cong: "rl_ok rl \<Longrightarrow> fw_ok rl' \<Longrightarrow> settings rl' = settings rl \<Longrightarrow> dnsCache rl' = dnsCache rl \<Longrightarrow> rl_ok rl'"
  by (auto simp: rl_ok_def dest: settings_eqD)

lemma accept_rule_cong: "settings rl' = settings rl \<Longrightarrow> createIPTableAcceptRule F ip port rl' = createIPTableAcceptRule F ip port rl"
  by (auto simp: createIPTableAcceptRule_def dest: settings_eqD)

definition added :: "framework \<Rightarrow> string \<Rightarrow> (string \<times> int) list \<Rightarrow> rule_list \<Rightarrow> rule_list" where
  "added F app = fold (\<lambda>ipp rl. snd (fw_addRule F app (fst ipp) (snd ipp) rl))"

lemma add_addresses:
  assumes "rl_ok rl" "numbers_ok F" "list_all (\<lambda>ipp. clean (fst ipp)) ipps"
  shows "rl_ok (added F app ipps rl) \<and> settings (added F app ipps rl) = settings rl \<and>
    set (all_rules (added F app ipps rl)) = set (all_rules rl) \<union> (\<lambda>ipp. createIPTableAcceptRule F (fst ipp) (snd ipp) rl) ` set ipps"
  using assms(1,3)
proof (induction ipps arbitrary: rl)
  case (Cons ipp ipps)
  define rl1 where "rl1 = snd (fw_addRule F app (fst ipp) (snd ipp) rl)"
  have e: "fw_ok rl1" "set (all_rules rl1) = insert (createIPTableAcceptRule F (fst ipp) (snd ipp) rl) (set (all_rules rl))"
    unfolding rl1_def using fw_addRule_effect [of rl "fst ipp" F] Cons.prems assms(2) by (simp_all add: rl_ok_def)
  have same: "settings rl1 = settings rl" "dnsCache rl1 = dnsCache rl" by (simp_all add: rl1_def)
  have "added F app (ipp # ipps) rl = added F app ipps rl1" by (simp add: added_def rl1_def)
  with Cons.IH [OF rl_ok_cong [OF Cons.prems(1) e(1) same]] Cons.prems(2) e(2) same accept_rule_cong [OF same(1)]
  show ?case by auto
qed (simp add: added_def)

lemma ovals_oinsert: "set (ovals (oinsert k v m)) \<subseteq> insert v (set (ovals m))"
  using set_oinsert [of k v m] by (auto simp: ovals_def)

lemma oindex_clean: "\<forall>ips \<in> set (ovals m). list_all P ips \<Longrightarrow> \<forall>ips \<in> set (ovals (snd (oindex [] k m))). list_all P ips"
  using ovals_oinsert [of k "[]" m] by (auto simp: oindex_def split: option.split)

lemma dnsRequest_effect:
  assumes "rl_ok rl" "net_ok N"
  shows "list_all clean (fst (dnsRequest N host rl))" "rl_ok (snd (dnsRequest N host rl))"
    "settings (snd (dnsRequest N host rl)) = settings rl" "fw_rules (snd (dnsRequest N host rl)) = fw_rules rl"
proof -
  define c where "c = snd (oindex [] host (dnsCache rl))"
  have clean: "\<forall>ips \<in> set (ovals (dnsCache rl)). list_all clean ips" using assms(1) by (simp add: rl_ok_def)
  then have c: "\<forall>ips \<in> set (ovals c). list_all clean ips" unfolding c_def by (rule oindex_clean)
  have val: "list_all clean (ovalue [] (dnsCache rl) host)"
    using clean ovalue_subset [of "dnsCache rl" host] by (auto simp: list_all_iff)
  have eq: "dnsRequest N host rl =
     (if ovalue [] (dnsCache rl) host \<noteq> [] then (ovalue [] (dnsCache rl) host, rl\<lparr>dnsCache := c\<rparr>)
      else case gethostbyname N host of
        Some ips \<Rightarrow> (ips, rl\<lparr>dnsCache := oinsert host ips c\<rparr>)
      | None \<Rightarrow> ([], (rl\<lparr>dnsCache := c\<rparr>)\<lparr>dns_errors := dns_errors rl @
              [qarg (''Error while querying the DNS server(Host='' @ [CHR 0x27] @ ''%1'' @ [CHR 0x27] @ '')'') host]\<rparr>))"
    by (simp add: dnsRequest_def case_prod_beta oindex_value c_def Let_def split: option.split)
  have new: "list_all clean ips" "\<forall>l \<in> set (ovals (oinsert host ips c)). list_all clean l" if "gethostbyname N host = Some ips" for ips
    using that assms(2) c ovals_oinsert [of host ips c] unfolding net_ok_def by blast+
  show "list_all clean (fst (dnsRequest N host rl))" using val new by (simp add: eq split: option.split)
  show "rl_ok (snd (dnsRequest N host rl))"
    using assms(1) c new by (simp add: eq rl_ok_def split: option.split)
  show "settings (snd (dnsRequest N host rl)) = settings rl" "fw_rules (snd (dnsRequest N host rl)) = fw_rules rl"
    by (simp_all add: eq settings_def split: option.split)
qed

lemma addDomain_effect:
  assumes "rl_ok rl" "net_ok N" "numbers_ok F"
  shows "rl_ok (snd (addDomain_fw F N app host port rl))" "settings (snd (addDomain_fw F N app host port rl)) = settings rl"
    "maxDomains rl \<noteq> 0 \<Longrightarrow> ovalue [] (fw_rules rl) app = [] \<Longrightarrow>
     set (all_rules (snd (addDomain_fw F N app host port rl))) =
       set (all_rules rl) \<union> (\<lambda>ip. createIPTableAcceptRule F ip port rl) ` set (fst (dnsRequest N host rl))"
proof -
  define rl1 where "rl1 = rl\<lparr>fw_rules := snd (oindex [] app (fw_rules rl))\<rparr>"
  define rl2 where "rl2 = (if ovalue [] (fw_rules rl) app \<noteq> [] \<and> maxDomains rl = 1 then snd (removeAppRules app rl1) else rl1)"
  define ips where "ips = fst (dnsRequest N host rl2)"
  define rl3 where "rl3 = snd (dnsRequest N host rl2)"
  have fw: "fw_ok rl" using assms(1) by (simp add: rl_ok_def)
  have 1: "fw_ok rl1" "settings rl1 = settings rl" "dnsCache rl1 = dnsCache rl"
    unfolding rl1_def by (rule fw_ok_oindex [OF fw]) (simp_all add: settings_def)
  have 2: "fw_ok rl2" "settings rl2 = settings rl" "dnsCache rl2 = dnsCache rl"
    unfolding rl2_def using 1 removeAppRules_effect [OF 1(1)] by auto
  have ok2: "rl_ok rl2" by (rule rl_ok_cong [OF assms(1) 2])
  note 3 = dnsRequest_effect [OF ok2 assms(2), of host, folded ips_def rl3_def]
  define f where "f = added F app (map (\<lambda>ip. (ip, port)) ips)"
  have 4: "rl_ok (f rl3) \<and> settings (f rl3) = settings rl3 \<and>
    set (all_rules (f rl3)) = set (all_rules rl3) \<union> (\<lambda>ipp. createIPTableAcceptRule F (fst ipp) (snd ipp) rl3) ` set (map (\<lambda>ip. (ip, port)) ips)"
    unfolding f_def using 3(1) by (intro add_addresses [OF 3(2) assms(3)]) (simp add: list_all_iff)
  have max: "maxDomains rl1 = maxDomains rl" by (simp add: rl1_def)
  have eq: "snd (addDomain_fw F N app host port rl) = (if maxDomains rl = 0 then rl else f rl3)"
    by (simp add: addDomain_fw_def case_prod_beta oindex_value Let_def rl1_def [symmetric] max rl2_def
        ips_def rl3_def f_def added_def fold_map comp_def)
  show "rl_ok (snd (addDomain_fw F N app host port rl))" "settings (snd (addDomain_fw F N app host port rl)) = settings rl"
    using assms(1) 4 3(3) 2(2) by (simp_all add: eq)
  assume max: "maxDomains rl \<noteq> 0" and empty: "ovalue [] (fw_rules rl) app = []"
  have rl2: "rl2 = rl1" using empty by (simp add: rl2_def)
  have "fst (dnsRequest N host rl1) = fst (dnsRequest N host rl)"
    by (simp add: dnsRequest_def rl1_def case_prod_beta Let_def split: option.split)
  then have ips: "ips = fst (dnsRequest N host rl)" by (simp add: ips_def rl2)
  have "set (all_rules rl3) = set (all_rules rl1)" using 3(4) by (simp add: all_rules_def rl2)
  also have "\<dots> = set (all_rules rl)"
  proof (rule mset_eq_setD)
    have "osorted (fw_rules rl)" using fw by (simp add: fw_ok_def)
    then show "mset (all_rules rl1) = mset (all_rules rl)" by (simp add: all_rules_def rl1_def mset_oindex)
  qed
  finally have all: "set (all_rules rl3) = set (all_rules rl)" .
  have "settings rl3 = settings rl" using 3(3) 2(2) by simp
  from accept_rule_cong [OF this] 4 max all ips
  show "set (all_rules (snd (addDomain_fw F N app host port rl))) =
       set (all_rules rl) \<union> (\<lambda>ip. createIPTableAcceptRule F ip port rl) ` set (fst (dnsRequest N host rl))"
    by (simp add: eq image_image)
qed

lemma addURLList_ok:
  "rl_ok rl \<Longrightarrow> net_ok N \<Longrightarrow> numbers_ok F \<Longrightarrow> rl_ok (addURLList F N d urls toUrl app rl)"
proof (induction urls arbitrary: rl)
  case (Cons url urls)
  show ?case unfolding addURLList.simps
    by (rule Cons.IH) (use Cons.prems in \<open>simp_all add: Let_def addDomain_effect(1)\<close>)
qed simp

lemma cache_thread_run_ok: "rl_ok rl \<Longrightarrow> net_ok N \<Longrightarrow> numbers_ok F \<Longrightarrow> rl_ok (cache_thread_run F N d rl)"
  by (simp add: cache_thread_run_def updateURLCache_def addURLList_ok Let_def split: option.split)

lemma addURL_ok:
  assumes "rl_ok rl" "net_ok N" "numbers_ok F"
  shows "rl_ok (addURL F N d app url rl)"
proof -
  define rl1 where "rl1 = cache_thread_run F N d (snd (addDomain_fw F N app (u_host url) (unsigned_int (u_port url)) rl))"
  have "rl_ok rl1" unfolding rl1_def by (intro cache_thread_run_ok addDomain_effect(1) assms)
  then show ?thesis
    using assms by (simp add: addURL_def updateCache_def rl1_def [symmetric] case_prod_beta Let_def addURLList_ok)
qed

lemma removeAll_ok: "rl_ok rl \<Longrightarrow> rl_ok (removeAll_rules rl)"
  using removeAll_effect by (metis rl_ok_cong rl_ok_def)

section \<open>The plugin\<close>

definition bl_ok :: "blocker \<Rightarrow> bool" where
  "bl_ok b = (rl_ok (bl_rules b) \<and> (\<forall>l \<in> set (ovals (static_allow b)). list_all (\<lambda>ipp. clean (fst ipp)) l))"

text \<open>Documents whose paths, interfaces and addresses are words.\<close>

definition doc_ok :: "dnode option \<Rightarrow> bool" where
  "doc_ok doc =
     (case doc of
        None \<Rightarrow> True
      | Some root \<Rightarrow>
          list_all (\<lambda>e. attribute e ''name'' \<in> {''GWInterface'', ''IPTablesPath''} \<longrightarrow> clean (attribute e ''value''))
            (elementsByTagName ''option'' (Element [] [] [root])) \<and>
          list_all (\<lambda>e. list_all (\<lambda>a. attribute a ''ip'' \<noteq> [] \<longrightarrow> clean (attribute a ''ip'')) (elementsByTagName ''allow'' e))
            (elementsByTagName ''domain'' (Element [] [] [root])))"

lemma read_option_ok:
  "bl_ok b \<Longrightarrow> attribute e ''name'' \<in> {''GWInterface'', ''IPTablesPath''} \<longrightarrow> clean (attribute e ''value'') \<Longrightarrow> bl_ok (read_option F e b)"
  by (auto simp: read_option_def bl_ok_def rl_ok_def Let_def)

lemma read_allow_ok:
  assumes "bl_ok b" "attribute a ''ip'' \<noteq> [] \<longrightarrow> clean (attribute a ''ip'')"
  shows "bl_ok (read_allow F name a b)"
proof -
  have "list_all (\<lambda>ipp. clean (fst ipp)) (ovalue [] (static_allow b) name)"
    using assms(1) ovalue_subset [of "static_allow b" name] by (auto simp: bl_ok_def list_all_iff)
  then have new: "\<forall>l \<in> set (ovals (oinsert name (ovalue [] (static_allow b) name @ [(attribute a ''ip'', p)]) (static_allow b))).
      list_all (\<lambda>ipp. clean (fst ipp)) l" if "attribute a ''ip'' \<noteq> []" for p
    using assms that ovals_oinsert [of name "ovalue [] (static_allow b) name @ [(attribute a ''ip'', p)]" "static_allow b"]
    unfolding bl_ok_def by auto
  show ?thesis
    using assms(1) new by (simp add: read_allow_def bl_ok_def Let_def split: option.split)
qed

lemma fold_ok: "(\<And>x b. x \<in> set xs \<Longrightarrow> P b \<Longrightarrow> P (f x b)) \<Longrightarrow> P b \<Longrightarrow> P (fold f xs b)"
  by (induction xs arbitrary: b) auto

lemma blocker_readConf_ok:
  assumes "bl_ok b" "doc_ok doc"
  shows "bl_ok (snd (blocker_readConf F doc b))"
proof (cases doc)
  case (Some root)
  let ?w = "Element [] [] [root]"
  have opt: "bl_ok (fold (read_option F) (elementsByTagName ''option'' ?w) b)"
    using assms Some by (intro fold_ok [of _ bl_ok] read_option_ok) (simp_all add: doc_ok_def list_all_iff del: elementsByTagName.simps)
  have dm: "bl_ok (read_domain F e b)" if "e \<in> set (elementsByTagName ''domain'' ?w)" "bl_ok b" for e b
    unfolding read_domain_def using assms(2) Some that
    by (intro fold_ok [of _ bl_ok] read_allow_ok) (simp_all add: doc_ok_def list_all_iff del: elementsByTagName.simps)
  from fold_ok [of _ bl_ok, OF dm opt] Some show ?thesis
    by (simp add: blocker_readConf_def Let_def del: elementsByTagName.simps)
qed (use assms in \<open>simp add: blocker_readConf_def\<close>)

lemma addStaticAllows_effect:
  assumes "bl_ok b" "numbers_ok F"
  shows "bl_ok (addStaticAllows F domain b)" "settings (bl_rules (addStaticAllows F domain b)) = settings (bl_rules b)"
    "set (all_rules (bl_rules (addStaticAllows F domain b))) = set (all_rules (bl_rules b)) \<union>
       (\<lambda>ipp. createIPTableAcceptRule F (fst ipp) (snd ipp) (bl_rules b)) ` set (ovalue [] (static_allow b) domain)"
proof -
  define l where "l = ovalue [] (static_allow b) domain"
  have eq: "addStaticAllows F domain b =
      b\<lparr>static_allow := snd (oindex [] domain (static_allow b)), bl_rules := added F ''static_allow'' l (bl_rules b)\<rparr>"
    by (simp add: addStaticAllows_def case_prod_beta oindex_value l_def added_def Let_def)
  have "list_all (\<lambda>ipp. clean (fst ipp)) l"
    using assms(1) ovalue_subset [of "static_allow b" domain] by (auto simp: bl_ok_def list_all_iff l_def)
  with add_addresses [of "bl_rules b" F l "''static_allow''"] assms
  have e: "rl_ok (added F ''static_allow'' l (bl_rules b))" "settings (added F ''static_allow'' l (bl_rules b)) = settings (bl_rules b)"
    "set (all_rules (added F ''static_allow'' l (bl_rules b))) = set (all_rules (bl_rules b)) \<union>
       (\<lambda>ipp. createIPTableAcceptRule F (fst ipp) (snd ipp) (bl_rules b)) ` set l"
    by (simp_all add: bl_ok_def)
  show "bl_ok (addStaticAllows F domain b)"
    using assms(1) e(1) oindex_clean [of "static_allow b"] unfolding eq bl_ok_def by simp
  show "settings (bl_rules (addStaticAllows F domain b)) = settings (bl_rules b)"
    "set (all_rules (bl_rules (addStaticAllows F domain b))) = set (all_rules (bl_rules b)) \<union>
       (\<lambda>ipp. createIPTableAcceptRule F (fst ipp) (snd ipp) (bl_rules b)) ` set (ovalue [] (static_allow b) domain)"
    using e(2,3) by (simp_all add: eq l_def)
qed

lemma bl_ok_rules: "bl_ok b \<Longrightarrow> rl_ok rl \<Longrightarrow> bl_ok (b\<lparr>bl_rules := rl\<rparr>)"
  by (simp add: bl_ok_def)

lemma bl_ok_rl_ok: "bl_ok b \<Longrightarrow> rl_ok (bl_rules b)"
  by (simp add: bl_ok_def)

lemma blocker_event_ok:
  assumes "bl_ok b" "net_ok N" "doc_ok doc" "numbers_ok F"
  shows "bl_ok (blocker_eventHandler F N doc d ev b)"
proof (cases ev)
  case (TransitionDemandEvent pid prev result t)
  define b1 where "b1 = (if flushRules b then b\<lparr>bl_rules := removeAll_rules (bl_rules b)\<rparr> else b)"
  define b2 where "b2 = addStaticAllows F (dom_name (tn_transit_to t)) b1"
  have "bl_ok b1" unfolding b1_def using assms(1) by (simp add: bl_ok_rules removeAll_ok bl_ok_rl_ok)
  then have b2: "bl_ok b2" unfolding b2_def using assms(4) by (rule addStaticAllows_effect(1))
  note rl = bl_ok_rl_ok [OF b2]
  show ?thesis
    unfolding TransitionDemandEvent blocker_eventHandler_def plugin_event.case Let_def b1_def [symmetric] b2_def [symmetric]
    using b2 addURL_ok [OF rl assms(2,4)] addDomain_effect(1) [OF rl assms(2,4)] by (simp add: bl_ok_rules)
next
  case ReloadEvent
  with blocker_readConf_ok [OF assms(1,3)] show ?thesis by (simp add: blocker_eventHandler_def)
next
  case RestartEvent
  with assms(1) show ?thesis by (simp add: blocker_eventHandler_def bl_ok_rules removeAll_ok bl_ok_rl_ok)
qed (use assms(1) in \<open>simp add: blocker_eventHandler_def\<close>)

text \<open>The states of the plugin: after its construction, after each event and each run of its thread.\<close>

inductive blocker_reach :: "framework \<Rightarrow> blocker \<Rightarrow> bool" for F where
  start: "doc_ok doc \<Longrightarrow> blocker_reach F (ContextdPluginIPTableBlocker F doc)"
| event: "blocker_reach F b \<Longrightarrow> net_ok N \<Longrightarrow> doc_ok doc \<Longrightarrow> blocker_reach F (blocker_eventHandler F N doc d ev b)"
| thread: "blocker_reach F b \<Longrightarrow> net_ok N \<Longrightarrow> blocker_reach F (b\<lparr>bl_rules := cache_thread_run F N d (bl_rules b)\<rparr>)"

lemma RuleList_ok: "rl_ok RuleList"
  by (simp add: rl_ok_def RuleList_def fw_ok_def all_rules_def chain_def clean_def)

lemma blocker_reach_ok: "blocker_reach F b \<Longrightarrow> numbers_ok F \<Longrightarrow> bl_ok b"
proof (induction rule: blocker_reach.induct)
  case (start doc)
  have "bl_ok \<lparr>bl_rules = RuleList, flushRules = True, static_allow = []\<rparr>" by (simp add: bl_ok_def RuleList_ok)
  from blocker_readConf_ok [OF this start(1)] show ?case by (simp add: ContextdPluginIPTableBlocker_def)
next
  case (event b N doc d ev)
  then show ?case by (simp add: blocker_event_ok)
next
  case (thread b N d)
  then show ?case by (simp add: bl_ok_rules cache_thread_run_ok bl_ok_rl_ok)
qed

section \<open>Properties\<close>

lemma chain_set: "rl_ok rl \<Longrightarrow> set (chain rl) = rule_spec ` set (all_rules rl)"
  using mset_eq_setD [of "chain rl" "map rule_spec (all_rules rl)"] by (simp add: rl_ok_def fw_ok_def)

lemma rule_spec_rules:
  assumes "rl_ok rl" "numbers_ok F" "\<forall>ipp \<in> A. clean (fst ipp)"
  shows "rule_spec ` (\<lambda>ipp. createIPTableAcceptRule F (fst ipp) (snd ipp) rl) ` A = address_rule F rl ` A"
  unfolding image_image using assms
  by (intro image_cong) (simp_all add: good_rule(2) rl_ok_def)

lemma address_rule_cong: "settings rl' = settings rl \<Longrightarrow> address_rule F rl' = address_rule F rl"
  using settings_eqD [of rl' rl] by (simp add: address_rule_def fun_eq_iff)

lemma added_other: "k \<noteq> app \<Longrightarrow> ovalue [] (fw_rules (added F app ipps rl)) k = ovalue [] (fw_rules rl) k"
  unfolding added_def
  by (induction ipps arbitrary: rl) (simp_all add: fw_addRule_def exec_cmd_def ovalue_def Let_def)

lemma added_dns: "dnsCache (added F app ipps rl) = dnsCache rl"
  unfolding added_def by (induction ipps arbitrary: rl) simp_all

lemma dnsRequest_fst: "dnsCache rl' = dnsCache rl \<Longrightarrow> fst (dnsRequest N host rl') = fst (dnsRequest N host rl)"
  by (simp add: dnsRequest_def case_prod_beta Let_def split: option.split)

lemma flushed_static:
  assumes "bl_ok b" "numbers_ok F" "flushRules b" and b2_def: "b2 = addStaticAllows F dm (b\<lparr>bl_rules := removeAll_rules (bl_rules b)\<rparr>)"
  shows "bl_ok b2" "settings (bl_rules b2) = settings (bl_rules b)" "dnsCache (bl_rules b2) = dnsCache (bl_rules b)"
    "set (all_rules (bl_rules b2)) = (\<lambda>ipp. createIPTableAcceptRule F (fst ipp) (snd ipp) (bl_rules b)) ` set (ovalue [] (static_allow b) dm)"
    "k \<noteq> ''static_allow'' \<Longrightarrow> ovalue [] (fw_rules (bl_rules b2)) k = []"
proof -
  define b1 where "b1 = b\<lparr>bl_rules := removeAll_rules (bl_rules b)\<rparr>"
  have fw: "fw_ok (bl_rules b)" using assms(1) by (simp add: bl_ok_def rl_ok_def)
  have ok1: "bl_ok b1" unfolding b1_def using assms(1) by (simp add: bl_ok_rules removeAll_ok bl_ok_rl_ok)
  note e = addStaticAllows_effect [OF ok1 assms(2), of dm, folded b2_def [folded b1_def]]
  note r = removeAll_effect [OF fw]
  show "bl_ok b2" by (rule e(1))
  show set': "settings (bl_rules b2) = settings (bl_rules b)" using e(2) r(3) by (simp add: b1_def)
  have b2: "bl_rules b2 = added F ''static_allow'' (ovalue [] (static_allow b) dm) (bl_rules b1)"
    by (simp add: b2_def addStaticAllows_def case_prod_beta oindex_value added_def b1_def Let_def)
  show "dnsCache (bl_rules b2) = dnsCache (bl_rules b)" using r(4) by (simp add: b2 added_dns b1_def)
  have "settings (bl_rules b1) = settings (bl_rules b)" using r(3) by (simp add: b1_def)
  from e(3) r(2) accept_rule_cong [OF this]
  show "set (all_rules (bl_rules b2)) = (\<lambda>ipp. createIPTableAcceptRule F (fst ipp) (snd ipp) (bl_rules b)) ` set (ovalue [] (static_allow b) dm)"
    by (simp add: b1_def)
  have "ovalue [] (fw_rules (bl_rules b1)) k = []"
    using ovalue_subset [of "fw_rules (bl_rules b1)" k, folded all_rules_def] r(2) by (simp add: b1_def)
  then show "k \<noteq> ''static_allow'' \<Longrightarrow> ovalue [] (fw_rules (bl_rules b2)) k = []" by (simp add: b2 added_other)
qed

text \<open>
  C12: the rules in the firewall are the rules the plugin remembers.  In every state that the plugin reaches
  from its construction by events and runs of its thread, with file and resolver giving words, the commands
  it has started leave exactly the rules of its table in the chain, each once; and when the daemon is reset they
  are all removed, so that the chain is empty.
\<close>

theorem firewall_tracks_rules:
  assumes "blocker_reach F b" "numbers_ok F"
  shows "mset (chain (bl_rules b)) = mset (map rule_spec (all_rules (bl_rules b))) \<and> distinct (all_rules (bl_rules b)) \<and>
    chain (bl_rules (blocker_eventHandler F N doc d RestartEvent b)) = []"
proof -
  have fw: "fw_ok (bl_rules b)" using blocker_reach_ok [OF assms] by (simp add: bl_ok_def rl_ok_def)
  have "mset (chain (removeAll_rules (bl_rules b))) = {#}" using removeAll_effect(1,2) [OF fw] by (simp add: fw_ok_def)
  with fw show ?thesis by (simp add: fw_ok_def blocker_eventHandler_def)
qed

text \<open>
  C13: the firewall follows the domain.  With the flush on domain changes switched on, as it is by default, a transition
  of a program that reports no URL, and is not called static_allow, leaves exactly the rules for the addresses that the file allows in the target
  domain, and, if the transition was accepted, for the addresses of the reported host with the reported port, if both are
  reported and the limit of domains is not zero.  The rules for the target domain are put in even if the transition was refused.
\<close>

theorem firewall_follows_domain:
  fixes pid :: int and d :: daemon
  defines "c \<equiv> ovalue (ContextClient [] Program0 0) (clients d) pid"
  assumes "blocker_reach F b" "numbers_ok F" "net_ok N" "flushRules b" "app_name (cl_program c) \<noteq> ''static_allow''"
    "ovalue [] (cl_currentState c) ''url'' = []"
  shows "set (chain (bl_rules (blocker_eventHandler F N doc d (TransitionDemandEvent pid prev result t) b))) =
    address_rule F (bl_rules b) ` (set (ovalue [] (static_allow b) (dom_name (tn_transit_to t))) \<union>
      (if result = CONTEXT_ACCEPT \<and> ovalue [] (cl_currentState c) ''host'' \<noteq> [] \<and> ovalue [] (cl_currentState c) ''port'' \<noteq> [] \<and>
          maxDomains (bl_rules b) \<noteq> 0
       then (\<lambda>ip. (ip, unsigned_int (toInt0 F (ovalue [] (cl_currentState c) ''port'')))) `
         set (fst (dnsRequest N (ovalue [] (cl_currentState c) ''host'') (bl_rules b)))
       else {}))"
proof -
  define app where "app = app_name (cl_program c)"
  define host where "host = ovalue [] (cl_currentState c) ''host''"
  define port where "port = ovalue [] (cl_currentState c) ''port''"
  define p where "p = unsigned_int (toInt0 F port)"
  define dm where "dm = dom_name (tn_transit_to t)"
  define b2 where "b2 = addStaticAllows F dm (b\<lparr>bl_rules := removeAll_rules (bl_rules b)\<rparr>)"
  have ok: "bl_ok b" by (rule blocker_reach_ok [OF assms(2,3)])
  have rl: "rl_ok (bl_rules b)" by (rule bl_ok_rl_ok [OF ok])
  note e = flushed_static [OF ok assms(3,5) b2_def]
  have rl2: "rl_ok (bl_rules b2)" using e(1) by (rule bl_ok_rl_ok)
  have static: "\<forall>ipp \<in> set (ovalue [] (static_allow b) dm). clean (fst ipp)"
    using ok ovalue_subset [of "static_allow b" dm] by (auto simp: bl_ok_def list_all_iff)
  define go where "go = (result = CONTEXT_ACCEPT \<and> host \<noteq> [] \<and> port \<noteq> [])"
  have eq: "bl_rules (blocker_eventHandler F N doc d (TransitionDemandEvent pid prev result t) b) =
      (if go then snd (addDomain_fw F N app host p (bl_rules b2)) else bl_rules b2)"
    using assms(5,7) by (simp add: blocker_eventHandler_def Let_def c_def [symmetric] app_def host_def port_def p_def dm_def b2_def go_def)
  have all2: "rule_spec ` set (all_rules (bl_rules b2)) = address_rule F (bl_rules b) ` set (ovalue [] (static_allow b) dm)"
    using rule_spec_rules [OF rl assms(3) static] by (simp add: e(4))
  show ?thesis
  proof (cases "go \<and> maxDomains (bl_rules b) \<noteq> 0")
    case True
    have max: "maxDomains (bl_rules b2) \<noteq> 0" using True settings_eqD [OF e(2)] by simp
    have "app \<noteq> ''static_allow''" using assms(6) by (simp add: app_def)
    from e(5) [OF this] have none: "ovalue [] (fw_rules (bl_rules b2)) app = []" .
    note a = addDomain_effect [OF rl2 assms(4,3), of app host p]
    define ips where "ips = fst (dnsRequest N host (bl_rules b))"
    have ips: "fst (dnsRequest N host (bl_rules b2)) = ips" unfolding ips_def by (rule dnsRequest_fst [OF e(3)])
    have clean: "\<forall>ipp \<in> (\<lambda>ip. (ip, p)) ` set ips. clean (fst ipp)"
      using dnsRequest_effect(1) [OF rl assms(4), of host] by (auto simp: list_all_iff ips_def)
    have "rule_spec ` (\<lambda>ip. createIPTableAcceptRule F ip p (bl_rules b2)) ` set ips = address_rule F (bl_rules b) ` (\<lambda>ip. (ip, p)) ` set ips"
      using rule_spec_rules [OF rl2 assms(3) clean] address_rule_cong [OF e(2)] by (simp add: image_image)
    then have "set (chain (snd (addDomain_fw F N app host p (bl_rules b2)))) =
        address_rule F (bl_rules b) ` (set (ovalue [] (static_allow b) dm) \<union> (\<lambda>ip. (ip, p)) ` set ips)"
      by (simp add: chain_set [OF a(1)] a(3) [OF max none] image_Un all2 ips)
    with True show ?thesis unfolding eq by (simp add: go_def host_def port_def p_def dm_def ips_def)
  next
    case False
    have "set (chain (bl_rules (blocker_eventHandler F N doc d (TransitionDemandEvent pid prev result t) b))) = set (chain (bl_rules b2))"
      using False settings_eqD [OF e(2)] by (auto simp: eq addDomain_fw_def)
    with False all2 chain_set [OF rl2] show ?thesis by (auto simp: go_def host_def port_def dm_def)
  qed
qed

text \<open>
  Removing a rule removes it from the table only.  \<open>removeRule\<close> takes a rule of a program out of its table
  before it looks whether the table has the rule, so that no command is started, it returns failure, and
  the rule stays in the firewall without a record.
\<close>

theorem removed_rule_stays:
  assumes "rl_ok rl" "numbers_ok F" "clean ip" "createIPTableAcceptRule F ip port rl \<in> set (ovalue [] (fw_rules rl) app)"
  shows "case removeRule F app ip port rl of (ok, rl') \<Rightarrow> \<not> ok \<and> chain rl' = chain rl \<and>
    createIPTableAcceptRule F ip port rl \<notin> set (all_rules rl') \<and> address_rule F rl (ip, port) \<in> set (chain rl')"
proof -
  define r where "r = createIPTableAcceptRule F ip port rl"
  define rs where "rs = ovalue [] (fw_rules rl) app"
  define m where "m = snd (oindex [] app (fw_rules rl))"
  define m' where "m' = oinsert app (removeAll r rs) m"
  have fw: "osorted (fw_rules rl)" "distinct (all_rules rl)" using assms(1) by (simp_all add: rl_ok_def fw_ok_def)
  have r: "r \<in> set rs" "r \<in> set (all_rules rl)"
    using assms(4) ovalue_subset [of "fw_rules rl" app] by (auto simp: r_def rs_def all_rules_def)
  have sorted: "osorted m" unfolding m_def by (rule osorted_oindex [OF fw(1)])
  have "ovalue [] m app = rs" by (simp add: m_def ovalue_def ofind_oindex rs_def)
  with mset_oinsert [OF sorted, of app "removeAll r rs"] mset_oindex [OF fw(1), of app]
  have "mset (concat (ovals m')) + mset rs = mset (all_rules rl) + mset (removeAll r rs)"
    by (simp add: m'_def m_def all_rules_def)
  then have "count (mset (concat (ovals m'))) r + count (mset rs) r = count (mset (all_rules rl)) r + count (mset (removeAll r rs)) r"
    by (metis count_union)
  moreover have "count (mset (removeAll r rs)) r = 0" by (simp add: count_eq_zero_iff)
  moreover have "count (mset (all_rules rl)) r = 1" using fw(2) r(2) by (simp add: distinct_count_atmost_1)
  moreover have "count (mset rs) r > 0" using r(1) by simp
  ultimately have "count (mset (concat (ovals m'))) r = 0" by linarith
  then have gone: "r \<notin> set (concat (ovals m'))" by (metis count_eq_zero_iff set_mset_mset)
  have "removeRule F app ip port rl = reject r (rl\<lparr>fw_rules := m'\<rparr>)"
    using r(1) by (simp add: removeRule_def case_prod_beta oindex_value r_def [symmetric] rs_def [symmetric] m_def [symmetric] m'_def Let_def)
  also have "\<dots> = (False, rl\<lparr>fw_rules := m'\<rparr>)" using gone by (simp add: reject_def rule_exists_iff all_rules_def)
  finally have eq: "removeRule F app ip port rl = (False, rl\<lparr>fw_rules := m'\<rparr>)" .
  have "rule_spec r \<in> set (chain rl)" using chain_set [OF assms(1)] r(2) by simp
  moreover have "rule_spec r = address_rule F rl (ip, port)"
    unfolding r_def using assms(1-3) by (intro good_rule) (simp_all add: rl_ok_def)
  ultimately show ?thesis using gone by (simp add: eq r_def [symmetric] all_rules_def)
qed

section \<open>Examples\<close>

definition fw_doc :: dnode where
  "fw_doc = Element ''iptables'' [] [Element ''domain'' [(''name'', ''mail'')] [Element ''allow'' [(''ip'', ''10.0.0.1''), (''port'', ''80'')] []]]"

definition sample_net :: net where
  "sample_net = \<lparr>gethostbyname = (\<lambda>h. Some [''10.0.0.2'']), to_url = (\<lambda>s. thread_url RuleList), url_text = u_host,
     page_text = (\<lambda>u. None), captures = (\<lambda>r p. [])\<rparr>"

definition to_mail :: transition where
  "to_mail = Transition Program0 (sample_domain ''web'') (sample_domain ''mail'') False False"

lemma sample_net_ok: "net_ok sample_net"
  by (simp add: net_ok_def sample_net_def clean_def)

definition fw_start :: blocker where
  "fw_start = ContextdPluginIPTableBlocker simple_framework (Some fw_doc)"

lemma fw_start_reach: "blocker_reach simple_framework fw_start"
  unfolding fw_start_def by (rule blocker_reach.start) code_simp

definition fw_moved :: blocker where
  "fw_moved = blocker_eventHandler simple_framework sample_net None sample_daemon
     (TransitionDemandEvent 5 (sample_domain ''web'') CONTEXT_ACCEPT to_mail) fw_start"

theorem firewall_tracks_rules_witness:
  "mset (chain (bl_rules fw_moved)) = mset (map rule_spec (all_rules (bl_rules fw_moved))) \<and> distinct (all_rules (bl_rules fw_moved)) \<and>
   chain (bl_rules (blocker_eventHandler simple_framework sample_net None sample_daemon RestartEvent fw_moved)) = []"
proof (rule firewall_tracks_rules [OF _ simple_framework_numbers])
  show "blocker_reach simple_framework fw_moved"
    unfolding fw_moved_def by (intro blocker_reach.event fw_start_reach sample_net_ok) (simp add: doc_ok_def)
qed

theorem firewall_follows_domain_witness:
  "set (chain (bl_rules (blocker_eventHandler simple_framework sample_net None sample_daemon
      (TransitionDemandEvent 5 (sample_domain ''web'') CONTEXT_REFUSE to_mail) fw_start))) =
     {''-d 10.0.0.1 -p tcp --dport 80 -j ACCEPT -o eth0''}"
proof -
  define c where "c = ovalue (ContextClient [] Program0 0) (clients sample_daemon) 5"
  have c: "app_name (cl_program c) \<noteq> ''static_allow''" "ovalue [] (cl_currentState c) ''url'' = []"
    unfolding c_def by code_simp+
  have "flushRules fw_start" by code_simp
  from firewall_follows_domain [OF fw_start_reach simple_framework_numbers sample_net_ok this c [unfolded c_def],
      of None "sample_domain ''web''" CONTEXT_REFUSE to_mail]
  have "set (chain (bl_rules (blocker_eventHandler simple_framework sample_net None sample_daemon
      (TransitionDemandEvent 5 (sample_domain ''web'') CONTEXT_REFUSE to_mail) fw_start))) =
      address_rule simple_framework (bl_rules fw_start) ` set (ovalue [] (static_allow fw_start) (dom_name (tn_transit_to to_mail)))"
    by simp
  also have "ovalue [] (static_allow fw_start) (dom_name (tn_transit_to to_mail)) = [(''10.0.0.1'', 80)]" by code_simp
  also have "address_rule simple_framework (bl_rules fw_start) ` set [(''10.0.0.1'', 80)] =
      {address_rule simple_framework (bl_rules fw_start) (''10.0.0.1'', 80)}" by simp
  also have "address_rule simple_framework (bl_rules fw_start) (''10.0.0.1'', 80) = ''-d 10.0.0.1 -p tcp --dport 80 -j ACCEPT -o eth0''"
    by code_simp
  finally show ?thesis .
qed

definition one_rule :: rule_list where
  "one_rule = snd (fw_addRule simple_framework ''mutt'' ''10.0.0.1'' 80 RuleList)"

theorem removed_rule_stays_witness:
  "case removeRule simple_framework ''mutt'' ''10.0.0.1'' 80 one_rule of (ok, rl') \<Rightarrow> \<not> ok \<and> chain rl' = chain one_rule \<and>
    createIPTableAcceptRule simple_framework ''10.0.0.1'' 80 one_rule \<notin> set (all_rules rl') \<and>
    address_rule simple_framework one_rule (''10.0.0.1'', 80) \<in> set (chain rl')"
proof (rule removed_rule_stays [OF _ simple_framework_numbers])
  have "list_all (\<lambda>ipp. clean (fst ipp)) [(''10.0.0.1'', 80)]" by code_simp
  from add_addresses [OF RuleList_ok simple_framework_numbers this, of "''mutt''"]
  show "rl_ok one_rule" by (simp add: one_rule_def added_def)
  show "clean ''10.0.0.1''" by code_simp
  show "createIPTableAcceptRule simple_framework ''10.0.0.1'' 80 one_rule \<in> set (ovalue [] (fw_rules one_rule) ''mutt'')"
    by code_simp
qed

end
