(* ===== verification/Killer.thy ===== *)
theory Killer
  imports Daemon_Theorems
begin

text \<open>
  The plugin that ends programs (\<open>plugins/killer\<close>): its rules, the reader of its file on top of the stream
  parser, and its reaction to the events of the dispatcher.

  The constructor of an empty rule leaves its signal number uninitialised.  The number that an empty rule
  happens to hold is an argument of the functions that build one; the reader of a file takes one for
  each event of the parser.  What the plugin sends with \<open>kill\<close> is the list \<open>kills\<close> of its state, a process
  and a signal number each; its messages go to the plugins of the daemon.
\<close>

section \<open>Rules\<close>

record killing_rule =
  kr_app :: string
  kr_context :: string
  kr_msg :: string
  kr_sig :: int
  kr_params :: "(string, string) omap"

definition KillingRule0 :: "int \<Rightarrow> killing_rule" where
  "KillingRule0 u = \<lparr>kr_app = [], kr_context = [], kr_msg = [], kr_sig = u, kr_params = []\<rparr>"

definition KillingRule :: "string \<Rightarrow> string \<Rightarrow> int \<Rightarrow> string \<Rightarrow> killing_rule" where
  "KillingRule app context sig_num msg =
     \<lparr>kr_app = app, kr_context = context, kr_msg = msg, kr_sig = sig_num, kr_params = []\<rparr>"

definition addParameter :: "string \<Rightarrow> string \<Rightarrow> killing_rule \<Rightarrow> killing_rule" where
  "addParameter name param r = r\<lparr>kr_params := oinsert name param (kr_params r)\<rparr>"

fun match_params :: "framework \<Rightarrow> (string, string) omap \<Rightarrow> (string, string) omap \<Rightarrow> bool" where
  "match_params F [] client_params = True"
| "match_params F ((key, pat) # ps) client_params =
     (if ocontains client_params key then
        if \<not> rx_match F pat (ovalue [] client_params key) then False else match_params F ps client_params
      else False)"

definition isMatched :: "framework \<Rightarrow> string \<Rightarrow> string \<Rightarrow> (string, string) omap \<Rightarrow> killing_rule \<Rightarrow> bool" where
  "isMatched F app context client_params r =
     (if kr_app r \<noteq> app then False
      else if \<not> rx_match F (kr_context r) context then False
      else match_params F (kr_params r) client_params)"

section \<open>The file\<close>

record killer =
  kl_rules :: "killing_rule list"
  noKillingSpree :: bool
  cur_rule :: killing_rule
  paramName :: string
  kl_parser :: parser
  kills :: "(int \<times> int) list"

definition killer_tag_open :: "framework \<Rightarrow> int \<Rightarrow> string \<Rightarrow> (string, string) omap \<Rightarrow> killer \<Rightarrow> killer" where
  "killer_tag_open F u tag_name attributes k =
     (if tag_name = ''PIGA_Killer'' then k
      else if tag_name = ''rule'' then
        let app = ovalue [] attributes ''app_name'';
            msg = ovalue [] attributes ''msg_kill'';
            str_sig_num = ovalue [] attributes ''sig_num'';
            domain = ovalue [] attributes ''domain'';
            domain = (if domain = [] then ovalue [] attributes ''context'' else domain)
        in k\<lparr>cur_rule := KillingRule app domain (toInt0 F str_sig_num) msg\<rparr>
      else if paramName k = ''option'' then
        let name = ovalue [] attributes ''name'';
            value = ovalue [] attributes ''name''
        in if name = ''noKillingSpree'' then k\<lparr>noKillingSpree := value = ''true''\<rparr> else k
      else if paramName k = [] \<and> cur_rule k \<noteq> KillingRule0 u then k\<lparr>paramName := tag_name\<rparr>
      else k)"

definition killer_cdata :: "int \<Rightarrow> string \<Rightarrow> killer \<Rightarrow> killer" where
  "killer_cdata u cdata k =
     (if cur_rule k \<noteq> KillingRule0 u \<and> paramName k \<noteq> []
      then k\<lparr>cur_rule := addParameter (paramName k) cdata (cur_rule k)\<rparr> else k)"

definition killer_tag_close :: "int \<Rightarrow> string \<Rightarrow> killer \<Rightarrow> killer" where
  "killer_tag_close u tag_name k =
     (if tag_name = paramName k then k\<lparr>paramName := []\<rparr>
      else if tag_name = ''rule'' then k\<lparr>kl_rules := kl_rules k @ [cur_rule k], cur_rule := KillingRule0 u\<rparr>
      else k)"

fun killer_on_event :: "framework \<Rightarrow> int \<Rightarrow> xml_event \<Rightarrow> killer \<Rightarrow> killer" where
  "killer_on_event F u (TagOpen tag attributes) k = killer_tag_open F u tag attributes k"
| "killer_on_event F u (Cdata cdata) k = killer_cdata u cdata k"
| "killer_on_event F u (TagClose tag) k = killer_tag_close u tag k"
| "killer_on_event F u e k = k"

definition killer_on_events :: "framework \<Rightarrow> (nat \<Rightarrow> int) \<Rightarrow> xml_event list \<Rightarrow> killer \<Rightarrow> killer" where
  "killer_on_events F u es k = fold (\<lambda>(i, e). killer_on_event F (u i) e) (enumerate 0 es) k"

text \<open>The file is \<open>None\<close> if it cannot be opened.\<close>

definition killer_readConf :: "framework \<Rightarrow> (nat \<Rightarrow> int) \<Rightarrow> string option \<Rightarrow> killer \<Rightarrow> fault + bool \<times> killer" where
  "killer_readConf F u file k =
     (case file of
        None \<Rightarrow> Inr (False, k)
      | Some xml \<Rightarrow>
          bind_fault (parse xml ((kl_parser k)\<lparr>events := []\<rparr>)) (\<lambda>(result, p).
            Inr (result, killer_on_events F u (events p) (k\<lparr>kl_rules := [], kl_parser := p\<rparr>))))"

text \<open>The rule in global memory is zero at first.\<close>

definition ContextdPluginKiller :: "framework \<Rightarrow> (nat \<Rightarrow> int) \<Rightarrow> string option \<Rightarrow> fault + bool \<times> killer" where
  "ContextdPluginKiller F u file =
     killer_readConf F u file
       \<lparr>kl_rules = [], noKillingSpree = False, cur_rule = KillingRule0 0, paramName = [], kl_parser = Parser, kills = []\<rparr>"

section \<open>Processes\<close>

text \<open>The listing of \<open>/proc\<close>, and the lines of the status file of a process if it can be opened.\<close>

record processes =
  proc_entries :: "string list"
  proc_status :: "int \<Rightarrow> string list option"

definition getPIDList :: "framework \<Rightarrow> processes \<Rightarrow> int list" where
  "getPIDList F S = concat (map (\<lambda>e. case to_int F e of None \<Rightarrow> [] | Some pid \<Rightarrow> [pid]) (proc_entries S))"

text \<open>White space followed by a number, as the expression \<open>\s+(\d+)\<close> takes them.\<close>

definition take_number :: "string \<Rightarrow> (string \<times> string) option" where
  "take_number s =
     (let space = (\<lambda>c. c = CHR '' '' \<or> (9 \<le> (of_char c :: nat) \<and> (of_char c :: nat) \<le> 13));
          digit = (\<lambda>c. digit_val c \<noteq> None);
          r = dropWhile space s
      in if takeWhile space s \<noteq> [] \<and> takeWhile digit r \<noteq> []
         then Some (takeWhile digit r, dropWhile digit r) else None)"

definition uid_line :: "string \<Rightarrow> string option" where
  "uid_line line =
     (if take 4 line \<noteq> ''Uid:'' then None
      else case take_number (drop 4 line) of None \<Rightarrow> None
      | Some (a, r) \<Rightarrow> (case take_number r of None \<Rightarrow> None
      | Some (b, r) \<Rightarrow> (case take_number r of None \<Rightarrow> None
      | Some (c, r) \<Rightarrow> (case take_number r of None \<Rightarrow> None | Some (d, r) \<Rightarrow> Some b))))"

fun uid_lines :: "framework \<Rightarrow> string list \<Rightarrow> int" where
  "uid_lines F [] = - 1"
| "uid_lines F (line # rest) =
     (case uid_line line of
        Some euid \<Rightarrow> toInt0 F euid
      | None \<Rightarrow> if line \<noteq> [] then uid_lines F rest else - 1)"

definition getEuidFromPID :: "framework \<Rightarrow> processes \<Rightarrow> int \<Rightarrow> int" where
  "getEuidFromPID F S pid = (case proc_status S pid of None \<Rightarrow> - 1 | Some lines \<Rightarrow> uid_lines F lines)"

section \<open>Events\<close>

abbreviation SIGKILL :: int where "SIGKILL \<equiv> 9"

definition killClient :: "client \<Rightarrow> int \<Rightarrow> string \<Rightarrow> killer \<times> daemon \<Rightarrow> killer \<times> daemon" where
  "killClient c sig_num msg kd =
     ((fst kd)\<lparr>kills := kills (fst kd) @ [(cl_pid c, sig_num)]\<rparr>,
      sendCritical (app_name (cl_program c) @ '' has been interrupted because it went into an illegal state : '' @ msg) (snd kd))"

fun rules_loop :: "framework \<Rightarrow> client \<Rightarrow> string \<Rightarrow> killing_rule list \<Rightarrow> killer \<times> daemon \<Rightarrow> killer \<times> daemon" where
  "rules_loop F c context [] kd = kd"
| "rules_loop F c context (r # rs) kd =
     rules_loop F c context rs
       (if isMatched F (app_name (cl_program c)) context (cl_currentState c) r
        then killClient c (kr_sig r) (kr_msg r) kd else kd)"

definition kill_message :: "framework \<Rightarrow> int \<Rightarrow> string \<Rightarrow> int \<Rightarrow> string \<Rightarrow> string" where
  "kill_message F pid exe euid what =
     qarg (qarg (qarg (''The program(pid=%0) '' @ [CHR 0x27] @ ''%1'' @ [CHR 0x27] @ '' with euid=%2 '' @ what)
       (of_int_str F pid)) exe) (of_int_str F euid)"

fun spree_loop :: "framework \<Rightarrow> env \<Rightarrow> processes \<Rightarrow> int list \<Rightarrow> killer \<times> daemon \<Rightarrow> killer \<times> daemon" where
  "spree_loop F E S [] kd = kd"
| "spree_loop F E S (pid # pids) (k, d) =
     spree_loop F E S pids
       (let euid = getEuidFromPID F S pid
        in if euid \<ge> 1000 then
             let full_path = getFullPathFromPID E pid
             in if isProgramKillable (conf d) full_path then
                  (if \<not> noKillingSpree k then k\<lparr>kills := kills k @ [(pid, SIGKILL)]\<rparr> else k,
                   sendNotification (kill_message F pid full_path euid ''has been killed'') d)
                else (k, sendDebug (kill_message F pid full_path euid ''is not killable'') d)
           else (k, d))"

definition killer_eventHandler ::
    "framework \<Rightarrow> env \<Rightarrow> processes \<Rightarrow> (nat \<Rightarrow> int) \<Rightarrow> string option \<Rightarrow> plugin_event \<Rightarrow> killer \<times> daemon \<Rightarrow>
     fault + killer \<times> daemon" where
  "killer_eventHandler F E S u file ev kd =
     (case ev of
        TransitionDemandEvent pid prev result t \<Rightarrow>
          if result = CONTEXT_ACCEPT then
            let c = ovalue (ContextClient [] Program0 0) (clients (snd kd)) pid;
                kd = rules_loop F c (dom_name (c_domain (snd kd))) (kl_rules (fst kd)) kd
            in if \<not> domain_eq (transit_from t) (tn_transit_to t)
               then Inr (spree_loop F E S (getPIDList F S) kd) else Inr kd
          else Inr kd
      | ReloadEvent \<Rightarrow> bind_fault (killer_readConf F u file (fst kd)) (\<lambda>(_, k). Inr (k, snd kd))
      | _ \<Rightarrow> Inr kd)"

section \<open>The option cannot be set\<close>

lemma killer_on_event_spree: "\<not> noKillingSpree k \<Longrightarrow> \<not> noKillingSpree (killer_on_event F u e k)"
  by (cases e) (simp_all add: killer_tag_open_def killer_cdata_def killer_tag_close_def Let_def)

lemma killer_on_events_spree:
  assumes "\<not> noKillingSpree k"
  shows "\<not> noKillingSpree (killer_on_events F u es k)"
proof -
  have "\<not> noKillingSpree (fold (\<lambda>(i, e). killer_on_event F (u i) e) ies k)" for ies
    using assms
  proof (induction ies arbitrary: k)
    case (Cons ie ies)
    have "\<not> noKillingSpree (killer_on_event F (u (fst ie)) (snd ie) k)"
      using Cons.prems by (rule killer_on_event_spree)
    from Cons.IH [OF this] show ?case by (simp add: case_prod_beta)
  qed simp
  then show ?thesis by (simp add: killer_on_events_def)
qed

lemma killer_readConf_spree:
  assumes "killer_readConf F u file k = Inr (b, k')" "\<not> noKillingSpree k"
  shows "\<not> noKillingSpree k'"
proof (cases "file")
  case (Some xml)
  with assms(1) obtain p where "k' = killer_on_events F u (events p) (k\<lparr>kl_rules := [], kl_parser := p\<rparr>)"
    by (auto simp: killer_readConf_def bind_fault_Inr_iff)
  then show ?thesis using assms(2) by (simp add: killer_on_events_spree)
qed (use assms in \<open>simp add: killer_readConf_def\<close>)

section \<open>Which processes are ended\<close>

definition rule_kills :: "framework \<Rightarrow> client \<Rightarrow> string \<Rightarrow> killing_rule list \<Rightarrow> (int \<times> int) list" where
  "rule_kills F c context rs =
     map (\<lambda>r. (cl_pid c, kr_sig r)) (filter (isMatched F (app_name (cl_program c)) context (cl_currentState c)) rs)"

text \<open>The processes of users whose program is not on the list of programs to spare.\<close>

definition victims :: "framework \<Rightarrow> env \<Rightarrow> processes \<Rightarrow> configuration \<Rightarrow> int list" where
  "victims F E S c =
     filter (\<lambda>pid. 1000 \<le> getEuidFromPID F S pid \<and> isProgramKillable c (getFullPathFromPID E pid)) (getPIDList F S)"

lemma rules_loop_effect:
  "\<exists>d'. rules_loop F c context rs (k, d) = (k\<lparr>kills := kills k @ rule_kills F c context rs\<rparr>, d') \<and> core d' = core d"
proof (induction rs arbitrary: k d)
  case (Cons r rs)
  show ?case
  proof (cases "isMatched F (app_name (cl_program c)) context (cl_currentState c) r")
    case True
    obtain k1 d1 where 1: "killClient c (kr_sig r) (kr_msg r) (k, d) = (k1, d1)" by fastforce
    have k1: "k1 = k\<lparr>kills := kills k @ [(cl_pid c, kr_sig r)]\<rparr>" "core d1 = core d"
      using 1 by (auto simp: killClient_def)
    from Cons [of k1 d1] k1 True 1 show ?thesis by (simp add: rule_kills_def)
  next
    case False
    with Cons [of k d] show ?thesis by (simp add: rule_kills_def)
  qed
qed (simp add: rule_kills_def)

lemma spree_loop_effect:
  "\<exists>d'. spree_loop F E S pids (k, d) =
       (k\<lparr>kills := kills k @ (if noKillingSpree k then []
            else map (\<lambda>pid. (pid, SIGKILL)) (filter (\<lambda>pid. 1000 \<le> getEuidFromPID F S pid \<and>
                   isProgramKillable (conf d) (getFullPathFromPID E pid)) pids))\<rparr>, d') \<and> core d' = core d"
proof (induction pids arbitrary: k d)
  case (Cons pid pids)
  define hit where "hit = (1000 \<le> getEuidFromPID F S pid \<and> isProgramKillable (conf d) (getFullPathFromPID E pid))"
  define k1 where "k1 = (if hit \<and> \<not> noKillingSpree k then k\<lparr>kills := kills k @ [(pid, SIGKILL)]\<rparr> else k)"
  obtain d1 where 1: "spree_loop F E S (pid # pids) (k, d) = spree_loop F E S pids (k1, d1)" "core d1 = core d"
    by (cases "1000 \<le> getEuidFromPID F S pid"; cases "isProgramKillable (conf d) (getFullPathFromPID E pid)")
      (auto simp: Let_def hit_def k1_def intro: core_send)
  have "conf d1 = conf d" using core_eqD(1) [OF 1(2)] .
  with Cons [of k1 d1] 1 show ?case by (auto simp: k1_def hit_def)
qed simp

lemma killer_accept_effect:
  assumes "killer_eventHandler F E S u file (TransitionDemandEvent pid prev CONTEXT_ACCEPT t) (k, d) = Inr (k', d')"
  defines "c \<equiv> ovalue (ContextClient [] Program0 0) (clients d) pid"
  shows "k' = k\<lparr>kills := kills k @ rule_kills F c (dom_name (c_domain d)) (kl_rules k) @
      (if domain_eq (transit_from t) (tn_transit_to t) \<or> noKillingSpree k then []
       else map (\<lambda>pid. (pid, SIGKILL)) (victims F E S (conf d)))\<rparr>" "core d' = core d"
proof -
  obtain d1 where 1: "rules_loop F c (dom_name (c_domain d)) (kl_rules k) (k, d) =
      (k\<lparr>kills := kills k @ rule_kills F c (dom_name (c_domain d)) (kl_rules k)\<rparr>, d1)" "core d1 = core d"
    using rules_loop_effect by blast
  define k1 where "k1 = k\<lparr>kills := kills k @ rule_kills F c (dom_name (c_domain d)) (kl_rules k)\<rparr>"
  have conf: "conf d1 = conf d" using core_eqD(1) [OF 1(2)] .
  obtain d2 where 2: "spree_loop F E S (getPIDList F S) (k1, d1) =
      (k1\<lparr>kills := kills k1 @ (if noKillingSpree k then [] else map (\<lambda>pid. (pid, SIGKILL)) (victims F E S (conf d)))\<rparr>, d2)"
      "core d2 = core d"
    using spree_loop_effect [of F E S "getPIDList F S" k1 d1] 1(2) by (auto simp: victims_def conf k1_def)
  have "Inr (k', d') = (if domain_eq (transit_from t) (tn_transit_to t) then Inr (k1, d1)
      else Inr (spree_loop F E S (getPIDList F S) (k1, d1)))"
    using assms(1) 1(1)
    by (auto simp: killer_eventHandler_def c_def [symmetric] k1_def [symmetric] Let_def split: if_splits)
  then show "k' = k\<lparr>kills := kills k @ rule_kills F c (dom_name (c_domain d)) (kl_rules k) @
      (if domain_eq (transit_from t) (tn_transit_to t) \<or> noKillingSpree k then []
       else map (\<lambda>pid. (pid, SIGKILL)) (victims F E S (conf d)))\<rparr>" "core d' = core d"
    using 1(2) 2 by (simp_all add: k1_def split: if_splits)
qed

text \<open>The states of the plugin: after its construction, and after each event.\<close>

inductive killer_reach :: "framework \<Rightarrow> killer \<Rightarrow> bool" for F where
  start: "ContextdPluginKiller F u file = Inr (b, k) \<Longrightarrow> killer_reach F k"
| event: "killer_reach F k \<Longrightarrow> killer_eventHandler F E S u file ev (k, d) = Inr (k', d') \<Longrightarrow> killer_reach F k'"

lemma killer_event_spree:
  assumes "killer_eventHandler F E S u file ev (k, d) = Inr (k', d')" "\<not> noKillingSpree k"
  shows "\<not> noKillingSpree k'"
proof (cases ev)
  case (TransitionDemandEvent pid prev result t)
  show ?thesis
  proof (cases "result = CONTEXT_ACCEPT")
    case True
    from killer_accept_effect(1) [OF assms(1) [unfolded TransitionDemandEvent True]] assms(2) show ?thesis by simp
  qed (use assms TransitionDemandEvent in \<open>simp add: killer_eventHandler_def\<close>)
next
  case ReloadEvent
  with assms show ?thesis
    by (auto simp: killer_eventHandler_def bind_fault_Inr_iff dest: killer_readConf_spree)
qed (use assms in \<open>simp_all add: killer_eventHandler_def\<close>)

lemma killer_reach_spree: "killer_reach F k \<Longrightarrow> \<not> noKillingSpree k"
proof (induction rule: killer_reach.induct)
  case (start u f b k)
  then show ?case by (auto simp: ContextdPluginKiller_def dest: killer_readConf_spree)
qed (use killer_event_spree in blast)

section \<open>Reading rules\<close>

text \<open>The file with the given rules, one element each, with one element for each parameter.\<close>

definition param_node :: "string \<times> string \<Rightarrow> dnode" where
  "param_node np = Element (fst np) [] [TextNode (snd np)]"

definition rule_node :: "framework \<Rightarrow> killing_rule \<Rightarrow> dnode" where
  "rule_node F r =
     Element ''rule'' [(''app_name'', kr_app r), (''domain'', kr_context r), (''sig_num'', of_int_str F (kr_sig r)), (''msg_kill'', kr_msg r)]
       (map param_node (kr_params r))"

definition killer_file :: "framework \<Rightarrow> killing_rule list \<Rightarrow> dnode" where
  "killer_file F rs = Element ''PIGA_Killer'' [] (map (rule_node F) rs)"

definition writable_rule :: "killing_rule \<Rightarrow> bool" where
  "writable_rule r =
     (kr_app r \<noteq> [] \<and> c_int (kr_sig r) \<and> CHR 0x0D \<notin> set (kr_app r) \<union> set (kr_context r) \<union> set (kr_msg r) \<and> osorted (kr_params r) \<and>
      list_all (\<lambda>np. label (fst np) \<and> fst np \<notin> {''rule'', ''PIGA_Killer''} \<and> snd np \<noteq> [] \<and> CHR 0x0D \<notin> set (snd np)) (kr_params r))"

lemma separate_elements: "list_all is_element ks \<Longrightarrow> separate ks"
  by (induction ks rule: separate.induct) auto

lemma numbers_no_return:
  assumes "numbers_ok F"
  shows "CHR 0x0D \<notin> set (of_int_str F i)"
proof -
  have "\<forall>c \<in> set (of_int_str F i). c = CHR ''-'' \<or> digit_val c \<noteq> None" using assms by (simp add: numbers_ok_def)
  moreover have "digit_val (CHR 0x0D) = None" by code_simp
  moreover have "CHR 0x0D \<noteq> CHR ''-''" by simp
  ultimately show ?thesis by blast
qed

lemma killer_file_readable:
  assumes "numbers_ok F" "list_all writable_rule rs"
  shows "readable (killer_file F rs)"
proof -
  have "readable (rule_node F r)" if "r \<in> set rs" for r
  proof -
    have r: "writable_rule r" using assms(2) that by (simp add: list_all_iff)
    have "list_all readable (map param_node (kr_params r))" "list_all is_element (map param_node (kr_params r))"
      using r by (auto simp: writable_rule_def list_all_iff param_node_def)
    moreover have "label ''rule''" "label ''app_name''" "label ''domain''" "label ''sig_num''" "label ''msg_kill''"
      by code_simp+
    ultimately show ?thesis
      using r numbers_no_return [OF assms(1)] by (simp add: rule_node_def writable_rule_def separate_elements)
  qed
  moreover have "list_all is_element (map (rule_node F) rs)" by (simp add: list_all_iff rule_node_def)
  moreover have "label ''PIGA_Killer''" by code_simp
  ultimately show ?thesis by (simp add: killer_file_def separate_elements list_all_iff)
qed

text \<open>The events from the \<open>n\<close>-th on.\<close>

definition events_from :: "framework \<Rightarrow> (nat \<Rightarrow> int) \<Rightarrow> nat \<Rightarrow> xml_event list \<Rightarrow> killer \<Rightarrow> killer" where
  "events_from F u n es k = fold (\<lambda>(i, e). killer_on_event F (u i) e) (enumerate n es) k"

lemma events_from_simps [simp]:
  "events_from F u n [] k = k"
  "events_from F u n (e # es) k = events_from F u (Suc n) es (killer_on_event F (u n) e k)"
  by (simp_all add: events_from_def)

lemma events_from_append [simp]:
  "events_from F u n (es @ fs) k = events_from F u (n + length es) fs (events_from F u n es k)"
  by (induction es arbitrary: n k) auto

lemma read_param:
  assumes "paramName k = []" "kr_app (cur_rule k) \<noteq> []" "label (fst np)" "fst np \<notin> {''rule'', ''PIGA_Killer''}"
  shows "events_from F u n (document_events (param_node np)) k = k\<lparr>cur_rule := addParameter (fst np) (snd np) (cur_rule k)\<rparr>"
proof -
  have "cur_rule k \<noteq> KillingRule0 v" for v using assms(2) by (auto simp: KillingRule0_def)
  then show ?thesis
    using assms
    by (simp add: param_node_def killer_tag_open_def killer_cdata_def killer_tag_close_def label_def)
qed

lemma read_params:
  assumes "paramName k = []" "kr_app (cur_rule k) \<noteq> []"
    "list_all (\<lambda>np. label (fst np) \<and> fst np \<notin> {''rule'', ''PIGA_Killer''}) ps"
    "osorted (kr_params (cur_rule k) @ ps)"
  shows "events_from F u n (concat (map document_events (map param_node ps))) k =
    k\<lparr>cur_rule := (cur_rule k)\<lparr>kr_params := kr_params (cur_rule k) @ ps\<rparr>\<rparr>"
  using assms
proof (induction ps arbitrary: k n)
  case (Cons np ps)
  define k' where "k' = k\<lparr>cur_rule := addParameter (fst np) (snd np) (cur_rule k)\<rparr>"
  have "\<forall>k' \<in> set (okeys (kr_params (cur_rule k))). k' < fst np"
    using Cons.prems(4) by (auto simp: osorted_def okeys_def strict_sorted_iff sorted_wrt_append)
  then have add: "addParameter (fst np) (snd np) (cur_rule k) = (cur_rule k)\<lparr>kr_params := kr_params (cur_rule k) @ [np]\<rparr>"
    by (simp add: addParameter_def oinsert_snoc)
  have "events_from F u n (concat (map document_events (map param_node (np # ps)))) k =
      events_from F u (n + length (document_events (param_node np))) (concat (map document_events (map param_node ps))) k'"
    using read_param [OF Cons.prems(1,2), of np] Cons.prems(3) by (simp add: k'_def)
  also have "\<dots> = k'\<lparr>cur_rule := (cur_rule k')\<lparr>kr_params := kr_params (cur_rule k') @ ps\<rparr>\<rparr>"
    using Cons.prems by (intro Cons.IH) (simp_all add: k'_def add)
  finally show ?case by (simp add: k'_def add)
qed simp

lemma read_rule:
  assumes "paramName k = []" "writable_rule r" "numbers_ok F"
  shows "\<exists>v. events_from F u n (document_events (rule_node F r)) k = k\<lparr>kl_rules := kl_rules k @ [r], cur_rule := KillingRule0 v\<rparr>"
proof -
  define k1 where "k1 = k\<lparr>cur_rule := KillingRule (kr_app r) (kr_context r) (kr_sig r) (kr_msg r)\<rparr>"
  have r: "kr_app r \<noteq> []" "osorted (kr_params r)"
      "list_all (\<lambda>np. label (fst np) \<and> fst np \<notin> {''rule'', ''PIGA_Killer''}) (kr_params r)"
    using assms(2) by (auto simp: writable_rule_def list_all_iff)
  have "to_int F (of_int_str F (kr_sig r)) = Some (kr_sig r)" using assms(2,3) by (simp add: numbers_ok_def writable_rule_def)
  then have 1: "killer_on_event F (u n) (TagOpen ''rule'' (attribute_map [(''app_name'', kr_app r), (''domain'', kr_context r),
      (''sig_num'', of_int_str F (kr_sig r)), (''msg_kill'', kr_msg r)])) k = k1"
    by (simp add: killer_tag_open_def attribute_map_def ovalue_def toInt0_def k1_def Let_def)
  have 2: "events_from F u m (concat (map document_events (map param_node (kr_params r)))) k1 =
      k1\<lparr>cur_rule := (cur_rule k1)\<lparr>kr_params := kr_params r\<rparr>\<rparr>" for m
    using read_params [of k1 "kr_params r"] assms(1) r by (simp add: k1_def KillingRule_def)
  have 3: "k1\<lparr>cur_rule := (cur_rule k1)\<lparr>kr_params := kr_params r\<rparr>\<rparr> = k\<lparr>cur_rule := r\<rparr>"
    by (simp add: k1_def KillingRule_def)
  have "events_from F u n (document_events (rule_node F r)) k =
      killer_on_event F (u (Suc n + length (concat (map document_events (map param_node (kr_params r)))))) (TagClose ''rule'') (k\<lparr>cur_rule := r\<rparr>)"
    unfolding rule_node_def document_events.simps events_from_simps events_from_append 1 2 3 by simp
  then show ?thesis using assms(1) by (simp add: killer_tag_close_def, blast)
qed

lemma read_rules:
  assumes "paramName k = []" "list_all writable_rule rs" "numbers_ok F"
  shows "\<exists>r. events_from F u n (concat (map document_events (map (rule_node F) rs))) k = k\<lparr>kl_rules := kl_rules k @ rs, cur_rule := r\<rparr>"
  using assms
proof (induction rs arbitrary: k n)
  case Nil
  then show ?case by (intro exI [of _ "cur_rule k"]) simp
next
  case (Cons r rs)
  obtain v where 1: "events_from F u n (document_events (rule_node F r)) k = k\<lparr>kl_rules := kl_rules k @ [r], cur_rule := KillingRule0 v\<rparr>"
    using read_rule Cons.prems by (metis list.pred_inject(2))
  obtain w where "events_from F u (n + length (document_events (rule_node F r))) (concat (map document_events (map (rule_node F) rs)))
      (k\<lparr>kl_rules := kl_rules k @ [r], cur_rule := KillingRule0 v\<rparr>) =
      k\<lparr>kl_rules := kl_rules k @ r # rs, cur_rule := w\<rparr>"
    using Cons.IH [of "k\<lparr>kl_rules := kl_rules k @ [r], cur_rule := KillingRule0 v\<rparr>"] Cons.prems by fastforce
  then show ?case by (simp add: 1) blast
qed

section \<open>Properties\<close>

text \<open>
  C24: the killer reads back a file of rules.  For rules that name a program, with signals that are C integers, whose parameters have names
  that can be written and patterns that are not empty, and texts without carriage returns, reading the document with these rules,
  without blanks between its elements, succeeds and leaves exactly
  these rules, whatever the uninitialised numbers are, provided no earlier file ended inside a parameter.
\<close>

theorem killer_file_roundtrip:
  assumes "numbers_ok F" "list_all writable_rule rs" "paramName k = []"
    "entities (kl_parser k) = entities Parser" "\<not> skip_whitespaces (kl_parser k)"
  shows "\<exists>k'. killer_readConf F u (Some (document_text (killer_file F rs))) k = Inr (True, k') \<and>
    kl_rules k' = rs \<and> paramName k' = [] \<and> noKillingSpree k' = noKillingSpree k"
proof -
  define p0 where "p0 = (kl_parser k)\<lparr>events := []\<rparr>"
  have p0: "entities p0 = entities Parser" "\<not> skip_whitespaces p0" "events p0 = []" using assms(4,5) by (simp_all add: p0_def)
  obtain q where q: "parse (document_text (killer_file F rs)) p0 = Inr (True, q)"
      "events q = [DocumentBegin] @ document_events (killer_file F rs) @ [DocumentEnd]"
    using parse_tree [OF killer_file_readable [OF assms(1,2), unfolded killer_file_def] p0(1,2)] p0(3)
    unfolding killer_file_def by auto
  define k1 where "k1 = k\<lparr>kl_rules := [], kl_parser := q\<rparr>"
  obtain r where r: "events_from F u 2 (concat (map document_events (map (rule_node F) rs))) k1 = k1\<lparr>kl_rules := rs, cur_rule := r\<rparr>"
    using read_rules [of k1 rs F u 2] assms(1-3) by (auto simp: k1_def)
  have "killer_on_events F u (events q) k1 = k1\<lparr>kl_rules := rs, cur_rule := r\<rparr>"
    using r assms(3)
    by (simp add: killer_on_events_def events_from_def [symmetric] q(2) killer_file_def killer_tag_open_def killer_tag_close_def
        attribute_map_def numeral_2_eq_2 k1_def)
  then have "killer_readConf F u (Some (document_text (killer_file F rs))) k = Inr (True, k1\<lparr>kl_rules := rs, cur_rule := r\<rparr>)"
    using q(1) by (simp add: killer_readConf_def p0_def k1_def)
  then show ?thesis using assms(3) by (simp add: k1_def)
qed

text \<open>
  C11: which processes the killer ends.  In every state that the plugin reaches from its construction, an
  accepted transition makes it signal the application for each rule that the application's program, domain and state
  match, and, if the transition leads to another domain, kill every process of a user whose program is not
  on the list of programs to spare, in the order of the process list, and no other; a refused transition makes
  it do nothing.  In particular the option against this mass killing has no effect: no file sets it.
\<close>

theorem domain_change_ends_programs:
  assumes "killer_reach F k"
    "killer_eventHandler F E S u file (TransitionDemandEvent pid prev result t) (k, d) = Inr (k', d')"
  shows "kills k' = kills k @
    (if result = CONTEXT_ACCEPT
     then rule_kills F (ovalue (ContextClient [] Program0 0) (clients d) pid) (dom_name (c_domain d)) (kl_rules k) @
       (if domain_eq (transit_from t) (tn_transit_to t) then [] else map (\<lambda>p. (p, SIGKILL)) (victims F E S (conf d)))
     else [])"
proof (cases "result = CONTEXT_ACCEPT")
  case True
  from killer_accept_effect(1) [OF assms(2) [unfolded True]] killer_reach_spree [OF assms(1)] True show ?thesis by simp
qed (use assms(2) in \<open>simp add: killer_eventHandler_def\<close>)

definition fresh_killer :: killer where
  "fresh_killer =
     \<lparr>kl_rules = [], noKillingSpree = False, cur_rule = KillingRule0 0, paramName = [], kl_parser = Parser, kills = []\<rparr>"

definition quoted :: "string \<Rightarrow> string" where
  "quoted s = [CHR 0x22] @ s @ [CHR 0x22]"

text \<open>A file that ends inside the parameter \<open>url\<close>, and a file with one rule on the parameter \<open>host\<close>.\<close>

definition cut_file :: string where
  "cut_file = ''<PIGA_Killer><rule app_name='' @ quoted ''mutt'' @ ''><url>''"

definition host_file :: string where
  "host_file = ''<PIGA_Killer><rule app_name='' @ quoted ''mutt'' @ '' sig_num='' @ quoted ''15'' @ ''><host>a</host></rule></PIGA_Killer>''"

text \<open>
  A file that ends inside a parameter spoils the next one.  The name of the parameter stays in global memory, so
  that after a reload of a correct file its rule has the pattern under the wrong name, where a fresh
  plugin has it under the right one.
\<close>

theorem cut_file_spoils_reload:
  "case killer_readConf simple_framework (\<lambda>_. 0) (Some cut_file) fresh_killer of
     Inr (ok, k) \<Rightarrow> \<not> ok \<and>
       (case killer_readConf simple_framework (\<lambda>_. 0) (Some host_file) k of
          Inr (ok, k) \<Rightarrow> ok \<and> map kr_params (kl_rules k) = [[(''url'', ''a'')]] | Inl _ \<Rightarrow> False) \<and>
       (case killer_readConf simple_framework (\<lambda>_. 0) (Some host_file) fresh_killer of
          Inr (ok, k) \<Rightarrow> ok \<and> map kr_params (kl_rules k) = [[(''host'', ''a'')]] | Inl _ \<Rightarrow> False)
   | Inl _ \<Rightarrow> False"
  by code_simp

definition kill_rule :: killing_rule where
  "kill_rule = \<lparr>kr_app = ''mutt'', kr_context = ''mail'', kr_msg = ''no'', kr_sig = 15, kr_params = [(''host'', ''a'')]\<rparr>"

theorem killer_file_roundtrip_witness:
  "\<exists>k'. killer_readConf simple_framework (\<lambda>_. 7) (Some (document_text (killer_file simple_framework [kill_rule]))) fresh_killer = Inr (True, k') \<and>
    kl_rules k' = [kill_rule] \<and> paramName k' = [] \<and> noKillingSpree k' = noKillingSpree fresh_killer"
proof (rule killer_file_roundtrip [OF simple_framework_numbers])
  show "list_all writable_rule [kill_rule]" by code_simp
qed (simp_all add: fresh_killer_def Parser_def)

definition sample_processes :: processes where
  "sample_processes = \<lparr>proc_entries = [''5'', ''self'', ''7''],
     proc_status = (\<lambda>pid. Some [''Name: x'', ''Uid: 1 '' @ (if pid = 7 then ''1000'' else ''0'') @ '' 1 1''])\<rparr>"

theorem domain_change_ends_programs_witness:
  "\<exists>k' d'. killer_eventHandler simple_framework sample_env sample_processes (\<lambda>_. 0) None
      (TransitionDemandEvent 5 (sample_domain ''web'') CONTEXT_ACCEPT
         (Transition Program0 (sample_domain ''web'') (sample_domain ''mail'') False False)) (fresh_killer, sample_daemon) = Inr (k', d') \<and>
     kills k' = [(7, SIGKILL)]"
proof -
  let ?t = "Transition Program0 (sample_domain ''web'') (sample_domain ''mail'') False False"
  have reach: "killer_reach simple_framework fresh_killer"
    by (rule killer_reach.start [of _ "\<lambda>_. 0" None False])
      (simp add: ContextdPluginKiller_def killer_readConf_def fresh_killer_def)
  have "killer_eventHandler simple_framework sample_env sample_processes (\<lambda>_. 0) None
      (TransitionDemandEvent 5 (sample_domain ''web'') CONTEXT_ACCEPT ?t) (fresh_killer, sample_daemon) \<noteq> Inl x" for x
    by (simp add: killer_eventHandler_def Let_def)
  then obtain k' d' where kd: "killer_eventHandler simple_framework sample_env sample_processes (\<lambda>_. 0) None
      (TransitionDemandEvent 5 (sample_domain ''web'') CONTEXT_ACCEPT ?t) (fresh_killer, sample_daemon) = Inr (k', d')"
    by (metis obj_sumE prod.exhaust)
  have "victims simple_framework sample_env sample_processes (conf sample_daemon) = [7]" by code_simp
  with domain_change_ends_programs [OF reach kd] have "kills k' = [(7, SIGKILL)]"
    by (simp add: fresh_killer_def rule_kills_def Transition_def sample_domain_def Domain_def)
  with kd show ?thesis by blast
qed

end
