(* ===== verification/Plugins.thy ===== *)
theory Plugins
  imports Killer Firewall "HOL-Library.Product_Lexorder"
begin

text \<open>
  The remaining plugins of the daemon: the one that loads a security module for each domain
  (\<open>plugins/selinux\<close>), the one that writes the log (\<open>plugins/logger\<close>) and the one that watches the X server
  (\<open>plugins/xorg\<close>).  The commands that are started and the lines of the log are lists in the states of the plugins.
\<close>

section \<open>Security modules\<close>

record selinux_module =
  modulePath :: string
  sm_app :: string
  neededContext :: string

definition SELinux_Module0 :: selinux_module where
  "SELinux_Module0 = \<lparr>modulePath = [], sm_app = [], neededContext = []\<rparr>"

record selinux =
  se_modules :: "(string \<times> string, selinux_module) omap"
  currentModule :: "(string, selinux_module) omap"
  se_parser :: parser
  se_commands :: "string list"

definition str_right :: "nat \<Rightarrow> string \<Rightarrow> string" where
  "str_right n s = drop (length s - n) s"

definition selinux_tag_open ::
    "string \<Rightarrow> (string, string) omap \<Rightarrow> selinux \<times> daemon \<Rightarrow> selinux \<times> daemon" where
  "selinux_tag_open tag_name attributes sd =
     (case sd of (s, d) \<Rightarrow>
        if tag_name = ''PIGA_SELinux_Plugin'' then (s, d)
        else if tag_name = ''module'' then
          let app = ovalue [] attributes ''app_name'';
              context = ovalue [] attributes ''context'';
              path = ovalue [] attributes ''full_path''
          in if app \<noteq> [] then
               if take 1 path = ''/'' \<and> str_right 3 path = ''.pp'' then
                 if \<not> ocontains (se_modules s) (app, context) then
                   (s\<lparr>se_modules := oinsert (app, context) \<lparr>modulePath = path, sm_app = app, neededContext = context\<rparr> (se_modules s)\<rparr>,
                    sendNotification (qargs (''%1: The module(%2,%3)='' @ [CHR 0x27] @ ''%4'' @ [CHR 0x27] @ '' has been added !'')
                      [''SELinux'', app, context, path]) d)
                 else (s, sendError (qargs (''%1: The module(%2,%3)='' @ [CHR 0x27] @ ''%4'' @ [CHR 0x27] @ '' already exists !'')
                      [''SELinux'', app, context, path]) d)
               else (s, sendError (qargs (''%1: The module<%2,%3> is invalid because '' @ [CHR 0x27] @ ''%3'' @ [CHR 0x27] @ '' is not a valid module path'')
                      [''SELinux'', app, context, path]) d)
             else (s, sendError (qargs ''%1: %2 is not a valid program name in the module<%3,%4>'' [''SELinux'', app, app, context]) d)
        else (s, d))"

text \<open>
  The parser ignores what the reader of a tag returns.  The text \<open>M\<close> of the report about an error of the syntax is formatted
  by the framework, with the line as the width and the column as the base of a number.
\<close>

fun selinux_on_event :: "(xml_error \<Rightarrow> int \<Rightarrow> int \<Rightarrow> string) \<Rightarrow> xml_event \<Rightarrow> selinux \<times> daemon \<Rightarrow> selinux \<times> daemon" where
  "selinux_on_event M (TagOpen tag attributes) sd = selinux_tag_open tag attributes sd"
| "selinux_on_event M (XmlError e line col) (s, d) = (s, sendError (M e line col) d)"
| "selinux_on_event M e sd = sd"

definition selinux_readConf ::
    "(xml_error \<Rightarrow> int \<Rightarrow> int \<Rightarrow> string) \<Rightarrow> string option \<Rightarrow> selinux \<times> daemon \<Rightarrow> fault + bool \<times> selinux \<times> daemon" where
  "selinux_readConf M file sd =
     (case sd of (s, d) \<Rightarrow>
        case file of
          None \<Rightarrow> Inr (False, s, sendError (''Error while loading the selinux'' @ [CHR 0x27] @ ''s rules : Cannot read the file '' @
            [CHR 0x27] @ ''/etc/context.d/selinux.xml'' @ [CHR 0x27] @ '' !'') d)
        | Some xml \<Rightarrow>
            bind_fault (parse xml ((se_parser s)\<lparr>events := []\<rparr>)) (\<lambda>(result, p).
              let (s, d) = fold (selinux_on_event M) (events p) (s\<lparr>se_modules := [], se_parser := p\<rparr>, d)
              in if \<not> result
                 then Inr (False, s, sendError (''Error while loading the selinux'' @ [CHR 0x27] @ ''s rules : parse(iss.str()) returned false !'') d)
                 else Inr (True, s, d)))"

definition ContextdPluginSELinux ::
    "(xml_error \<Rightarrow> int \<Rightarrow> int \<Rightarrow> string) \<Rightarrow> string option \<Rightarrow> daemon \<Rightarrow> fault + bool \<times> selinux \<times> daemon" where
  "ContextdPluginSELinux M file d =
     selinux_readConf M file (\<lparr>se_modules = [], currentModule = [], se_parser = Parser, se_commands = []\<rparr>, d)"

definition getModule :: "string \<Rightarrow> string \<Rightarrow> selinux \<Rightarrow> selinux_module" where
  "getModule app context s =
     (if ocontains (se_modules s) (app, context) then ovalue SELinux_Module0 (se_modules s) (app, context)
      else if ocontains (se_modules s) (''*'', context) then ovalue SELinux_Module0 (se_modules s) (''*'', context)
      else SELinux_Module0)"

definition selinux_exec :: "string \<Rightarrow> selinux \<Rightarrow> selinux" where
  "selinux_exec cmd s = s\<lparr>se_commands := se_commands s @ [cmd]\<rparr>"

definition file_name :: "string \<Rightarrow> string" where
  "file_name path = rev (takeWhile (\<lambda>c. c \<noteq> CHR ''/'') (rev path))"

definition command_note :: "string \<Rightarrow> string" where
  "command_note cmd = qarg (''selinux cmd : '' @ [CHR 0x27] @ ''%1'' @ [CHR 0x27] @ [CHR 0x0A]) cmd"

definition loadModule :: "string \<Rightarrow> string \<Rightarrow> selinux \<times> daemon \<Rightarrow> selinux \<times> daemon" where
  "loadModule app path sd =
     (let (s, d) = sd;
          (current, m) = oindex SELinux_Module0 app (currentModule s);
          s = s\<lparr>currentModule := m\<rparr>;
          (s, d) =
            (if modulePath current \<noteq> [] then
               let name = file_name (modulePath current);
                   name = take (length name - 3) name;
                   cmd = ''semodule -r '' @ name;
                   d = sendNotification (qarg (''SELinux: Unload the module '' @ [CHR 0x27] @ ''%1'' @ [CHR 0x27] @ '' !'') name) d
               in (selinux_exec cmd s, sendNotification (command_note cmd) d)
             else (s, d));
          cmd = ''semodule -i '' @ [CHR 0x22] @ path @ [CHR 0x22];
          d = sendNotification (qarg (''SELinux: Load the module '' @ [CHR 0x27] @ ''%1'' @ [CHR 0x27] @ '' !'') path) d
      in (selinux_exec cmd s, sendNotification (command_note cmd) d))"

definition loadTheRightModule :: "program \<Rightarrow> domain \<Rightarrow> selinux \<times> daemon \<Rightarrow> selinux \<times> daemon" where
  "loadTheRightModule prog dm sd =
     (let (s, d) = sd;
          module = getModule (app_name prog) (dom_name dm) s
      in if module \<noteq> SELinux_Module0 then
           let (current, m) = oindex SELinux_Module0 (app_name prog) (currentModule s);
               s = s\<lparr>currentModule := m\<rparr>
           in if modulePath current \<noteq> modulePath module then
                let (s, d) = loadModule (app_name prog) (modulePath module) (s, d)
                in (s\<lparr>currentModule := oinsert (app_name prog) module (currentModule s)\<rparr>, d)
              else (s, d)
         else (s, sendNotification (qargs ''SELinux: No module has been found for (%1, %2)'' [app_name prog, dom_name dm]) d))"

definition selinux_eventHandler ::
    "(xml_error \<Rightarrow> int \<Rightarrow> int \<Rightarrow> string) \<Rightarrow> string option \<Rightarrow> plugin_event \<Rightarrow> selinux \<times> daemon \<Rightarrow> fault + selinux \<times> daemon" where
  "selinux_eventHandler M file ev sd =
     (case ev of
        TransitionDemandEvent pid prev result t \<Rightarrow>
          if result = CONTEXT_ACCEPT
          then Inr (loadTheRightModule (cl_program (ovalue (ContextClient [] Program0 0) (clients (snd sd)) pid)) (tn_transit_to t) sd)
          else Inr sd
      | RestartEvent \<Rightarrow>
          let currentDomain = default_domain (conf (snd sd))
          in Inr (fold (\<lambda>p. loadTheRightModule p currentDomain) (programList (conf (snd sd))) sd)
      | ReloadEvent \<Rightarrow> bind_fault (selinux_readConf M file sd) (\<lambda>(_, sd). Inr sd)
      | _ \<Rightarrow> Inr sd)"

section \<open>The log\<close>

record logger =
  minP :: priority
  lg_syslog :: "(int \<times> string) list"
  lg_notified :: "string list"

fun priority_number :: "priority \<Rightarrow> int" where
  "priority_number NOTIFY_DEBUG = 0"
| "priority_number NOTIFY_INFO = 1"
| "priority_number NOTIFY_NORMAL = 2"
| "priority_number NOTIFY_ERROR = 3"
| "priority_number NOTIFY_CRITICAL = 4"

abbreviation LOG_CRIT :: int where "LOG_CRIT \<equiv> 2"
abbreviation LOG_ERR :: int where "LOG_ERR \<equiv> 3"
abbreviation LOG_NOTICE :: int where "LOG_NOTICE \<equiv> 5"
abbreviation LOG_INFO :: int where "LOG_INFO \<equiv> 6"
abbreviation LOG_DEBUG :: int where "LOG_DEBUG \<equiv> 7"

text \<open>The constructor, with the macro that switches debugging off.\<close>

definition ContextdPluginLogger :: "bool \<Rightarrow> logger" where
  "ContextdPluginLogger ndebug =
     \<lparr>minP = (if ndebug then NOTIFY_INFO else NOTIFY_DEBUG), lg_syslog = [], lg_notified = []\<rparr>"

fun log_level :: "priority \<Rightarrow> int" where
  "log_level NOTIFY_DEBUG = LOG_DEBUG"
| "log_level NOTIFY_INFO = LOG_INFO"
| "log_level NOTIFY_ERROR = LOG_ERR"
| "log_level NOTIFY_CRITICAL = LOG_CRIT"
| "log_level NOTIFY_NORMAL = LOG_NOTICE"

definition log_line :: "int \<Rightarrow> string \<Rightarrow> logger \<Rightarrow> logger" where
  "log_line level line l = l\<lparr>lg_syslog := lg_syslog l @ [(level, line)]\<rparr>"

definition logger_notify :: "priority \<Rightarrow> string \<Rightarrow> logger \<Rightarrow> logger" where
  "logger_notify prio msg l =
     (let l = (if priority_number prio \<ge> priority_number (minP l) then log_line (log_level prio) msg l else l)
      in if priority_number prio \<ge> LOG_CRIT then l\<lparr>lg_notified := lg_notified l @ [msg]\<rparr> else l)"

fun context_text :: "(string, string) omap \<Rightarrow> string \<Rightarrow> string" where
  "context_text [] context = context"
| "context_text ((k, v) # kvs) context =
     context_text kvs ((if context \<noteq> [] then context @ '', '' else context) @
       qargs ([CHR 0x22] @ ''%1'' @ [CHR 0x22] @ ''='' @ [CHR 0x22] @ ''%2'' @ [CHR 0x22]) [k, v])"

definition transition_line :: "framework \<Rightarrow> client \<Rightarrow> domain \<Rightarrow> string \<Rightarrow> transition \<Rightarrow> string" where
  "transition_line F c prev result t =
     app_name (cl_program c) @ '' (pid='' @ of_int_str F (cl_pid c) @ ''): '' @
     (let q = (\<lambda>s. [CHR 0x27] @ s @ [CHR 0x27]);
          context = context_text (cl_currentState c) []
      in if tn_valid t then
           if result = CONTEXT_ACCEPT
           then ''The transition from the domain '' @ q (dom_name prev) @ '' to the domain '' @ q (dom_name (tn_transit_to t)) @
             '' is accepted. Context ('' @ context @ '').''
           else ''The transition from the domain '' @ q (dom_name prev) @ '' to the domain '' @ q (dom_name (tn_transit_to t)) @
             '' is refused. Context('' @ context @ '').''
         else ''No transitions has been found from the domain '' @ q (dom_name prev) @ ''. Context('' @ context @ '').'')"

definition logger_eventHandler :: "framework \<Rightarrow> daemon \<Rightarrow> plugin_event \<Rightarrow> logger \<Rightarrow> logger" where
  "logger_eventHandler F d ev l =
     (case ev of
        NotifyEvent prio msg \<Rightarrow> logger_notify prio msg l
      | TransitionDemandEvent pid prev result t \<Rightarrow>
          log_line LOG_INFO (transition_line F (ovalue (ContextClient [] Program0 0) (clients d) pid) prev result t) l
      | RestartEvent \<Rightarrow> log_line LOG_INFO ''Got a restart event.'' l
      | ReloadEvent \<Rightarrow> l)"

section \<open>The X server\<close>

text \<open>The process of the server among the directories of \<open>/proc\<close>, and 0 if there is none.\<close>

fun getXPID :: "framework \<Rightarrow> (string \<Rightarrow> string) \<Rightarrow> string list \<Rightarrow> int" where
  "getXPID F target [] = 0"
| "getXPID F target (p # pids) =
     (if p \<noteq> [] \<and> list_all (\<lambda>c. digit_val c \<noteq> None) p \<and> target (''/proc/'' @ p @ ''/exe'') = ''/usr/bin/Xorg''
      then toInt0 F p else getXPID F target pids)"

text \<open>One round of the thread, and the rounds until it is stopped, each with what the process file system shows.\<close>

definition xorg_round :: "framework \<Rightarrow> (string \<Rightarrow> string) \<Rightarrow> string list \<Rightarrow> int \<times> daemon \<Rightarrow> int \<times> daemon" where
  "xorg_round F target pids xd =
     (let newPID = getXPID F target pids
      in if newPID \<noteq> fst xd then (newPID, sendEvent RestartEvent (snd xd)) else xd)"

definition xorg_run :: "framework \<Rightarrow> (string \<Rightarrow> string) \<times> string list \<Rightarrow> ((string \<Rightarrow> string) \<times> string list) list \<Rightarrow> daemon \<Rightarrow> int \<times> daemon" where
  "xorg_run F first rounds d = fold (\<lambda>(target, pids). xorg_round F target pids) rounds (getXPID F (fst first) (snd first), d)"

end
