(* ===== verification/Plugins_Theorems.thy ===== *)
theory Plugins_Theorems
  imports Plugins
begin

text \<open>
  What the plugins of the previous theory promise.  The modules that are loaded are specified by the meaning of the
  commands \<open>semodule -i\<close> and \<open>semodule -r\<close>, carried out in the order in which they are started.
\<close>

section \<open>Loaded modules\<close>

definition blank :: "char \<Rightarrow> bool" where
  "blank c \<longleftrightarrow> c = CHR '' '' \<or> c = CHR 0x22 \<or> c = CHR 0x09 \<or> c = CHR 0x0A \<or> c = CHR 0x0B \<or> c = CHR 0x0C \<or> c = CHR 0x0D"

definition plain :: "string \<Rightarrow> bool" where
  "plain s = list_all (\<lambda>c. \<not> blank c) s"

definition name_of_module :: "string \<Rightarrow> string" where
  "name_of_module path = (let n = file_name path in take (length n - 3) n)"

text \<open>A module has the name of its file; a command with blanks in the name of the module does not remove it.  The code does not wait
  for the commands that it starts; they are taken to succeed and to work in the order in which they are started.\<close>

definition semodule :: "string \<Rightarrow> string set \<Rightarrow> string set" where
  "semodule cmd l =
     (if take 12 cmd = ''semodule -r '' \<and> plain (drop 12 cmd) then l - {drop 12 cmd}
      else if take 13 cmd = ''semodule -i '' @ [CHR 0x22] then insert (name_of_module (butlast (drop 13 cmd))) l
      else l)"

definition loaded :: "string list \<Rightarrow> string set" where
  "loaded cmds = fold semodule cmds {}"

definition current :: "selinux \<Rightarrow> string \<Rightarrow> selinux_module" where
  "current s app = ovalue SELinux_Module0 (currentModule s) app"

definition module_ok :: "selinux_module \<Rightarrow> bool" where
  "module_ok m \<longleftrightarrow> sm_app m \<noteq> [] \<and> take 1 (modulePath m) = ''/'' \<and> str_right 3 (modulePath m) = ''.pp''"

definition selinux_wf :: "selinux \<Rightarrow> bool" where
  "selinux_wf s \<longleftrightarrow> osorted (se_modules s) \<and>
     (\<forall>app context m. ofind (se_modules s) (app, context) = Some m \<longrightarrow>
        module_ok m \<and> sm_app m = app \<and> neededContext m = context) \<and>
     (\<forall>app. current s app = SELinux_Module0 \<or>
        module_ok (current s app) \<and> sm_app (current s app) \<in> {app, ''*''})"

definition plain_modules :: "selinux \<Rightarrow> bool" where
  "plain_modules s \<longleftrightarrow> (\<forall>m \<in> set (ovals (se_modules s)). plain (modulePath m))"

definition loads_current :: "selinux \<Rightarrow> bool" where
  "loads_current s \<longleftrightarrow> (\<forall>app. plain (modulePath (current s app))) \<and>
     (\<forall>n \<in> loaded (se_commands s). \<exists>app. current s app \<noteq> SELinux_Module0 \<and> n = name_of_module (modulePath (current s app)))"

text \<open>The states that the events of a daemon lead to, whose tables of modules satisfy \<open>Q\<close>.\<close>

inductive selinux_reach :: "(selinux \<Rightarrow> bool) \<Rightarrow> selinux \<Rightarrow> bool" for Q where
  start: "ContextdPluginSELinux M file d = Inr (r, s, d') \<Longrightarrow> Q s \<Longrightarrow> selinux_reach Q s"
| event: "selinux_reach Q s \<Longrightarrow> selinux_eventHandler M file ev (s, d) = Inr (s', d') \<Longrightarrow> Q s' \<Longrightarrow> selinux_reach Q s'"

lemma module_ok_path [simp]: "module_ok m \<Longrightarrow> modulePath m \<noteq> []" "\<not> module_ok SELinux_Module0"
  by (auto simp: module_ok_def SELinux_Module0_def)

lemma loaded_snoc: "loaded (cmds @ [cmd]) = semodule cmd (loaded cmds)"
  by (simp add: loaded_def)

lemma plain_name_of_module: "plain p \<Longrightarrow> plain (name_of_module p)"
  by (auto simp: plain_def name_of_module_def file_name_def list_all_iff Let_def
      dest!: in_set_takeD set_takeWhileD)

lemma semodule_remove: "plain n \<Longrightarrow> semodule (''semodule -r '' @ n) l = l - {n}"
  by (simp add: semodule_def)

lemma semodule_install:
  "semodule (''semodule -i '' @ [CHR 0x22] @ p @ [CHR 0x22]) l = insert (name_of_module p) l"
  by (simp add: semodule_def)

text \<open>What loading a module does: the commands it starts, and the module that is current afterwards.\<close>

definition load_commands :: "string \<Rightarrow> string \<Rightarrow> string list" where
  "load_commands old_path path =
     (if old_path \<noteq> [] then [''semodule -r '' @ name_of_module old_path] else []) @
     [''semodule -i '' @ [CHR 0x22] @ path @ [CHR 0x22]]"

lemma loadTheRightModule_effect:
  assumes "loadTheRightModule prog dm (s, d) = (s', d')"
  defines "m \<equiv> getModule (app_name prog) (dom_name dm) s"
  defines "changed \<equiv> m \<noteq> SELinux_Module0 \<and> modulePath (current s (app_name prog)) \<noteq> modulePath m"
  shows "se_modules s' = se_modules s" "core d' = core d"
    and "current s' = (if changed then (current s)(app_name prog := m) else current s)"
    and "se_commands s' = se_commands s @
           (if changed then load_commands (modulePath (current s (app_name prog))) (modulePath m) else [])"
proof -
  have c: "ovalue SELinux_Module0 (snd (oindex SELinux_Module0 a mp)) b = ovalue SELinux_Module0 mp b" for a b mp
    by (simp add: ovalue_def ofind_oindex split: option.split)
  note d = loadTheRightModule_def m_def [symmetric] loadModule_def Let_def case_prod_beta oindex_value c current_def load_commands_def
    name_of_module_def selinux_exec_def
  show "se_modules s' = se_modules s" "core d' = core d"
    using assms(1) by (auto simp: d split: if_splits)
  show "current s' = (if changed then (current s)(app_name prog := m) else current s)"
    using assms(1) by (auto simp: d changed_def fun_eq_iff ovalue_def ofind_oindex split: if_splits option.splits)
  show "se_commands s' = se_commands s @
      (if changed then load_commands (modulePath (current s (app_name prog))) (modulePath m) else [])"
    using assms(1) by (auto simp: d changed_def split: if_splits)
qed

lemma getModule_cases:
  "getModule app context s = SELinux_Module0 \<or>
   (\<exists>a \<in> {app, ''*''}. ofind (se_modules s) (a, context) = Some (getModule app context s))"
  by (auto simp: getModule_def ovalue_def ocontains_def split: option.splits)

lemma loaded_load_commands:
  assumes "plain old_path"
  shows "loaded (cmds @ load_commands old_path path) =
    insert (name_of_module path) (loaded cmds - (if old_path \<noteq> [] then {name_of_module old_path} else {}))"
proof -
  have "loaded (cmds @ [a, b]) = semodule b (semodule a (loaded cmds))" for a b
    by (simp add: loaded_def)
  then show ?thesis
    using semodule_remove [OF plain_name_of_module [OF assms]] semodule_install [of path]
    by (simp add: load_commands_def loaded_snoc)
qed

lemma loadTheRightModule_wf:
  assumes "loadTheRightModule prog dm (s, d) = (s', d')" "selinux_wf s"
  shows "selinux_wf s'"
proof -
  note e = loadTheRightModule_effect [OF assms(1)]
  have "getModule (app_name prog) (dom_name dm) s = SELinux_Module0 \<or>
      module_ok (getModule (app_name prog) (dom_name dm) s) \<and>
      sm_app (getModule (app_name prog) (dom_name dm) s) \<in> {app_name prog, ''*''}"
    using getModule_cases [of "app_name prog" "dom_name dm" s] assms(2) by (auto simp: selinux_wf_def)
  then show ?thesis
    using assms(2) by (auto simp: selinux_wf_def e(1,3))
qed

lemma loadTheRightModule_loads:
  assumes "loadTheRightModule prog dm (s, d) = (s', d')" "selinux_wf s" "plain_modules s" "loads_current s"
  shows "loads_current s'"
proof (cases "getModule (app_name prog) (dom_name dm) s \<noteq> SELinux_Module0 \<and>
    modulePath (current s (app_name prog)) \<noteq> modulePath (getModule (app_name prog) (dom_name dm) s)")
  case False
  then have "current s' = current s" "se_commands s' = se_commands s"
    using loadTheRightModule_effect(3,4) [OF assms(1)] by (auto split: if_splits)
  then show ?thesis
    using assms(4) by (simp add: loads_current_def)
next
  case True
  define m where "m = getModule (app_name prog) (dom_name dm) s"
  define a where "a = app_name prog"
  have cur: "current s' = (current s)(a := m)"
    and cmds: "se_commands s' = se_commands s @ load_commands (modulePath (current s a)) (modulePath m)"
    using loadTheRightModule_effect(3,4) [OF assms(1)] True by (auto simp: m_def a_def)
  have "plain (modulePath m)"
    using getModule_cases [of a "dom_name dm" s] True assms(2,3) ovals_iff [of "se_modules s"]
    unfolding m_def a_def plain_modules_def selinux_wf_def by blast
  then have p: "plain (modulePath (current s' app))" for app
    using assms(4) by (simp add: loads_current_def cur)
  have l: "loaded (se_commands s') = insert (name_of_module (modulePath m))
      (loaded (se_commands s) - (if modulePath (current s a) \<noteq> [] then {name_of_module (modulePath (current s a))} else {}))"
    using loaded_load_commands assms(4) unfolding cmds loads_current_def by blast
  have "\<exists>app. current s' app \<noteq> SELinux_Module0 \<and> n = name_of_module (modulePath (current s' app))"
    if n: "n \<in> loaded (se_commands s')" for n
  proof (cases "n = name_of_module (modulePath m)")
    case True
    then show ?thesis
      using \<open>_ \<and> _\<close> by (intro exI [of _ a]) (simp add: cur m_def a_def)
  next
    case False
    then obtain app where app: "current s app \<noteq> SELinux_Module0" "n = name_of_module (modulePath (current s app))"
      using n assms(4) by (auto simp: l loads_current_def)
    moreover have "app \<noteq> a"
      using n False app assms(2) unfolding l selinux_wf_def by (auto split: if_splits)
    ultimately show ?thesis
      by (intro exI [of _ app]) (simp add: cur)
  qed
  with p show ?thesis
    by (simp add: loads_current_def)
qed

lemma fold_loadTheRightModule:
  assumes "fold (\<lambda>p. loadTheRightModule p dm) ps (s, d) = (s', d')" "selinux_wf s"
  shows "selinux_wf s' \<and> se_modules s' = se_modules s \<and> (plain_modules s \<and> loads_current s \<longrightarrow> loads_current s')"
  using assms
proof (induction ps arbitrary: s d)
  case (Cons p ps)
  obtain s1 d1 where 1: "loadTheRightModule p dm (s, d) = (s1, d1)"
    by fastforce
  then have "se_modules s1 = se_modules s" "selinux_wf s1"
    using loadTheRightModule_effect(1) loadTheRightModule_wf Cons.prems by blast+
  then show ?case
    using Cons.IH [of s1 d1] Cons.prems 1 loadTheRightModule_loads [OF 1] by (auto simp: plain_modules_def)
qed simp

text \<open>Reading the file changes the table only.\<close>

lemma selinux_wf_add:
  assumes "selinux_wf s" "module_ok m"
  shows "selinux_wf (s\<lparr>se_modules := oinsert (sm_app m, neededContext m) m (se_modules s)\<rparr>)"
  using assms by (simp add: selinux_wf_def current_def osorted_oinsert)

lemma selinux_on_event_effect:
  assumes "selinux_on_event M e (s, d) = (s', d')" "selinux_wf s"
  shows "selinux_wf s' \<and> currentModule s' = currentModule s \<and> se_commands s' = se_commands s"
proof (cases "s' = s")
  case False
  then obtain tag attributes where e: "e = TagOpen tag attributes"
    using assms(1) by (cases e) auto
  define m where "m = \<lparr>modulePath = ovalue [] attributes ''full_path'', sm_app = ovalue [] attributes ''app_name'',
    neededContext = ovalue [] attributes ''context''\<rparr>"
  have "module_ok m" "s' = s\<lparr>se_modules := oinsert (sm_app m, neededContext m) m (se_modules s)\<rparr>"
    using assms(1) False by (auto simp: e selinux_tag_open_def Let_def module_ok_def m_def split: if_splits)
  then show ?thesis
    using selinux_wf_add [OF assms(2)] by simp
qed (use assms in simp)

lemma selinux_events_effect:
  assumes "fold (selinux_on_event M) es (s, d) = (s', d')" "selinux_wf s"
  shows "selinux_wf s' \<and> currentModule s' = currentModule s \<and> se_commands s' = se_commands s"
  using assms
proof (induction es arbitrary: s d)
  case (Cons e es)
  obtain s1 d1 where "selinux_on_event M e (s, d) = (s1, d1)"
    by fastforce
  then show ?case
    using Cons.IH [of s1 d1] Cons.prems selinux_on_event_effect [of M e s d s1 d1] by simp
qed simp

lemma selinux_readConf_effect:
  assumes "selinux_readConf M file (s, d) = Inr (r, s', d')" "selinux_wf s"
  shows "selinux_wf s' \<and> currentModule s' = currentModule s \<and> se_commands s' = se_commands s"
proof (cases "file")
  case None
  then show ?thesis
    using assms by (simp add: selinux_readConf_def)
next
  case (Some xml)
  then obtain result p where p: "parse xml ((se_parser s)\<lparr>events := []\<rparr>) = Inr (result, p)"
    using assms(1) by (auto simp: selinux_readConf_def bind_fault_Inr_iff)
  obtain s1 d1 where 1: "fold (selinux_on_event M) (events p) (s\<lparr>se_modules := [], se_parser := p\<rparr>, d) = (s1, d1)"
    by fastforce
  have "selinux_wf (s\<lparr>se_modules := [], se_parser := p\<rparr>)"
    using assms(2) by (simp add: selinux_wf_def current_def)
  then show ?thesis
    using selinux_events_effect [OF 1] assms(1) Some p 1 by (auto simp: selinux_readConf_def split: if_splits)
qed

lemma selinux_reach_inv:
  assumes "selinux_reach Q s"
  shows "selinux_wf s \<and> (Q \<le> plain_modules \<longrightarrow> loads_current s)"
  using assms
proof induction
  case (start M fl d r s d')
  define s0 where "s0 = \<lparr>se_modules = [], currentModule = [], se_parser = Parser, se_commands = []\<rparr>"
  have "selinux_wf s0"
    by (simp add: selinux_wf_def s0_def current_def ovalue_def)
  moreover have "selinux_readConf M fl (s0, d) = Inr (r, s, d')"
    using start by (simp add: ContextdPluginSELinux_def s0_def)
  ultimately have "selinux_wf s \<and> currentModule s = [] \<and> se_commands s = []"
    using selinux_readConf_effect [of M fl s0 d r s d'] by (simp add: s0_def)
  then show ?case
    by (simp add: loads_current_def loaded_def current_def ovalue_def SELinux_Module0_def plain_def)
next
  case (event s M fl ev d s' d')
  have keeps: "selinux_wf s' \<and> (Q \<le> plain_modules \<longrightarrow> loads_current s')"
    if "selinux_wf s'" "currentModule s' = currentModule s" "se_commands s' = se_commands s" for s'
    using that event.IH by (simp add: loads_current_def current_def)
  have plain: "Q \<le> plain_modules \<Longrightarrow> se_modules s' = se_modules s \<Longrightarrow> plain_modules s" for s'
    using event.hyps(3) event.hyps(1) by (auto elim: selinux_reach.cases simp: le_fun_def)
  show ?case
  proof (cases ev)
    case (TransitionDemandEvent pid prev result t)
    then show ?thesis
      using event.hyps(2) event.IH loadTheRightModule_wf loadTheRightModule_loads plain keeps
        loadTheRightModule_effect(1)
      by (cases "result = CONTEXT_ACCEPT") (fastforce simp: selinux_eventHandler_def)+
  next
    case RestartEvent
    then have "fold (\<lambda>p. loadTheRightModule p (default_domain (conf d))) (programList (conf d)) (s, d) = (s', d')"
      using event.hyps(2) by (simp add: selinux_eventHandler_def Let_def)
    then show ?thesis
      using fold_loadTheRightModule event.IH plain by blast
  next
    case ReloadEvent
    then obtain r where "selinux_readConf M fl (s, d) = Inr (r, s', d')"
      using event.hyps(2) by (auto simp: selinux_eventHandler_def bind_fault_Inr_iff)
    then show ?thesis
      using selinux_readConf_effect event.IH keeps by blast
  qed (use event in \<open>auto simp: selinux_eventHandler_def\<close>)
qed

section \<open>The X server\<close>

lemma send_restart:
  "c_domain (send_to ps RestartEvent d) = (if ''domainHolder'' \<in> set ps then dh_default d else c_domain d)"
  "dh_default (send_to ps RestartEvent d) = dh_default d" "plugins (send_to ps RestartEvent d) = plugins d"
  by (induction ps arbitrary: d)
    (auto simp: Let_def holder_eventHandler_def setCurrentDomain_def sendNotification_def send_message_def)

lemma xorg_rounds:
  "fst (fold (\<lambda>(target, pids). xorg_round F target pids) rounds (x, d)) =
     last (x # map (\<lambda>(target, pids). getXPID F target pids) rounds)"
  "''domainHolder'' \<in> set (plugins d) \<Longrightarrow>
   c_domain (snd (fold (\<lambda>(target, pids). xorg_round F target pids) rounds (x, d))) =
     (if \<forall>(target, pids) \<in> set rounds. getXPID F target pids = x then c_domain d else dh_default d)"
  "dh_default (snd (fold (\<lambda>(target, pids). xorg_round F target pids) rounds (x, d))) = dh_default d"
  by (induction rounds arbitrary: x d) (auto simp: xorg_round_def Let_def sendEvent_def send_restart)

lemma getXPID_is_server:
  "getXPID F target pids = 0 \<or>
   (\<exists>p \<in> set pids. getXPID F target pids = toInt0 F p \<and> target (''/proc/'' @ p @ ''/exe'') = ''/usr/bin/Xorg'')"
  by (induction pids) auto

section \<open>The log\<close>

fun separated :: "string list \<Rightarrow> string" where
  "separated [] = []"
| "separated [i] = i"
| "separated (i # is) = i @ '', '' @ separated is"

abbreviation context_item :: "string \<times> string \<Rightarrow> string" where
  "context_item kv \<equiv> qargs ([CHR 0x22] @ ''%1'' @ [CHR 0x22] @ ''='' @ [CHR 0x22] @ ''%2'' @ [CHR 0x22]) [fst kv, snd kv]"

lemma context_text_append:
  "context \<noteq> [] \<Longrightarrow> context_text kvs context = separated (context # map context_item kvs)"
proof (induction kvs arbitrary: "context")
  case (Cons kv kvs)
  have "separated ((a @ '', '' @ b) # is) = separated (a # b # is)" for a b "is"
    by (cases "is") simp_all
  then show ?case
    using Cons by (cases kv) simp
qed simp

lemma notified_from_normal:
  "lg_notified (logger_notify prio msg l) =
     lg_notified l @ (if prio \<in> {NOTIFY_DEBUG, NOTIFY_INFO} then [] else [msg])"
  by (cases prio) (simp_all add: logger_notify_def log_line_def)

section \<open>Properties\<close>

definition sample_modules :: string where
  "sample_modules =
     (let q = (\<lambda>s. [CHR 0x22] @ s @ [CHR 0x22])
      in ''<PIGA_SELinux_Plugin><module app_name='' @ q ''*'' @ '' context='' @ q ''web'' @ '' full_path='' @ q ''/m/web.pp'' @
         ''/><module app_name='' @ q ''*'' @ '' context='' @ q ''mail'' @ '' full_path='' @ q ''/m/mail.pp'' @ ''/></PIGA_SELinux_Plugin>'')"

definition web_module :: selinux_module where
  "web_module = \<lparr>modulePath = ''/m/web.pp'', sm_app = ''*'', neededContext = ''web''\<rparr>"

definition mail_module :: selinux_module where
  "mail_module = \<lparr>modulePath = ''/m/mail.pp'', sm_app = ''*'', neededContext = ''mail''\<rparr>"

definition irc :: program where
  "irc = sample_program\<lparr>app_name := ''irc''\<rparr>"

text \<open>Two programs in the domain \<open>web\<close>, one there from the start and one that has just moved there.\<close>

definition two_programs :: "selinux \<Rightarrow> bool" where
  "two_programs s \<longleftrightarrow> se_modules s = [((''*'', ''mail''), mail_module), ((''*'', ''web''), web_module)] \<and>
     current s = (\<lambda>_. SELinux_Module0)(''mutt'' := web_module, ''irc'' := web_module) \<and>
     se_commands s = replicate 2 (''semodule -i '' @ [CHR 0x22] @ ''/m/web.pp'' @ [CHR 0x22])"

lemma modules_read:
  "(case ContextdPluginSELinux (\<lambda>e line col. []) (Some sample_modules) sample_daemon of
      Inr (r, s, d) \<Rightarrow> se_modules s = [((''*'', ''mail''), mail_module), ((''*'', ''web''), web_module)] \<and>
        currentModule s = [] \<and> se_commands s = []
    | Inl f \<Rightarrow> False)"
  by code_simp

lemma load_web:
  assumes "loadTheRightModule prog (sample_domain ''web'') (s, d) = (s', d')"
    and "se_modules s = [((''*'', ''mail''), mail_module), ((''*'', ''web''), web_module)]"
    and "app_name prog \<noteq> ''*''" and "current s (app_name prog) = SELinux_Module0"
  shows "se_modules s' = se_modules s \<and> current s' = (current s)(app_name prog := web_module) \<and>
    se_commands s' = se_commands s @ [''semodule -i '' @ [CHR 0x22] @ ''/m/web.pp'' @ [CHR 0x22]]"
proof -
  have "getModule (app_name prog) (dom_name (sample_domain ''web'')) s = web_module"
    using assms(2,3) by (simp add: getModule_def ocontains_def ovalue_def sample_domain_def Domain_def)
  then show ?thesis
    using loadTheRightModule_effect [OF assms(1)] assms(4)
    by (simp add: web_module_def SELinux_Module0_def load_commands_def)
qed

lemma two_programs_reached: "\<exists>s. selinux_reach plain_modules s \<and> two_programs s"
proof -
  let ?M = "\<lambda>(e::xml_error) (line::int) (col::int). [] :: string"
  let ?t = "[((''*'', ''mail''), mail_module), ((''*'', ''web''), web_module)]"
  have plain: "se_modules s = ?t \<Longrightarrow> plain_modules s" for s
    by (simp add: plain_modules_def plain_def blank_def web_module_def mail_module_def)
  obtain r s d where 0: "ContextdPluginSELinux ?M (Some sample_modules) sample_daemon = Inr (r, s, d)"
    and s: "se_modules s = ?t" "currentModule s = []" "se_commands s = []"
    using modules_read by (auto split: sum.splits)
  have cur: "current s = (\<lambda>_. SELinux_Module0)"
    by (simp add: fun_eq_iff current_def ovalue_def s)
  have reach: "selinux_reach plain_modules s"
    using selinux_reach.start [OF 0] plain s by blast
  obtain s1 d1 where 1: "loadTheRightModule sample_program (sample_domain ''web'') (s, sample_daemon) = (s1, d1)"
    by fastforce
  have "app_name sample_program = ''mutt''" "programList (conf sample_daemon) = [sample_program]"
    "default_domain (conf sample_daemon) = sample_domain ''web''"
    by code_simp+
  note sample = this
  have s1: "se_modules s1 = ?t" "current s1 = (\<lambda>_. SELinux_Module0)(''mutt'' := web_module)"
    "se_commands s1 = [''semodule -i '' @ [CHR 0x22] @ ''/m/web.pp'' @ [CHR 0x22]]"
    using load_web [OF 1 s(1)] s cur sample(1) by simp_all
  have "selinux_eventHandler ?M None RestartEvent (s, sample_daemon) = Inr (s1, d1)"
    using 1 by (simp add: selinux_eventHandler_def Let_def sample)
  then have reach: "selinux_reach plain_modules s1"
    using selinux_reach.event [OF reach] plain s1(1) by blast
  define d2 where "d2 = sample_daemon\<lparr>clients := [(6, ContextClient ''b'' irc 6)]\<rparr>"
  obtain s2 d3 where 2: "loadTheRightModule irc (sample_domain ''web'') (s1, d2) = (s2, d3)"
    by fastforce
  have s2: "se_modules s2 = ?t" "two_programs s2"
    using load_web [OF 2 s1(1)] s1 by (simp_all add: irc_def two_programs_def numeral_2_eq_2)
  have "selinux_eventHandler ?M None (TransitionDemandEvent 6 (sample_domain ''mail'') CONTEXT_ACCEPT
      (Transition irc (sample_domain ''mail'') (sample_domain ''web'') False True)) (s1, d2) = Inr (s2, d3)"
    using 2 by (simp add: selinux_eventHandler_def d2_def ovalue_def ContextClient_def Transition_def)
  then show ?thesis
    using selinux_reach.event [OF reach] plain s2 by blast
qed

text \<open>
  C26: whatever the file and the events, the module that the plugin keeps for a program and a domain names that program and
  that domain and is an absolute path to a module file; the module that is current for a program is empty or such a
  module, of that program or of all programs.
\<close>

theorem selinux_modules_typed:
  assumes "selinux_reach Q s"
  shows "(((app, context), m) \<in> set (se_modules s) \<longrightarrow> sm_app m = app \<and> neededContext m = context \<and> module_ok m) \<and>
    (current s app = SELinux_Module0 \<or> module_ok (current s app) \<and> sm_app (current s app) \<in> {app, ''*''})"
  using selinux_reach_inv [OF assms] om.entry_iff [of "se_modules s" "(app, context)" m]
  unfolding selinux_wf_def by blast

theorem selinux_modules_typed_witness:
  "\<exists>s. two_programs s \<and> ((''*'', ''web''), web_module) \<in> set (se_modules s) \<and> module_ok web_module \<and>
     sm_app (current s ''irc'') \<in> {''irc'', ''*''}"
proof -
  obtain s where s: "selinux_reach plain_modules s" "two_programs s"
    using two_programs_reached by blast
  then have "((''*'', ''web''), web_module) \<in> set (se_modules s)" "current s ''irc'' \<noteq> SELinux_Module0"
    by (simp_all add: two_programs_def web_module_def SELinux_Module0_def)
  then show ?thesis
    using selinux_modules_typed [OF s(1)] s(2) by blast
qed

text \<open>
  C25: as long as no file of a module has a blank in its path, every module that the commands of the plugin have loaded is
  the current module of some program: the plugin removes the module of the domain that a program leaves.
\<close>

theorem loaded_modules_are_current:
  assumes "selinux_reach plain_modules s" and "n \<in> loaded (se_commands s)"
  shows "\<exists>app. module_ok (current s app) \<and> n = name_of_module (modulePath (current s app))"
  using selinux_reach_inv [OF assms(1)] assms(2) unfolding selinux_wf_def loads_current_def by fast

theorem loaded_modules_are_current_witness:
  "\<exists>s. two_programs s \<and> ''web'' \<in> loaded (se_commands s) \<and>
     (\<exists>app. module_ok (current s app) \<and> ''web'' = name_of_module (modulePath (current s app)))"
proof -
  obtain s where s: "selinux_reach plain_modules s" "two_programs s"
    using two_programs_reached by blast
  then have "loaded (se_commands s) = {name_of_module ''/m/web.pp''}"
    using semodule_install [of "''/m/web.pp''"] by (simp add: two_programs_def loaded_def numeral_2_eq_2)
  also have "\<dots> = {''web''}"
    by (simp add: name_of_module_def file_name_def)
  finally show ?thesis
    using loaded_modules_are_current [OF s(1), of "''web''"] s(2) by blast
qed

lemma same_module_not_loaded:
  assumes "modulePath (getModule (app_name prog) (dom_name dm) s) = modulePath (current s (app_name prog))"
  shows "se_commands (fst (loadTheRightModule prog dm (s, d))) = se_commands s"
  using assms by (simp add: loadTheRightModule_def Let_def case_prod_beta oindex_value current_def)

text \<open>
  C38: a module that two programs share is removed as soon as one of them moves to a domain with another module, although it
  stays the current module of the other program; and a transition of the other program into any domain with a module of this path then
  starts no command, so that the module is not loaded for it again while it moves between such domains.  (The names of the two
  modules differ, the modules of the configuration have paths without blanks, and the commands are taken to work in the order in
  which they are started.)
\<close>

theorem shared_module_is_unloaded:
  assumes "selinux_reach plain_modules s" and "current s (app_name prog) = current s other" and "other \<noteq> app_name prog"
    and "current s other \<noteq> SELinux_Module0"
    and "getModule (app_name prog) (dom_name dm) s \<noteq> SELinux_Module0"
    and "name_of_module (modulePath (getModule (app_name prog) (dom_name dm) s)) \<noteq>
      name_of_module (modulePath (current s other))"
    and "loadTheRightModule prog dm (s, d) = (s', d')"
  shows "current s' other = current s other \<and> name_of_module (modulePath (current s' other)) \<notin> loaded (se_commands s') \<and>
    (\<forall>prog2 dm2 d2. app_name prog2 = other \<and> modulePath (getModule other (dom_name dm2) s') = modulePath (current s' other) \<longrightarrow>
       se_commands (fst (loadTheRightModule prog2 dm2 (s', d2))) = se_commands s')"
proof -
  have inv: "selinux_wf s" "plain (modulePath (current s other))"
    using selinux_reach_inv [OF assms(1)] by (auto simp: loads_current_def)
  then have "modulePath (current s other) \<noteq> []"
    using assms(4) by (auto simp: selinux_wf_def)
  then show ?thesis
    using loadTheRightModule_effect(3,4) [OF assms(7)] assms(2,3,5,6) loaded_load_commands [OF inv(2)]
    by (auto simp: same_module_not_loaded)
qed

theorem shared_module_is_unloaded_witness:
  "\<exists>s. two_programs s \<and> (\<forall>s' d'. loadTheRightModule sample_program (sample_domain ''mail'') (s, sample_daemon) = (s', d') \<longrightarrow>
     current s' ''irc'' = web_module \<and> name_of_module (modulePath web_module) \<notin> loaded (se_commands s'))"
proof -
  obtain s where s: "selinux_reach plain_modules s" "two_programs s"
    using two_programs_reached by blast
  have n: "app_name sample_program = ''mutt''" "dom_name (sample_domain ''mail'') = ''mail''"
    by code_simp+
  have g: "getModule ''mutt'' ''mail'' s = mail_module"
    using s(2) by (simp add: two_programs_def getModule_def ocontains_def ovalue_def)
  have "current s' ''irc'' = web_module \<and> name_of_module (modulePath web_module) \<notin> loaded (se_commands s')"
    if "loadTheRightModule sample_program (sample_domain ''mail'') (s, sample_daemon) = (s', d')" for s' d'
    using shared_module_is_unloaded [OF s(1) _ _ _ _ _ that, of "''irc''"] s(2)
    by (auto simp: n g two_programs_def web_module_def mail_module_def SELinux_Module0_def name_of_module_def file_name_def)
  with s(2) show ?thesis
    by blast
qed

text \<open>
  While nothing else happens, the thread that watches the X server leaves the daemon in its default domain exactly if
  the process of the server was another one in some round than at the start, and in the domain it was in otherwise.
\<close>

theorem x_server_change_resets_domain:
  assumes "''domainHolder'' \<in> set (plugins d)"
  shows "c_domain (snd (xorg_run F (target, pids) rounds d)) =
    (if \<exists>(target', pids') \<in> set rounds. getXPID F target' pids' \<noteq> getXPID F target pids
     then dh_default d else c_domain d)"
  using xorg_rounds(2) [OF assms, of F rounds "getXPID F target pids"] unfolding xorg_run_def by auto

theorem x_server_change_resets_domain_witness:
  "c_domain (snd (xorg_run simple_framework (\<lambda>_. [], [''1'']) [(\<lambda>_. ''/usr/bin/Xorg'', [''self'', ''7''])]
     (sample_daemon\<lparr>c_domain := sample_domain ''mail''\<rparr>))) = sample_domain ''web''"
proof -
  have "''domainHolder'' \<in> set (plugins (sample_daemon\<lparr>c_domain := sample_domain ''mail''\<rparr>))"
    and "getXPID simple_framework (\<lambda>_. ''/usr/bin/Xorg'') [''self'', ''7''] = 7" "getXPID simple_framework (\<lambda>_. []) [''1''] = 0"
    by code_simp+
  then show ?thesis
    using x_server_change_resets_domain [of "sample_daemon\<lparr>c_domain := sample_domain ''mail''\<rparr>"]
    by (simp add: sample_daemon_def)
qed

end
