(* ===== verification/Editor_Warnings.thy ===== *)
theory Editor_Warnings
  imports Configuration_Theorems
begin

text \<open>
  The warnings of the configuration editor (\<open>warning.h\<close>, and \<open>onUpdateWarnings\<close> of \<open>configurationstack.cpp\<close>): domains
  and rules that the transitions never reach, rules that others bypass, rules of unknown programs or with data that their
  program does not know, and rules that lead to a less confidential or less reliable domain.

  The sources handle rules through pointers to copies of one list of all rules; here a rule is its own
  reference.  The set of reached domains is a list without duplicates, and nothing depends on its order.
\<close>

section \<open>Warnings\<close>

datatype warning =
    UnreachableDomainWarning string
  | BypassRuleWarning int domain "(string, int list) omap"
  | UnreachableRuleWarning int
  | UnknownProgramRuleWarning int
  | InvalidMRuleRuleWarning int
  | UndefinedMRuleRuleWarning int
  | ConfidentialityLossRuleWarning int
  | ReliabilityLossRuleWarning int

fun warningType :: "warning \<Rightarrow> nat" where
  "warningType (BypassRuleWarning i source bypassed) = 2"
| "warningType (UnreachableDomainWarning name) = 4"
| "warningType (UnreachableRuleWarning i) = 4"
| "warningType (UnknownProgramRuleWarning i) = 8"
| "warningType (InvalidMRuleRuleWarning i) = 16"
| "warningType (UndefinedMRuleRuleWarning i) = 32"
| "warningType (ConfidentialityLossRuleWarning i) = 128"
| "warningType (ReliabilityLossRuleWarning i) = 256"

text \<open>What the settings of the editor say.\<close>

record editor_config =
  maxStackSize :: int
  unreachableDomainWarn :: bool
  unreachableRuleWarn :: bool
  bypassedRuleWarn :: bool
  unknownProgramWarn :: bool
  undefinedActionWarn :: bool
  invalidMRuleWarn :: bool
  confidentialityLossRuleWarn :: bool
  reliabilityLossRuleWarn :: bool

type_synonym rule_warnings = "(int, warning list) omap"

definition append_at :: "'k::linorder \<Rightarrow> 'v \<Rightarrow> ('k, 'v list) omap \<Rightarrow> ('k, 'v list) omap" where
  "append_at k v m = oinsert k (ovalue [] m k @ [v]) m"

section \<open>Reached domains\<close>

fun arule_sources :: "framework \<Rightarrow> configuration \<Rightarrow> arule \<Rightarrow> string list" where
  "arule_sources F c (ALoop l) = matchedDomainNames F l (domainNameList c)"
| "arule_sources F c (ARule r) = matchedDomainNames F r (domainNameList c)"

definition sourceDomains :: "framework \<Rightarrow> configuration \<Rightarrow> (string, arule list) omap" where
  "sourceDomains F c =
     fold (\<lambda>ar. fold (\<lambda>name. append_at name ar) (arule_sources F c ar)) (allAbstractRules False c) []"

fun scan_rules :: "arule list \<Rightarrow> string list \<times> string list \<Rightarrow> string list \<times> string list" where
  "scan_rules [] sr = sr"
| "scan_rules (ALoop l # as) sr = scan_rules as sr"
| "scan_rules (ARule r # as) (toScan, reached) =
     scan_rules as
       (if dom_name (transit_to r) \<notin> set reached
        then (toScan @ [dom_name (transit_to r)], reached @ [dom_name (transit_to r)])
        else (toScan, reached))"

fun rule_targets :: "arule list \<Rightarrow> string set" where
  "rule_targets [] = {}"
| "rule_targets (ALoop l # as) = rule_targets as"
| "rule_targets (ARule r # as) = insert (dom_name (transit_to r)) (rule_targets as)"

lemma finite_rule_targets [simp]: "finite (rule_targets as)"
  by (induction as rule: rule_targets.induct) simp_all

text \<open>The scan of a domain puts each new target on the list once.\<close>

lemma scan_rules_new:
  "scan_rules as (toScan, reached) = (toScan', reached') \<Longrightarrow>
   \<exists>new. toScan' = toScan @ new \<and> reached' = reached @ new \<and> distinct new \<and> set new = rule_targets as - set reached"
proof (induction as arbitrary: toScan reached rule: rule_targets.induct)
  case (3 r as)
  let ?t = "dom_name (transit_to r)"
  show ?case
  proof (cases "?t \<in> set reached")
    case True
    then show ?thesis
      using 3 by auto
  next
    case False
    then have "scan_rules as (toScan @ [?t], reached @ [?t]) = (toScan', reached')"
      using "3.prems" by simp
    from "3.IH" [OF this] obtain new where new: "toScan' = (toScan @ [?t]) @ new" "reached' = (reached @ [?t]) @ new"
      "distinct new" "set new = rule_targets as - set (reached @ [?t])"
      by blast
    show ?thesis
      unfolding new(1,2) using False new(3,4) by (intro exI [of _ "?t # new"]) auto
  qed
qed simp_all

definition all_targets :: "(string, arule list) omap \<Rightarrow> string set" where
  "all_targets sd = rule_targets (concat (ovals sd))"

lemma rule_targets_append [simp]: "rule_targets (as @ bs) = rule_targets as \<union> rule_targets bs"
  by (induction as rule: rule_targets.induct) auto

lemma rule_targets_sd: "rule_targets (ovalue [] sd n) \<subseteq> all_targets sd"
  by (induction sd) (auto simp: all_targets_def ovalue_def)

function scan :: "(string, arule list) omap \<Rightarrow> string list \<Rightarrow> string list \<Rightarrow> string list" where
  "scan sd [] reached = reached"
| "scan sd (name # toScan) reached =
     (if ocontains sd name then
        let (toScan, reached) = scan_rules (ovalue [] sd name) (toScan, reached) in scan sd toScan reached
      else scan sd toScan reached)"
  by pat_completeness auto
termination
proof (relation "measure (\<lambda>(sd, toScan, reached). card (all_targets sd - set reached) + length toScan)", goal_cases)
  case (2 sd name toScan reached x toScan' reached')
  then obtain new where new: "toScan' = toScan @ new" "reached' = reached @ new" "distinct new"
    "set new = rule_targets (ovalue [] sd name) - set reached"
    using scan_rules_new by (metis prod.collapse)
  let ?A = "all_targets sd - set reached"
  have "finite ?A"
    by (simp add: all_targets_def)
  moreover have sub: "set new \<subseteq> ?A"
    using new(4) rule_targets_sd by blast
  ultimately have "card (?A - set new) = card ?A - length new" "length new \<le> card ?A"
    using distinct_card [OF new(3)] card_Diff_subset [of "set new" ?A] card_mono [of ?A "set new"] by simp_all
  moreover have "all_targets sd - set reached' = ?A - set new"
    unfolding new(2) set_append by blast
  ultimately have "card (all_targets sd - set reached') + length new = card ?A"
    by simp
  then show ?case
    by (simp add: new(1))
qed auto

definition reachedDomains :: "framework \<Rightarrow> configuration \<Rightarrow> string list" where
  "reachedDomains F c =
     (let defDom = default_domain c
      in if \<not> domain_eq defDom Domain0 then scan (sourceDomains F c) [dom_name defDom] [dom_name defDom] else [])"

section \<open>The checks\<close>

definition warn_unreached_domains ::
    "configuration \<Rightarrow> string list \<Rightarrow> (string, warning list) omap \<Rightarrow> (string, warning list) omap" where
  "warn_unreached_domains c reached m =
     fold (\<lambda>name. append_at name (UnreachableDomainWarning name))
       (fold removeAll reached (domainNameList c)) m"

text \<open>Looking up a reached domain inserts it.\<close>

definition drop_reached :: "string \<Rightarrow> (string, arule list) omap \<times> arule list \<Rightarrow> (string, arule list) omap \<times> arule list" where
  "drop_reached name su =
     (let (sd, unreached) = su; (sourceAbs, sd) = oindex [] name sd in (sd, fold removeAll sourceAbs unreached))"

definition warn_unreached_rules ::
    "arule list \<Rightarrow> string list \<Rightarrow> (string, arule list) omap \<times> rule_warnings \<Rightarrow> (string, arule list) omap \<times> rule_warnings" where
  "warn_unreached_rules abstracts reached sm =
     (let (sd, m) = sm;
          (sd, unreachedRules) = fold drop_reached reached (sd, abstracts)
      in (sd, fold (\<lambda>ar. append_at (arule_id ar) (UnreachableRuleWarning (arule_id ar))) unreachedRules m))"

fun arule_target :: "string \<Rightarrow> arule \<Rightarrow> string" where
  "arule_target key (ALoop l) = key"
| "arule_target key (ARule r) = dom_name (transit_to r)"

fun arule_app :: "arule \<Rightarrow> string" where
  "arule_app (ALoop l) = rule_key l"
| "arule_app (ARule r) = rule_key r"

fun arule_mrules :: "arule \<Rightarrow> mrule list" where
  "arule_mrules (ALoop l) = mrules l"
| "arule_mrules (ARule r) = mrules r"

fun conds_covered :: "(string, string) omap \<Rightarrow> (string, string) omap \<Rightarrow> bool" where
  "conds_covered [] otherConds = True"
| "conds_covered ((k, v) # conds) otherConds = (if \<not> ocontains otherConds k then False else conds_covered conds otherConds)"

definition note_bypass :: "arule \<Rightarrow> mrule \<times> mrule \<Rightarrow> (string, int list) omap \<Rightarrow> (string, int list) omap" where
  "note_bypass other mo bypassed =
     (let (m, om) = mo
      in if mr_action om = mr_action m \<and> conds_covered (conditions m) (conditions om) then
           let (l, bypassed) = oindex [] (mr_display_name m) bypassed
           in if arule_id other \<notin> set l then append_at (mr_display_name m) (arule_id other) bypassed else bypassed
         else bypassed)"

definition warn_bypass_pair :: "configuration \<Rightarrow> string \<Rightarrow> arule \<times> arule \<Rightarrow> rule_warnings \<Rightarrow> rule_warnings" where
  "warn_bypass_pair c key ao m =
     (let (ar, other) = ao
      in if arule_app ar = arule_app other \<and> arule_target key ar = arule_target key other then
           let bypassed = fold (note_bypass other) (List.product (arule_mrules ar) (arule_mrules other)) []
           in if bypassed \<noteq> []
              then append_at (arule_id ar) (BypassRuleWarning (arule_id ar) (getDomainByName c key) bypassed) m else m
         else m)"

text \<open>The rules from the least important, each with the rules before it from the nearest.\<close>

definition bypass_pairs :: "arule list \<Rightarrow> (arule \<times> arule) list" where
  "bypass_pairs vect = concat (map (\<lambda>i. map (\<lambda>j. (vect ! i, vect ! j)) (rev [0..<i])) (rev [0..<length vect]))"

definition warn_bypassed :: "configuration \<Rightarrow> (string, arule list) omap \<Rightarrow> rule_warnings \<Rightarrow> rule_warnings" where
  "warn_bypassed c sd m =
     fold (\<lambda>(key, vect). fold (warn_bypass_pair c key) (bypass_pairs (sort_key arule_priority vect))) sd m"

fun conds_valid :: "framework \<Rightarrow> program \<Rightarrow> string \<Rightarrow> (string, string) omap \<Rightarrow> bool" where
  "conds_valid F prog action [] = True"
| "conds_valid F prog action ((k, v) # conds) =
     (let var = getVariableByName prog k action
      in if var = ProgramVariable0 \<or> \<not> validate F var v then False else conds_valid F prog action conds)"

definition check_mrule :: "framework \<Rightarrow> editor_config \<Rightarrow> program \<Rightarrow> mrule \<Rightarrow> bool \<times> bool \<Rightarrow> bool \<times> bool" where
  "check_mrule F cfg prog mr ev =
     (let (exists, valid) = ev
      in if undefinedActionWarn cfg \<and> getActionByName prog (mr_action mr) = ProgramAction0 then (False, valid)
         else if invalidMRuleWarn cfg \<and> valid then (exists, conds_valid F prog (mr_action mr) (conditions mr))
         else (exists, valid))"

definition warn_program :: "framework \<Rightarrow> editor_config \<Rightarrow> configuration \<Rightarrow> arule \<Rightarrow> rule_warnings \<Rightarrow> rule_warnings" where
  "warn_program F cfg c ar m =
     (let prog = getProgramByName F c (arule_app ar) False; i = arule_id ar
      in if \<not> program_isValid F prog then
           if unknownProgramWarn cfg then append_at i (UnknownProgramRuleWarning i) m else m
         else
           let (exists, valid) = fold (check_mrule F cfg prog) (arule_mrules ar) (True, True);
               m = (if \<not> exists then append_at i (UndefinedMRuleRuleWarning i) m else m)
           in if \<not> valid then append_at i (InvalidMRuleRuleWarning i) m else m)"

fun loss_loop :: "domain \<Rightarrow> domain list \<Rightarrow> bool \<times> bool \<Rightarrow> bool \<times> bool" where
  "loss_loop target [] cr = cr"
| "loss_loop target (dm # doms) (confidential, reliable) =
     (if confidential \<or> reliable
      then loss_loop target doms
             (dom_confidentiality dm \<le> dom_confidentiality target, dom_reliability dm \<le> dom_reliability target)
      else (confidential, reliable))"

fun warn_loss :: "framework \<Rightarrow> editor_config \<Rightarrow> configuration \<Rightarrow> arule \<Rightarrow> rule_warnings \<Rightarrow> rule_warnings" where
  "warn_loss F cfg c (ALoop l) m = m"
| "warn_loss F cfg c (ARule r) m =
     (let (confidential, reliable) = loss_loop (transit_to r) (matchedDomains F r (domainList c)) (True, True);
          i = ar_id r;
          m = (if \<not> confidential \<and> confidentialityLossRuleWarn cfg then append_at i (ConfidentialityLossRuleWarning i) m else m)
      in if \<not> reliable \<and> reliabilityLossRuleWarn cfg then append_at i (ReliabilityLossRuleWarning i) m else m)"

text \<open>The warnings about domains and about rules.\<close>

definition onUpdateWarnings ::
    "framework \<Rightarrow> editor_config \<Rightarrow> configuration \<Rightarrow> (string, warning list) omap \<times> rule_warnings" where
  "onUpdateWarnings F cfg c =
     (let abstracts = allAbstractRules False c;
          sd = sourceDomains F c;
          reached = reachedDomains F c;
          dw = (if unreachableDomainWarn cfg then warn_unreached_domains c reached [] else []);
          (sd, rw) = (if unreachableRuleWarn cfg then warn_unreached_rules abstracts reached (sd, []) else (sd, []));
          rw = (if bypassedRuleWarn cfg then warn_bypassed c sd rw else rw);
          rw = fold (\<lambda>ar m. warn_loss F cfg c ar (warn_program F cfg c ar m)) abstracts rw
      in (dw, rw))"

section \<open>Reachability\<close>

text \<open>One step of the graph of transitions, from a known domain to the target of a rule that applies in it.\<close>

definition edge :: "framework \<Rightarrow> configuration \<Rightarrow> string \<Rightarrow> string \<Rightarrow> bool" where
  "edge F c a b \<longleftrightarrow> (\<exists>r \<in> set (allRules c). a \<in> set (domainNameList c) \<and> tRulesContain F a True r \<and> b = dom_name (transit_to r))"

definition reachable :: "framework \<Rightarrow> configuration \<Rightarrow> string \<Rightarrow> bool" where
  "reachable F c n \<longleftrightarrow> default_domain c \<noteq> Domain0 \<and> (edge F c)\<^sup>*\<^sup>* (dom_name (default_domain c)) n"

lemma ovalue_Nil [simp]: "ovalue d [] k = d"
  by (simp add: ovalue_def)

lemma ovalue_append_at: "ovalue [] (append_at k v m) k' = ovalue [] m k' @ (if k = k' then [v] else [])"
  by (simp add: append_at_def ovalue_def)

lemma ovalue_fold_append_at:
  "ovalue [] (fold (\<lambda>x. append_at (f x) (g x)) xs m) k = ovalue [] m k @ map g (filter (\<lambda>x. f x = k) xs)"
  by (induction xs arbitrary: m) (simp_all add: ovalue_append_at)

lemma set_matchedDomainNames:
  "set (matchedDomainNames F r names) = {n \<in> set names. tRulesContain F n True r}"
proof -
  have "mset (matchedDomainNames F r names) = mset (filter (\<lambda>n. tRulesContain F n True r) names)"
    using matched_domains_exact [of F r "[]" names] by blast
  then have "set (matchedDomainNames F r names) = set (filter (\<lambda>n. tRulesContain F n True r) names)"
    by (rule mset_eq_setD)
  then show ?thesis
    by simp
qed

lemma set_fold_sources:
  "set (ovalue [] (fold (\<lambda>a. fold (\<lambda>name. append_at name a) (f a)) as m) n) =
     set (ovalue [] m n) \<union> {a \<in> set as. n \<in> set (f a)}"
proof (induction as arbitrary: m)
  case (Cons a as)
  have "set (ovalue [] (fold (\<lambda>name. append_at name a) (f a) m) n) = set (ovalue [] m n) \<union> (if n \<in> set (f a) then {a} else {})"
    using ovalue_fold_append_at [of "\<lambda>x. x" "\<lambda>_. a" "f a" m n] by (auto simp: filter_empty_conv)
  then show ?case
    using Cons [of "fold (\<lambda>name. append_at name a) (f a) m"] by auto
qed simp

lemma set_sourceDomains:
  "set (ovalue [] (sourceDomains F c) n) = {a \<in> set (allAbstractRules False c). n \<in> set (arule_sources F c a)}"
  unfolding sourceDomains_def set_fold_sources by (simp add: ovalue_def)

lemma rule_targets_iff: "b \<in> rule_targets as \<longleftrightarrow> (\<exists>r. ARule r \<in> set as \<and> b = dom_name (transit_to r))"
  by (induction as rule: rule_targets.induct) auto

lemma edge_iff: "edge F c a b \<longleftrightarrow> b \<in> rule_targets (ovalue [] (sourceDomains F c) a)"
  unfolding rule_targets_iff set_sourceDomains
  by (auto simp: edge_def allAbstractRules_def allRules_def set_matchedDomainNames)

lemma reached_closure:
  assumes "name \<in> set reached" "set new \<subseteq> {b. e name b}"
  shows "{n. \<exists>a \<in> set (reached @ new). e\<^sup>*\<^sup>* a n} = {n. \<exists>a \<in> set reached. e\<^sup>*\<^sup>* a n}"
proof -
  have "\<exists>a \<in> set reached. e\<^sup>*\<^sup>* a n" if "a \<in> set new" "e\<^sup>*\<^sup>* a n" for a n
    using assms that by (intro bexI [of _ name]) (auto intro: converse_rtranclp_into_rtranclp)
  then show ?thesis
    by auto
qed

text \<open>The scan finds what can be reached: whatever is still to be scanned has been reached, and the targets of the others have.\<close>

lemma scan_reaches:
  assumes "set toScan \<subseteq> set reached"
    and "\<And>a. a \<in> set reached \<Longrightarrow> a \<notin> set toScan \<Longrightarrow> rule_targets (ovalue [] sd a) \<subseteq> set reached"
  shows "set (scan sd toScan reached) = {n. \<exists>a \<in> set reached. (\<lambda>a b. b \<in> rule_targets (ovalue [] sd a))\<^sup>*\<^sup>* a n}"
  using assms
proof (induction sd toScan reached rule: scan.induct)
  case (1 sd reached)
  have "n \<in> set reached" if "(\<lambda>a b. b \<in> rule_targets (ovalue [] sd a))\<^sup>*\<^sup>* a n" "a \<in> set reached" for a n
    using that "1.prems"(2) by (induction rule: rtranclp_induct) auto
  then show ?case
    by auto
next
  case (2 sd name toScan reached)
  show ?case
  proof (cases "ocontains sd name")
    case True
    obtain t r where tr: "scan_rules (ovalue [] sd name) (toScan, reached) = (t, r)"
      by fastforce
    then obtain new where new: "t = toScan @ new" "r = reached @ new"
      "set new = rule_targets (ovalue [] sd name) - set reached"
      using scan_rules_new by blast
    have "set t \<subseteq> set r"
      using "2.prems"(1) by (auto simp: new)
    moreover have "rule_targets (ovalue [] sd a) \<subseteq> set r" if "a \<in> set r" "a \<notin> set t" for a
      using that "2.prems"(2) [of a] new(3) by (cases "a = name") (auto simp: new(1,2))
    ultimately have "set (scan sd t r) = {n. \<exists>a \<in> set r. (\<lambda>a b. b \<in> rule_targets (ovalue [] sd a))\<^sup>*\<^sup>* a n}"
      using "2.IH"(1) [OF True refl tr [symmetric]] by blast
    moreover have "scan sd (name # toScan) reached = scan sd t r"
      using True tr by simp
    ultimately show ?thesis
      using reached_closure [of name reached new "\<lambda>a b. b \<in> rule_targets (ovalue [] sd a)"] "2.prems"(1) new(3)
      unfolding new(2) by auto
  next
    case False
    then have "rule_targets (ovalue [] sd a) \<subseteq> set reached" if "a \<in> set reached" "a \<notin> set toScan" for a
      using that "2.prems"(2) [of a] by (cases "a = name") (auto simp: ovalue_absent)
    then show ?thesis
      using "2.IH"(2) [OF False] "2.prems"(1) False by simp
  qed
qed

lemma reachedDomains_reachable: "n \<in> set (reachedDomains F c) \<longleftrightarrow> reachable F c n"
  using scan_reaches [of "[dom_name (default_domain c)]" "[dom_name (default_domain c)]" "sourceDomains F c"]
  by (auto simp: reachedDomains_def reachable_def Let_def edge_iff [abs_def])

section \<open>What the warnings say\<close>

lemma fold_removeAll: "fold removeAll xs ys = filter (\<lambda>y. y \<notin> set xs) ys"
  by (induction xs arbitrary: ys) (auto simp: removeAll_filter_not_eq intro: filter_cong)

lemma unreached_domains:
  "ovalue [] (fst (onUpdateWarnings F cfg c)) n =
     replicate (if unreachableDomainWarn cfg \<and> \<not> reachable F c n then count_list (domainNameList c) n else 0)
       (UnreachableDomainWarning n)"
proof -
  have "map UnreachableDomainWarning (filter (\<lambda>x. x = n) names) = replicate (count_list names n) (UnreachableDomainWarning n)" for names
    by (induction names) auto
  moreover have "count_list (filter P names) n = (if P n then count_list names n else 0)" for P and names :: "string list"
    by (induction names) auto
  ultimately show ?thesis
    using ovalue_fold_append_at [of "\<lambda>x. x" UnreachableDomainWarning _ "[]" n]
    by (simp add: onUpdateWarnings_def warn_unreached_domains_def Let_def case_prod_beta fold_removeAll ovalue_def reachedDomains_reachable)
qed

text \<open>Whether a pass adds a warning \<open>w\<close>: appending another warning does not.\<close>

lemma member_append_at: "v \<noteq> w \<Longrightarrow> w \<in> set (ovalue [] (append_at k v m) i) \<longleftrightarrow> w \<in> set (ovalue [] m i)"
  by (simp add: ovalue_append_at)

lemma fold_same:
  assumes "\<And>x m. x \<in> set xs \<Longrightarrow> P (f x m) = P m"
  shows "P (fold f xs m) = P m"
  using assms by (induction xs arbitrary: m) auto

lemma bypass_keeps:
  "UnreachableRuleWarning j \<in> set (ovalue [] (warn_bypassed c sd m) i) \<longleftrightarrow> UnreachableRuleWarning j \<in> set (ovalue [] m i)"
proof -
  let ?P = "\<lambda>m. UnreachableRuleWarning j \<in> set (ovalue [] m i)"
  have "?P (warn_bypass_pair c key x m) = ?P m" for key x m
    by (simp add: warn_bypass_pair_def Let_def member_append_at case_prod_beta)
  then have "?P (fold (warn_bypass_pair c key) xs m) = ?P m" for key xs m
    by (rule fold_same)
  then show ?thesis
    unfolding warn_bypassed_def by (intro fold_same) (simp add: case_prod_beta)
qed

lemma checks_keep:
  "UnreachableRuleWarning j \<in> set (ovalue [] (warn_program F cfg c a m) i) \<longleftrightarrow> UnreachableRuleWarning j \<in> set (ovalue [] m i)"
  "UnreachableRuleWarning j \<in> set (ovalue [] (warn_loss F cfg c a m) i) \<longleftrightarrow> UnreachableRuleWarning j \<in> set (ovalue [] m i)"
  by (simp_all add: warn_program_def Let_def member_append_at case_prod_beta)
    (cases a; simp add: Let_def member_append_at case_prod_beta)

lemma ovalue_oindex [simp]: "ovalue d (snd (oindex d name m)) n = ovalue d m n"
  by (simp add: ovalue_def ofind_oindex split: option.split)

lemma unreached_rules:
  "snd (fold drop_reached reached (sd, as)) = filter (\<lambda>a. \<forall>n \<in> set reached. a \<notin> set (ovalue [] sd n)) as"
  by (induction reached arbitrary: sd as)
    (simp_all add: drop_reached_def Let_def case_prod_beta oindex_value fold_removeAll conj_commute)

lemma unreached_rules_warned:
  "UnreachableRuleWarning i \<in> set (ovalue [] (snd (onUpdateWarnings F cfg c)) i) \<longleftrightarrow>
     unreachableRuleWarn cfg \<and>
     (\<exists>a \<in> set (allAbstractRules False c). arule_id a = i \<and> (\<forall>n \<in> set (arule_sources F c a). \<not> reachable F c n))"
proof -
  define rw where "rw = snd (warn_unreached_rules (allAbstractRules False c) (reachedDomains F c) (sourceDomains F c, []))"
  have "UnreachableRuleWarning i \<in> set (ovalue [] rw i) \<longleftrightarrow>
      (\<exists>a \<in> set (allAbstractRules False c). arule_id a = i \<and> (\<forall>n \<in> set (arule_sources F c a). \<not> reachable F c n))"
    using ovalue_fold_append_at [of arule_id "\<lambda>a. UnreachableRuleWarning (arule_id a)" _ "[]" i]
    by (auto simp: rw_def warn_unreached_rules_def Let_def case_prod_beta unreached_rules set_sourceDomains
        reachedDomains_reachable)
  moreover have "UnreachableRuleWarning i \<in> set (ovalue [] (snd (onUpdateWarnings F cfg c)) i) \<longleftrightarrow>
      UnreachableRuleWarning i \<in> set (ovalue [] (if unreachableRuleWarn cfg then rw else []) i)"
    unfolding onUpdateWarnings_def Let_def case_prod_beta snd_conv
    by (subst fold_same [where P = "\<lambda>m. UnreachableRuleWarning i \<in> set (ovalue [] m i)"])
      (simp_all add: checks_keep bypass_keeps rw_def)
  ultimately show ?thesis
    by simp
qed

section \<open>Transitions follow the graph\<close>

lemma first_match_valid: "first_match f rs = (t, b) \<Longrightarrow> tn_valid t \<Longrightarrow> \<exists>r \<in> set rs. fst (f r) = t"
  by (induction rs) (auto simp: Let_def split: prod.splits if_splits)

lemma arule_matches_target:
  assumes "tn_valid (fst (arule_matches F target r app cur vals))"
  shows "tn_transit_to (fst (arule_matches F target r app cur vals)) = target cur \<and> tRulesContain F (dom_name cur) True r"
proof -
  have found: "t \<in> set ts \<and> P t" if "find P ts = Some t" for P t and ts :: "trule list"
    using that by (auto simp: find_Some_iff)
  show ?thesis
  proof (cases "find (\<lambda>t. trule_matches F t (dom_name cur)) (trules r)")
    case None
    then show ?thesis
      using assms by (simp add: arule_matches_def mrules_loop_eq split: if_splits)
  next
    case (Some t)
    then have "tRulesContain F (dom_name cur) True r"
      using found [OF Some] by (auto simp: tRulesContain_def)
    then show ?thesis
      using assms Some by (auto simp: arule_matches_def mrules_loop_eq Transition_def split: if_splits)
  qed
qed

lemma entries_listed: "set (ovalue [] m k) \<subseteq> set (table_all m)"
  unfolding table_all_def by (induction m) (auto simp: ovalue_def)

lemma transition_target:
  assumes "tn_valid (getFirstMatchingTransition F c app cur vals)"
  shows "tn_transit_to (getFirstMatchingTransition F c app cur vals) = cur \<or>
    (\<exists>r \<in> set (allRules c). tRulesContain F (dom_name cur) True r \<and>
       tn_transit_to (getFirstMatchingTransition F c app cur vals) = transit_to r)"
proof -
  let ?t = "getFirstMatchingTransition F c app cur vals"
  have "(\<exists>l \<in> set (ovalue [] (cf_loops c) (app_name app)). fst (loop_matches F l app cur vals) = ?t) \<or>
      (\<exists>r \<in> set (ovalue [] (cf_rules c) (app_name app)). fst (rule_matches F r app cur vals) = ?t)"
    using assms unfolding getFirstMatchingTransition_def Let_def
    by (auto split: prod.splits if_splits dest: first_match_valid)
  moreover have "set (ovalue [] (cf_rules c) (app_name app)) \<subseteq> set (allRules c)"
    unfolding allRules_def by (rule entries_listed)
  ultimately consider (loop) l where "fst (arule_matches F loop_targetDomain (l :: loop) app cur vals) = ?t"
    | (rule) r where "r \<in> set (allRules c)" "fst (arule_matches F (rule_targetDomain r) r app cur vals) = ?t"
    unfolding loop_matches_def rule_matches_def by blast
  then show ?thesis
  proof cases
    case loop
    then show ?thesis
      using arule_matches_target [of F loop_targetDomain l app cur vals] assms by (simp add: loop_targetDomain_def)
  next
    case rule
    then show ?thesis
      using arule_matches_target [of F "rule_targetDomain r" r app cur vals] assms by (auto simp: rule_targetDomain_def)
  qed
qed

text \<open>The domains that a daemon with the configuration \<open>c\<close> can be in, one transition after the other.\<close>

inductive visited :: "framework \<Rightarrow> configuration \<Rightarrow> domain \<Rightarrow> bool" for F c where
  start: "visited F c (default_domain c)"
| move: "visited F c cur \<Longrightarrow> tn_valid (getFirstMatchingTransition F c app cur vals) \<Longrightarrow>
    visited F c (tn_transit_to (getFirstMatchingTransition F c app cur vals))"

definition domains_known :: "configuration \<Rightarrow> bool" where
  "domains_known c \<longleftrightarrow> default_domain c \<noteq> Domain0 \<and>
     (\<forall>d \<in> insert (default_domain c) (transit_to ` set (allRules c)). dom_name d \<in> set (domainNameList c))"

lemma visited_reachable:
  assumes "visited F c d" "domains_known c"
  shows "reachable F c (dom_name d) \<and> dom_name d \<in> set (domainNameList c)"
  using assms(1)
proof induction
  case start
  then show ?case
    using assms(2) by (simp add: reachable_def domains_known_def)
next
  case (move cur app vals)
  from transition_target [OF move.hyps(2)] show ?case
  proof (elim disjE bexE conjE)
    fix r
    assume r: "r \<in> set (allRules c)" "tRulesContain F (dom_name cur) True r"
      "tn_transit_to (getFirstMatchingTransition F c app cur vals) = transit_to r"
    then have "edge F c (dom_name cur) (dom_name (transit_to r))"
      using move.IH by (auto simp: edge_def)
    then show ?thesis
      using move.IH r assms(2) by (auto simp: reachable_def domains_known_def intro: rtranclp.rtrancl_into_rtrancl)
  qed (use move.IH in simp)
qed

section \<open>Properties\<close>

definition all_warnings :: editor_config where
  "all_warnings =
     \<lparr>maxStackSize = 100, unreachableDomainWarn = True, unreachableRuleWarn = True, bypassedRuleWarn = True,
      unknownProgramWarn = True, undefinedActionWarn = True, invalidMRuleWarn = True,
      confidentialityLossRuleWarn = True, reliabilityLossRuleWarn = True\<rparr>"

definition island_config :: configuration where
  "island_config =
     newRule False False ((sample_dialog ''web'')\<lparr>dg_mrules := [MRule sample_program [] []]\<rparr>)
       (newLoop False False (sample_dialog ''bank'')
         (addDomain (sample_domain ''bank'') False (addDomain (sample_domain ''web'') True
           (addDomain (sample_domain ''mail'') False (snd (addProgram simple_framework sample_program False Configuration0))))))"

lemma island_config_wf: "config_wf island_config"
  unfolding island_config_def
  by (intro newRule_wf newLoop_wf addDomain_wf addProgram_wf Configuration0_wf)
    (simp add: sample_dialog_def sample_domain_def Domain_def Domain0_def)

text \<open>The last source domain decides: a loss from another one goes unnoticed.\<close>

lemma loss_overwritten:
  "dom_confidentiality dm \<le> dom_confidentiality target \<Longrightarrow> dom_reliability dm \<le> dom_reliability target \<Longrightarrow>
   dom_reliability first \<le> dom_reliability target \<Longrightarrow> loss_loop target [first, dm] (True, True) = (True, True)"
  by simp

text \<open>
  C15: the editor warns about exactly the known domains that no sequence of rules reaches from the default domain, once each,
  and about exactly the rules and loops that apply in no reachable domain.
\<close>

theorem unreachable_warnings_exact:
  assumes "config_wf c"
  shows "ovalue [] (fst (onUpdateWarnings F cfg c)) n =
      (if unreachableDomainWarn cfg \<and> ocontains (domains c) n \<and> \<not> reachable F c n then [UnreachableDomainWarning n] else []) \<and>
    (UnreachableRuleWarning i \<in> set (ovalue [] (snd (onUpdateWarnings F cfg c)) i) \<longleftrightarrow>
      unreachableRuleWarn cfg \<and>
      (\<exists>a \<in> set (allAbstractRules False c). arule_id a = i \<and> (\<forall>n \<in> set (arule_sources F c a). \<not> reachable F c n)))"
proof -
  have "distinct (domainNameList c)"
    using assms osorted_distinct unfolding domainNameList_def config_wf_def names_wf_def by blast
  then have "count_list (domainNameList c) n = (if ocontains (domains c) n then 1 else 0)"
    using in_okeys_iff [of n "domains c"] unfolding domainNameList_def by (simp add: count_list_eq_length_filter distinct_length_filter count_list_0_iff)
  then show ?thesis
    using unreached_domains [of F cfg c n] unreached_rules_warned [of i F cfg c] by simp
qed

theorem unreachable_warnings_exact_witness:
  "config_wf island_config \<and> \<not> reachable simple_framework island_config ''bank'' \<and>
   fst (onUpdateWarnings simple_framework all_warnings island_config) = [(''bank'', [UnreachableDomainWarning ''bank''])] \<and>
   UnreachableRuleWarning 1 \<in> set (ovalue [] (snd (onUpdateWarnings simple_framework all_warnings island_config)) 1)"
proof -
  have w: "fst (onUpdateWarnings simple_framework all_warnings island_config) = [(''bank'', [UnreachableDomainWarning ''bank''])]"
    "UnreachableRuleWarning 1 \<in> set (ovalue [] (snd (onUpdateWarnings simple_framework all_warnings island_config)) 1)"
    by code_simp+
  then have "\<not> reachable simple_framework island_config ''bank''"
    using unreachable_warnings_exact [OF island_config_wf, of simple_framework all_warnings "''bank''"]
    by (auto simp: ovalue_def split: if_splits)
  with w show ?thesis
    using island_config_wf by simp
qed

text \<open>
  C14: the warnings are sound for the daemon.  If the default domain and the targets of the rules are known, a daemon that starts
  in the default domain never gets into a domain that the editor calls unreachable, and no rule with a source that matches a domain it gets into is
  among the rules that the editor calls unreachable.
\<close>

theorem warned_domains_never_entered:
  assumes "config_wf c" and "domains_known c" and "visited F c d"
  shows "UnreachableDomainWarning (dom_name d) \<notin> set (ovalue [] (fst (onUpdateWarnings F cfg c)) (dom_name d)) \<and>
    (\<forall>r \<in> set (allRules c). tRulesContain F (dom_name d) True r \<longrightarrow>
      UnreachableRuleWarning (ar_id r) \<notin> set (ovalue [] (snd (onUpdateWarnings F cfg c)) (ar_id r)))"
proof -
  have reach: "reachable F c (dom_name d)" "dom_name d \<in> set (domainNameList c)"
    using visited_reachable [OF assms(3,2)] by blast+
  have "UnreachableRuleWarning (ar_id r) \<notin> set (ovalue [] (snd (onUpdateWarnings F cfg c)) (ar_id r))"
    if r: "r \<in> set (allRules c)" "tRulesContain F (dom_name d) True r" for r
  proof
    assume "UnreachableRuleWarning (ar_id r) \<in> set (ovalue [] (snd (onUpdateWarnings F cfg c)) (ar_id r))"
    then obtain a where a: "a \<in> set (listed c)" "arule_id a = ar_id r" "\<forall>n \<in> set (arule_sources F c a). \<not> reachable F c n"
      unfolding unreached_rules_warned listed_def by blast
    moreover have "ARule r \<in> set (listed c)"
      using r(1) by (simp add: listed_def allAbstractRules_def allRules_def)
    ultimately have "a = ARule r"
      using ct.id_unique [OF config_wf_tables [OF assms(1)], of a "ARule r"] by simp
    then show False
      using a(3) reach r(2) by (simp add: set_matchedDomainNames)
  qed
  then show ?thesis
    using reach(1) by (simp add: unreached_domains)
qed

theorem warned_domains_never_entered_witness:
  "visited simple_framework island_config (sample_domain ''mail'') \<and>
   UnreachableDomainWarning ''mail'' \<notin> set (ovalue [] (fst (onUpdateWarnings simple_framework all_warnings island_config)) ''mail'')"
proof -
  have t: "getFirstMatchingTransition simple_framework island_config sample_program (sample_domain ''web'') [] =
      Transition sample_program (sample_domain ''web'') (sample_domain ''mail'') False True"
    and d: "default_domain island_config = sample_domain ''web''" "dom_name (sample_domain ''mail'') = ''mail''"
    and k: "domains_known island_config"
    by code_simp+
  have "visited simple_framework island_config (sample_domain ''web'')"
    using visited.start [of simple_framework island_config] d by simp
  from visited.move [OF this, of sample_program "[]"]
  have v: "visited simple_framework island_config (sample_domain ''mail'')"
    by (simp add: t) (simp add: Transition_def)
  then show ?thesis
    using warned_domains_never_entered [OF island_config_wf k v, of all_warnings] v d by simp
qed

end
