(* ===== verification/Editor_Stack.thy ===== *)
theory Editor_Stack
  imports Editor_Warnings Configuration_XML
begin

text \<open>
  The configurations of the editor (\<open>configurationstack.cpp\<close>): the stack for undo and redo, the programs known to the
  editor, hidden objects, and opening and saving files.

  An instance of the configuration is its members without the class-wide counters and the signals; \<open>current\<close> adds them.
  The signals that an operation sends are handled by the slots of the stack in their order, after the operation; the
  slots do not read what the operation changes, except for the warnings.  What the user answers, and whether a file
  can be opened and how much is written to it, are arguments.
\<close>

section \<open>State\<close>

datatype stack_signal =
    StackDomainChanged string string
  | StackProgramChanged string string
  | StackAllRulesChanged
  | StackLoopsChanged
  | StackRulesChanged
  | StackConfigurationChanged
  | ConfigurationSaved
  | NewConfiguration
  | StackChanged
  | HiddenDomainChanged string bool
  | HiddenProgramChanged string bool
  | HiddenRuleChanged int bool
  | WarningsChanged

record 'doc estack =
  es_stack :: "(configuration \<times> string) list"
  current_index :: nat
  last_saved_index :: int
  before_last_change :: configuration
  es_path :: string
  es_programs :: "(string, program \<times> string) omap"
  arp_cache :: "(int, arule) omap"
  hidden_rules :: "int list"
  hidden_domains :: "string list"
  hidden_programs :: "string list"
  dom_warnings :: "(string, warning list) omap"
  es_rule_warnings :: rule_warnings
  od_dom_warnings :: "(string, warning list) omap"
  od_rule_warnings :: rule_warnings
  es_counter :: int
  es_assigned :: assigned
  es_connected :: bool
  es_signals :: "stack_signal list"
  es_written :: "(string \<times> 'doc) list"

definition stack_emit :: "stack_signal \<Rightarrow> 'doc estack \<Rightarrow> 'doc estack" where
  "stack_emit sg s = s\<lparr>es_signals := es_signals s @ [sg]\<rparr>"

definition copy_of :: "configuration \<Rightarrow> configuration" where
  "copy_of c = config_assign c Configuration0"

definition instance_at :: "nat \<Rightarrow> 'doc estack \<Rightarrow> configuration" where
  "instance_at i s = (fst (es_stack s ! i))\<lparr>idCounter := es_counter s, assigned_values := es_assigned s, signals := []\<rparr>"

definition put_instance :: "nat \<Rightarrow> configuration \<Rightarrow> 'doc estack \<Rightarrow> 'doc estack" where
  "put_instance i c s =
     s\<lparr>es_stack := (es_stack s)[i := (copy_of c, snd (es_stack s ! i))],
       es_counter := idCounter c, es_assigned := assigned_values c\<rparr>"

definition current_conf :: "'doc estack \<Rightarrow> configuration" where
  "current_conf s = instance_at (current_index s) s"

definition currentForModifying :: "'doc estack \<Rightarrow> configuration \<times> 'doc estack" where
  "currentForModifying s = (current_conf s, s\<lparr>before_last_change := copy_of (current_conf s)\<rparr>)"

definition hasChanges :: "'doc estack \<Rightarrow> bool" where
  "hasChanges s \<longleftrightarrow> last_saved_index s \<noteq> int (current_index s)"

definition transitionsFilePath :: "string \<Rightarrow> 'doc estack \<Rightarrow> string" where
  "transitionsFilePath alternative s = (if es_path s \<noteq> [] then es_path s else alternative)"

definition canUndo :: "'doc estack \<Rightarrow> bool" where
  "canUndo s \<longleftrightarrow> current_index s > 0"

definition canRedo :: "'doc estack \<Rightarrow> bool" where
  "canRedo s \<longleftrightarrow> current_index s + 1 < length (es_stack s)"

definition stack_findAbstractRule :: "int \<Rightarrow> 'doc estack \<Rightarrow> arule \<times> 'doc estack" where
  "stack_findAbstractRule i s =
     (let s = (if \<not> ocontains (arp_cache s) i
               then s\<lparr>arp_cache := oinsert i (findAbstractRule i (current_conf s)) (arp_cache s)\<rparr> else s)
      in (ovalue (ARule (Rule0 False False)) (arp_cache s) i, s))"

section \<open>Warnings of an object\<close>

definition warningsForRule :: "int \<Rightarrow> 'doc estack \<Rightarrow> warning list" where
  "warningsForRule i s = ovalue [] (es_rule_warnings s) i @ ovalue [] (od_rule_warnings s) i"

definition ruleHasWarnings :: "int \<Rightarrow> 'doc estack \<Rightarrow> bool" where
  "ruleHasWarnings i s \<longleftrightarrow> ocontains (es_rule_warnings s) i \<or> ocontains (od_rule_warnings s) i"

definition warningsForDomain :: "string \<Rightarrow> 'doc estack \<Rightarrow> warning list" where
  "warningsForDomain name s = ovalue [] (dom_warnings s) name @ ovalue [] (od_dom_warnings s) name"

definition domainHasWarnings :: "string \<Rightarrow> 'doc estack \<Rightarrow> bool" where
  "domainHasWarnings name s \<longleftrightarrow> ocontains (dom_warnings s) name \<or> ocontains (od_dom_warnings s) name"

definition warningTypesForRule :: "int \<Rightarrow> 'doc estack \<Rightarrow> nat" where
  "warningTypesForRule i s = fold (\<lambda>w result. or result (warningType w)) (warningsForRule i s) 0"

definition warningTypesForDomain :: "string \<Rightarrow> 'doc estack \<Rightarrow> nat" where
  "warningTypesForDomain name s = fold (\<lambda>w result. or result (warningType w)) (warningsForDomain name s) 0"

fun loss_of :: "(domain \<Rightarrow> int) \<Rightarrow> domain \<Rightarrow> arule \<Rightarrow> bool" where
  "loss_of level dm (ALoop l) = True"
| "loss_of level dm (ARule r) = (level dm > level (transit_to r))"

fun source_warning :: "arule \<Rightarrow> domain \<Rightarrow> warning \<Rightarrow> nat \<Rightarrow> nat" where
  "source_warning ar dm (BypassRuleWarning i source bypassed) result =
     (if domain_eq dm source then or result 2 else result)"
| "source_warning ar dm (ConfidentialityLossRuleWarning i) result =
     (if loss_of dom_confidentiality dm ar then or result 128 else result)"
| "source_warning ar dm (ReliabilityLossRuleWarning i) result =
     (if loss_of dom_reliability dm ar then or result 256 else result)"
| "source_warning ar dm w result = or result (warningType w)"

definition warningTypesForRuleAndSourceDomain :: "int \<Rightarrow> string \<Rightarrow> 'doc estack \<Rightarrow> nat" where
  "warningTypesForRuleAndSourceDomain i name s =
     (let ar = findAbstractRule i (current_conf s);
          dm = getDomainByName (current_conf s) name
      in if domain_eq dm Domain0 then 0 else fold (source_warning ar dm) (warningsForRule i s) 0)"

definition allWarnings :: "'doc estack \<Rightarrow> warning list" where
  "allWarnings s =
     concat (ovals (es_rule_warnings s)) @ concat (ovals (od_rule_warnings s)) @
     concat (ovals (dom_warnings s)) @ concat (ovals (od_dom_warnings s))"

section \<open>Hidden objects\<close>

definition addHiddenDomain :: "string \<Rightarrow> 'doc estack \<Rightarrow> 'doc estack" where
  "addHiddenDomain name s = stack_emit (HiddenDomainChanged name True) (s\<lparr>hidden_domains := hidden_domains s @ [name]\<rparr>)"

definition addHiddenProgram :: "string \<Rightarrow> 'doc estack \<Rightarrow> 'doc estack" where
  "addHiddenProgram name s = stack_emit (HiddenProgramChanged name True) (s\<lparr>hidden_programs := hidden_programs s @ [name]\<rparr>)"

definition addHiddenRule :: "int \<Rightarrow> 'doc estack \<Rightarrow> 'doc estack" where
  "addHiddenRule i s = stack_emit (HiddenRuleChanged i True) (s\<lparr>hidden_rules := hidden_rules s @ [i]\<rparr>)"

definition removeHiddenDomain :: "string \<Rightarrow> 'doc estack \<Rightarrow> 'doc estack" where
  "removeHiddenDomain name s =
     stack_emit (HiddenDomainChanged name False) (s\<lparr>hidden_domains := removeAll name (hidden_domains s)\<rparr>)"

definition removeHiddenProgram :: "string \<Rightarrow> 'doc estack \<Rightarrow> 'doc estack" where
  "removeHiddenProgram name s =
     stack_emit (HiddenProgramChanged name False) (s\<lparr>hidden_programs := removeAll name (hidden_programs s)\<rparr>)"

definition removeHiddenRule :: "int \<Rightarrow> 'doc estack \<Rightarrow> 'doc estack" where
  "removeHiddenRule i s = stack_emit (HiddenRuleChanged i False) (s\<lparr>hidden_rules := removeAll i (hidden_rules s)\<rparr>)"

definition updateHidden :: "string \<Rightarrow> string \<Rightarrow> string list \<Rightarrow> string list" where
  "updateHidden old_name new_name hidden =
     (if old_name \<in> set hidden
      then let hidden = removeAll old_name hidden in if new_name \<noteq> [] then hidden @ [new_name] else hidden
      else hidden)"

definition updateHiddenDomain :: "string \<Rightarrow> string \<Rightarrow> 'doc estack \<Rightarrow> 'doc estack" where
  "updateHiddenDomain old_name new_name s = s\<lparr>hidden_domains := updateHidden old_name new_name (hidden_domains s)\<rparr>"

definition updateHiddenProgram :: "string \<Rightarrow> string \<Rightarrow> 'doc estack \<Rightarrow> 'doc estack" where
  "updateHiddenProgram old_name new_name s = s\<lparr>hidden_programs := updateHidden old_name new_name (hidden_programs s)\<rparr>"

section \<open>Changes\<close>

definition pushCurrentInstance :: "editor_config \<Rightarrow> string \<Rightarrow> 'doc estack \<Rightarrow> 'doc estack" where
  "pushCurrentInstance cfg changeType s =
     (let i = current_index s;
          oldChangeType = snd (es_stack s ! i);
          st = (es_stack s)[i := (fst (es_stack s ! i), changeType)];
          st = take i st @ [(before_last_change s, oldChangeType)] @ drop i st;
          i = i + 1;
          st = take (i + 1) st;
          s = (if int (length st) > maxStackSize cfg
               then s\<lparr>es_stack := drop 1 st, current_index := i - 1, last_saved_index := last_saved_index s - 1\<rparr>
               else s\<lparr>es_stack := st, current_index := i\<rparr>)
      in stack_emit StackChanged s)"

definition clearARPCache :: "'doc estack \<Rightarrow> 'doc estack" where
  "clearARPCache s = s\<lparr>arp_cache := []\<rparr>"

definition clearOnDemandWarnings :: "'doc estack \<Rightarrow> 'doc estack" where
  "clearOnDemandWarnings s = stack_emit WarningsChanged (s\<lparr>od_rule_warnings := [], od_dom_warnings := []\<rparr>)"

definition stack_updateWarnings :: "framework \<Rightarrow> editor_config \<Rightarrow> 'doc estack \<Rightarrow> 'doc estack" where
  "stack_updateWarnings F cfg s =
     (let (dw, rw) = onUpdateWarnings F cfg (current_conf s)
      in stack_emit WarningsChanged (s\<lparr>dom_warnings := dw, es_rule_warnings := rw\<rparr>))"

definition refresh :: "framework \<Rightarrow> editor_config \<Rightarrow> 'doc estack \<Rightarrow> 'doc estack" where
  "refresh F cfg s = stack_updateWarnings F cfg (clearOnDemandWarnings (clearARPCache s))"

fun on_signal :: "framework \<Rightarrow> editor_config \<Rightarrow> signal \<Rightarrow> 'doc estack \<Rightarrow> 'doc estack" where
  "on_signal F cfg (DomainChanged old_name new_name) s =
     stack_emit (StackDomainChanged old_name new_name)
       (pushCurrentInstance cfg (''domain'' @ [CHR 0x0A] @ old_name @ [CHR 0x0A] @ new_name)
         (updateHiddenDomain old_name new_name (refresh F cfg s)))"
| "on_signal F cfg ConfigurationChanged s =
     stack_emit StackConfigurationChanged (pushCurrentInstance cfg ''configuration'' (refresh F cfg s))"
| "on_signal F cfg (ProgramChanged old_name new_name) s =
     stack_emit (StackProgramChanged old_name new_name) (updateHiddenProgram old_name new_name (refresh F cfg s))"
| "on_signal F cfg (AllRulesChanged side_effect) s =
     stack_emit StackAllRulesChanged
       (if \<not> side_effect then pushCurrentInstance cfg ''allRules'' (refresh F cfg s) else refresh F cfg s)"
| "on_signal F cfg (LoopsChanged side_effect) s =
     stack_emit StackLoopsChanged
       (if \<not> side_effect then pushCurrentInstance cfg ''loops'' (refresh F cfg s) else refresh F cfg s)"
| "on_signal F cfg (RulesChanged side_effect) s =
     stack_emit StackRulesChanged
       (if \<not> side_effect then pushCurrentInstance cfg ''rules'' (refresh F cfg s) else refresh F cfg s)"

text \<open>What a handler of the editor does: it takes the current instance for modifying and calls an operation \<open>f\<close> on it.\<close>

definition modify :: "framework \<Rightarrow> editor_config \<Rightarrow> (configuration \<Rightarrow> configuration) \<Rightarrow> 'doc estack \<Rightarrow> 'doc estack" where
  "modify F cfg f s =
     (let (c, s) = currentForModifying s; c = f c
      in fold (on_signal F cfg) (signals c) (put_instance (current_index s) c s))"

definition emitSignalForChangeType ::
    "framework \<Rightarrow> editor_config \<Rightarrow> string \<Rightarrow> bool \<Rightarrow> 'doc estack \<Rightarrow> 'doc estack" where
  "emitSignalForChangeType F cfg changeType revert_changes s =
     (let s = refresh F cfg s
      in if changeType = ''configuration'' then stack_emit StackConfigurationChanged s
         else if changeType = ''allRules'' then stack_emit StackAllRulesChanged s
         else if changeType = ''loops'' then stack_emit StackLoopsChanged s
         else if changeType = ''rules'' then stack_emit StackRulesChanged s
         else if take 6 changeType = ''domain'' then
           let data = str_split (CHR 0x0A) changeType
           in if length data \<ge> 3 then
                let (a, b) = (if \<not> revert_changes then (data ! 1, data ! 2) else (data ! 2, data ! 1))
                in stack_emit (StackDomainChanged a b) (updateHiddenDomain a b s)
              else s
         else s)"

definition onUndo :: "framework \<Rightarrow> editor_config \<Rightarrow> 'doc estack \<Rightarrow> 'doc estack" where
  "onUndo F cfg s =
     (let changeType = snd (es_stack s ! current_index s);
          s = (if current_index s > 0 then s\<lparr>current_index := current_index s - 1\<rparr> else s)
      in stack_emit StackChanged (emitSignalForChangeType F cfg changeType True s))"

definition onRedo :: "framework \<Rightarrow> editor_config \<Rightarrow> 'doc estack \<Rightarrow> 'doc estack" where
  "onRedo F cfg s =
     (let s = (if current_index s + 1 < length (es_stack s) then s\<lparr>current_index := current_index s + 1\<rparr> else s);
          changeType = snd (es_stack s ! current_index s)
      in stack_emit StackChanged (emitSignalForChangeType F cfg changeType False s))"

section \<open>Programs\<close>

text \<open>An operation on every instance; the slots hear only the current one.\<close>

definition apply_at :: "framework \<Rightarrow> editor_config \<Rightarrow> (configuration \<Rightarrow> configuration) \<Rightarrow> nat \<Rightarrow> 'doc estack \<Rightarrow> 'doc estack" where
  "apply_at F cfg op i s =
     (let c = op (instance_at i s); s = put_instance i c s
      in if i = current_index s \<and> es_connected s then fold (on_signal F cfg) (signals c) s else s)"

definition apply_all :: "framework \<Rightarrow> editor_config \<Rightarrow> (configuration \<Rightarrow> configuration) \<Rightarrow> 'doc estack \<Rightarrow> 'doc estack" where
  "apply_all F cfg op s =
     (let s = s\<lparr>before_last_change := copy_of (op (current_conf s))\<rparr>
      in fold (apply_at F cfg op) [0..<length (es_stack s)] s)"

definition stack_deleteProgram :: "framework \<Rightarrow> editor_config \<Rightarrow> string \<Rightarrow> 'doc estack \<Rightarrow> 'doc estack" where
  "stack_deleteProgram F cfg name s =
     (case find (\<lambda>(k, p, path). app_name p = name) (es_programs s) of
        None \<Rightarrow> s
      | Some (k, p, path) \<Rightarrow>
          apply_all F cfg (\<lambda>c. snd (deleteProgram F (app_name p) c)) (s\<lparr>es_programs := oremove k (es_programs s)\<rparr>))"

text \<open>
  Renaming reads the path of the entry that has just been removed, which yields \<open>freed\<close>; the file of the program
  is written at the path read before.
\<close>

definition stack_updateProgram ::
    "framework \<Rightarrow> 'doc xml \<Rightarrow> editor_config \<Rightarrow> bool \<Rightarrow> string \<Rightarrow> string \<Rightarrow> program \<Rightarrow> 'doc estack \<Rightarrow> 'doc estack" where
  "stack_updateProgram F X cfg can_open freed old_name new_program s =
     (case ofind (es_programs s) old_name of
        None \<Rightarrow> s
      | Some (p, path) \<Rightarrow>
          let s = s\<lparr>es_programs := oinsert (app_name new_program) (new_program, freed) (oremove old_name (es_programs s))\<rparr>;
              s = apply_all F cfg (\<lambda>c. snd (updateProgram F old_name new_program c)) s
          in if can_open then s\<lparr>es_written := es_written s @ [(path, retrieveDOM X new_program)]\<rparr> else s)"

definition starts_with :: "string \<Rightarrow> string \<Rightarrow> bool" where
  "starts_with prefix str = (take (length prefix) str = prefix)"

text \<open>
  A new program.  If another program has the same file and the user wants to replace it, the entry under the iterator of the loop
  is removed, and the loop goes on from it.
\<close>

definition add_new_program ::
    "framework \<Rightarrow> 'doc xml \<Rightarrow> editor_config \<Rightarrow> string \<Rightarrow> bool \<Rightarrow> bool \<Rightarrow> program \<Rightarrow> string \<Rightarrow> 'doc estack \<Rightarrow> fault + 'doc estack" where
  "add_new_program F X cfg dataLoc reload can_open p path s =
     (let path = (if \<not> starts_with dataLoc path then dataLoc @ ''/'' @ app_name p @ ''.xml'' else path)
      in if path \<in> (snd ` set (ovals (es_programs s))) then (if reload then Inl UseAfterFree else Inr s)
         else
           let s = s\<lparr>es_programs := oinsert (app_name p) (p, path) (es_programs s)\<rparr>;
               s = (if can_open then s\<lparr>es_written := es_written s @ [(path, retrieveDOM X p)]\<rparr> else s)
           in Inr (apply_all F cfg (\<lambda>c. snd (addProgram F p False c)) s))"

definition stack_addProgram ::
    "framework \<Rightarrow> 'doc xml \<Rightarrow> editor_config \<Rightarrow> string \<Rightarrow> bool \<Rightarrow> bool \<Rightarrow> bool \<Rightarrow> program \<Rightarrow> string \<Rightarrow> 'doc estack \<Rightarrow> fault + 'doc estack" where
  "stack_addProgram F X cfg dataLoc replace reload can_open p path s =
     (if \<not> ocontains (es_programs s) (app_name p) then add_new_program F X cfg dataLoc reload can_open p path s
      else if replace then add_new_program F X cfg dataLoc reload can_open p path (stack_deleteProgram F cfg (app_name p) s)
      else Inr s)"

text \<open>Files that do not exist, or are not those of a program, are reported to the user.\<close>

definition addProgramsFromFiles ::
    "framework \<Rightarrow> 'doc xml \<Rightarrow> editor_config \<Rightarrow> string \<Rightarrow> bool \<Rightarrow> bool \<Rightarrow> bool \<Rightarrow> (string \<times> 'doc option) list \<Rightarrow> 'doc estack \<Rightarrow> fault + 'doc estack" where
  "addProgramsFromFiles F X cfg dataLoc replace reload can_open paths s =
     fold (\<lambda>(path, doc) r. bind_fault r (\<lambda>s.
       case doc of
         None \<Rightarrow> Inr s
       | Some d \<Rightarrow>
           let p = Program_file F X (Some d)
           in if program_isValid F p then stack_addProgram F X cfg dataLoc replace reload can_open p path s else Inr s)) paths (Inr s)"

section \<open>Files\<close>

text \<open>The first half of the initialisation makes the new instance, the second connects it to the slots.\<close>

definition initialise_instance :: "framework \<Rightarrow> 'doc xml \<Rightarrow> 'doc disk \<Rightarrow> 'doc estack \<Rightarrow> 'doc estack" where
  "initialise_instance F X disk s =
     (let s = clearOnDemandWarnings (clearARPCache (s\<lparr>hidden_domains := [], hidden_programs := [], hidden_rules := []\<rparr>));
          c = Configuration F X disk (es_path s) False (map fst (ovals (es_programs s))) (es_counter s) (es_assigned s)
      in s\<lparr>es_stack := [(copy_of c, ''new'')], es_counter := idCounter c, es_assigned := assigned_values c,
            current_index := 0, last_saved_index := 0, before_last_change := copy_of c, es_connected := False\<rparr>)"

definition initialise_slots :: "framework \<Rightarrow> editor_config \<Rightarrow> 'doc estack \<Rightarrow> 'doc estack" where
  "initialise_slots F cfg s = stack_emit StackChanged (stack_updateWarnings F cfg (s\<lparr>es_connected := True\<rparr>))"

definition initialise :: "framework \<Rightarrow> 'doc xml \<Rightarrow> 'doc disk \<Rightarrow> editor_config \<Rightarrow> 'doc estack \<Rightarrow> 'doc estack" where
  "initialise F X disk cfg s = initialise_slots F cfg (initialise_instance F X disk s)"

definition empty_stack :: "int \<Rightarrow> assigned \<Rightarrow> 'doc estack" where
  "empty_stack n a =
     \<lparr>es_stack = [], current_index = 0, last_saved_index = 0, before_last_change = Configuration0, es_path = [],
      es_programs = [], arp_cache = [], hidden_rules = [], hidden_domains = [], hidden_programs = [], dom_warnings = [],
      es_rule_warnings = [], od_dom_warnings = [], od_rule_warnings = [], es_counter = n, es_assigned = a,
      es_connected = False, es_signals = [], es_written = []\<rparr>"

definition ConfigurationStack ::
    "framework \<Rightarrow> 'doc xml \<Rightarrow> 'doc disk \<Rightarrow> editor_config \<Rightarrow> string \<Rightarrow> bool \<Rightarrow> bool \<Rightarrow> bool \<Rightarrow> (string \<times> 'doc option) list \<Rightarrow>
     int \<Rightarrow> assigned \<Rightarrow> fault + 'doc estack" where
  "ConfigurationStack F X disk cfg dataLoc replace reload can_open knownApplications n a =
     bind_fault (addProgramsFromFiles F X cfg dataLoc replace reload can_open knownApplications
                  (initialise_instance F X disk (empty_stack n a)))
       (\<lambda>s. Inr (initialise_slots F cfg s))"

definition reinitialise ::
    "framework \<Rightarrow> 'doc xml \<Rightarrow> 'doc disk \<Rightarrow> editor_config \<Rightarrow> string \<Rightarrow> 'doc estack \<Rightarrow> 'doc estack" where
  "reinitialise F X disk cfg new_path s =
     stack_emit NewConfiguration (stack_emit StackConfigurationChanged (initialise F X disk cfg (s\<lparr>es_path := new_path\<rparr>)))"

text \<open>The write succeeds unless it writes nothing; a failed write gives -1, which counts as success.\<close>

definition saveTransitions ::
    "framework \<Rightarrow> 'doc xml \<Rightarrow> bool \<Rightarrow> int \<Rightarrow> string \<Rightarrow> 'doc estack \<Rightarrow> bool \<times> 'doc estack" where
  "saveTransitions F X can_open bytes path s =
     (if \<not> can_open then (False, s)
      else
        let s = (if bytes > 0 then s\<lparr>es_written := es_written s @ [(path, retrieveTransitionsDOM F X (current_conf s))]\<rparr> else s)
        in if bytes = 0 then (False, s)
           else (True, stack_emit ConfigurationSaved (s\<lparr>es_path := path, last_saved_index := int (current_index s)\<rparr>)))"

definition transitionsFileWellFormed :: "'doc xml \<Rightarrow> 'doc disk \<Rightarrow> string \<Rightarrow> bool" where
  "transitionsFileWellFormed X disk path =
     (case transitions_file disk path of
        None \<Rightarrow> False
      | Some doc \<Rightarrow> (case of_text X doc of None \<Rightarrow> False | Some root \<Rightarrow> tagName root = TRANSITIONS_XML_ROOT))"

datatype reply = Yes | No | Cancel

text \<open>What the user answers when asked to save, and the path chosen in the dialogs, empty if they are cancelled.\<close>

record replies =
  save_reply :: reply
  save_as_path :: string
  open_path :: string
  can_open_file :: bool
  bytes_written :: int
  path_exists :: bool

definition proposeSaveTransitions ::
    "framework \<Rightarrow> 'doc xml \<Rightarrow> replies \<Rightarrow> 'doc estack \<Rightarrow> bool \<times> 'doc estack" where
  "proposeSaveTransitions F X rp s =
     (if save_reply rp = Yes then
        let path = (if es_path s = [] then save_as_path rp else es_path s)
        in if path = [] then (False, s) else saveTransitions F X (can_open_file rp) (bytes_written rp) path s
      else (save_reply rp = No, s))"

definition save_first :: "framework \<Rightarrow> 'doc xml \<Rightarrow> replies \<Rightarrow> 'doc estack \<Rightarrow> bool \<times> 'doc estack" where
  "save_first F X rp s = (if hasChanges s then proposeSaveTransitions F X rp s else (True, s))"

definition openTransitionsFile ::
    "framework \<Rightarrow> 'doc xml \<Rightarrow> 'doc disk \<Rightarrow> editor_config \<Rightarrow> replies \<Rightarrow> string \<Rightarrow> 'doc estack \<Rightarrow> 'doc estack" where
  "openTransitionsFile F X disk cfg rp path s =
     (let (performAction, s) = save_first F X rp s
      in if performAction \<and> path_exists rp \<and> transitionsFileWellFormed X disk path
         then reinitialise F X disk cfg path s else s)"

definition openTmpTransitions ::
    "framework \<Rightarrow> 'doc xml \<Rightarrow> 'doc disk \<Rightarrow> editor_config \<Rightarrow> replies \<Rightarrow> string \<Rightarrow> 'doc estack \<Rightarrow> 'doc estack" where
  "openTmpTransitions F X disk cfg rp path s = (openTransitionsFile F X disk cfg rp path s)\<lparr>es_path := []\<rparr>"

definition onNew ::
    "framework \<Rightarrow> 'doc xml \<Rightarrow> 'doc disk \<Rightarrow> editor_config \<Rightarrow> replies \<Rightarrow> 'doc estack \<Rightarrow> 'doc estack" where
  "onNew F X disk cfg rp s =
     (let (performAction, s) = save_first F X rp s in if performAction then reinitialise F X disk cfg [] s else s)"

definition onOpen ::
    "framework \<Rightarrow> 'doc xml \<Rightarrow> 'doc disk \<Rightarrow> editor_config \<Rightarrow> replies \<Rightarrow> 'doc estack \<Rightarrow> 'doc estack" where
  "onOpen F X disk cfg rp s =
     (let (performAction, s) = save_first F X rp s
      in if performAction then
           if open_path rp = [] then s
           else if \<not> path_exists rp then s
           else if transitionsFileWellFormed X disk (open_path rp) then reinitialise F X disk cfg (open_path rp) s
           else s
         else s)"

definition onSaveAs :: "framework \<Rightarrow> 'doc xml \<Rightarrow> replies \<Rightarrow> 'doc estack \<Rightarrow> 'doc estack" where
  "onSaveAs F X rp s =
     (if save_as_path rp = [] then s
      else snd (saveTransitions F X (can_open_file rp) (bytes_written rp) (save_as_path rp) s))"

definition onSave :: "framework \<Rightarrow> 'doc xml \<Rightarrow> replies \<Rightarrow> 'doc estack \<Rightarrow> 'doc estack" where
  "onSave F X rp s =
     (if es_path s = [] then onSaveAs F X rp s
      else snd (saveTransitions F X (can_open_file rp) (bytes_written rp) (es_path s) s))"

definition onSaveToTmp :: "framework \<Rightarrow> 'doc xml \<Rightarrow> bool \<Rightarrow> string \<Rightarrow> int \<Rightarrow> 'doc estack \<Rightarrow> 'doc estack" where
  "onSaveToTmp F X can_open dataLoc pid s =
     (if can_open
      then s\<lparr>es_written := es_written s @
             [(dataLoc @ ''/autosave/'' @ of_int_str F pid @ ''.xml'', retrieveTransitionsDOM F X (current_conf s))]\<rparr>
      else s)"

end
