(* ===== verification/Editor_Theorems.thy ===== *)
theory Editor_Theorems
  imports Editor_Stack
begin

text \<open>
  Undo and redo, and what holds of every configuration on the stack.  The part of the stack that undo and redo are
  about is \<open>undo_part\<close>; everything else that the slots do leaves it alone.  What the actions on a configuration keep
  carries over to all configurations on the stack (\<open>instance_invariant\<close> and \<open>editor_invariant\<close>), for
  the whole invariant and for the one that all actions keep.
\<close>

section \<open>The part of the state for undo and redo\<close>

definition undo_part :: "'doc estack \<Rightarrow>
    (configuration \<times> string) list \<times> nat \<times> int \<times> configuration \<times> int \<times> assigned \<times> bool" where
  "undo_part s = (es_stack s, current_index s, last_saved_index s, before_last_change s, es_counter s, es_assigned s, es_connected s)"

lemma undo_part_eqD:
  assumes "undo_part s = undo_part t"
  shows "es_stack s = es_stack t" "current_index s = current_index t" "last_saved_index s = last_saved_index t"
    "before_last_change s = before_last_change t" "es_counter s = es_counter t" "es_assigned s = es_assigned t"
    "es_connected s = es_connected t" "current_conf s = current_conf t"
  using assms by (simp_all add: undo_part_def current_conf_def instance_at_def)

lemma undo_part_kept [simp]:
  "undo_part (stack_emit sg s) = undo_part s"
  "undo_part (updateHiddenDomain a b s) = undo_part s"
  "undo_part (updateHiddenProgram a b s) = undo_part s"
  "undo_part (refresh F cfg s) = undo_part s"
  "undo_part (emitSignalForChangeType F cfg ct rv s) = undo_part s"
  by (simp_all add: undo_part_def stack_emit_def updateHiddenDomain_def updateHiddenProgram_def refresh_def
      stack_updateWarnings_def clearOnDemandWarnings_def clearARPCache_def emitSignalForChangeType_def Let_def case_prod_beta)

fun pushes :: "signal \<Rightarrow> bool" where
  "pushes (DomainChanged a b) = True"
| "pushes ConfigurationChanged = True"
| "pushes (ProgramChanged a b) = False"
| "pushes (AllRulesChanged side_effect) = (\<not> side_effect)"
| "pushes (LoopsChanged side_effect) = (\<not> side_effect)"
| "pushes (RulesChanged side_effect) = (\<not> side_effect)"

text \<open>What a push makes of that part: the copy goes below the current instance, and what was above it is lost.\<close>

definition pushed :: "editor_config \<Rightarrow> 'doc estack \<Rightarrow> 'doc estack \<Rightarrow> bool" where
  "pushed cfg s s' \<longleftrightarrow>
     (\<exists>a b. let st = take (current_index s) (es_stack s) @ [(before_last_change s, a), (fst (es_stack s ! current_index s), b)];
               cut = int (current_index s) + 2 > maxStackSize cfg
           in es_stack s' = (if cut then drop 1 st else st) \<and>
              current_index s' = (if cut then current_index s else current_index s + 1) \<and>
              last_saved_index s' = last_saved_index s - (if cut then 1 else 0) \<and>
              before_last_change s' = before_last_change s \<and> es_counter s' = es_counter s \<and> es_assigned s' = es_assigned s \<and>
              es_connected s' = es_connected s)"

lemma push_pushed:
  assumes "current_index s < length (es_stack s)"
  shows "pushed cfg s (pushCurrentInstance cfg ct s)"
proof -
  let ?i = "current_index s"
  let ?st = "(es_stack s)[?i := (fst (es_stack s ! ?i), ct)]"
  obtain rest where d: "drop ?i ?st = (fst (es_stack s ! ?i), ct) # rest"
    using assms by (metis Cons_nth_drop_Suc length_list_update nth_list_update_eq)
  have "take (?i + 2) (take ?i ?st @ [(before_last_change s, snd (es_stack s ! ?i))] @ drop ?i ?st) =
      take ?i (es_stack s) @ [(before_last_change s, snd (es_stack s ! ?i)), (fst (es_stack s ! ?i), ct)]"
    using assms by (simp add: d)
  then show ?thesis
    using assms unfolding pushed_def pushCurrentInstance_def Let_def
    by (intro exI [of _ "snd (es_stack s ! ?i)"] exI [of _ ct]) (simp add: stack_emit_def)
qed

lemma pushed_cong:
  assumes "undo_part s = undo_part t" "undo_part s' = undo_part t'" "pushed cfg s s'"
  shows "pushed cfg t t'"
  using assms(3) unfolding pushed_def undo_part_eqD [OF assms(1)] undo_part_eqD [OF assms(2)] .

lemma on_signal_effect:
  assumes "current_index s < length (es_stack s)"
  shows "if pushes sg then pushed cfg s (on_signal F cfg sg s) else undo_part (on_signal F cfg sg s) = undo_part s"
proof -
  have p: "pushed cfg s (stack_emit x (pushCurrentInstance cfg ct s'))" if "undo_part s' = undo_part s" for s' x ct
    using pushed_cong [OF that _ push_pushed] undo_part_eqD [OF that] assms by simp
  show ?thesis
    by (cases sg) (simp_all add: p)
qed

lemma pushed_index: "pushed cfg s s' \<Longrightarrow> current_index s < length (es_stack s) \<Longrightarrow> current_index s' + 1 = length (es_stack s')"
  unfolding pushed_def Let_def by (auto split: if_splits)

lemma no_push:
  "filter pushes sgs = [] \<Longrightarrow> current_index s < length (es_stack s) \<Longrightarrow>
   undo_part (fold (on_signal F cfg) sgs s) = undo_part s"
proof (induction sgs arbitrary: s)
  case (Cons sg sgs)
  then have "undo_part (on_signal F cfg sg s) = undo_part s"
    using on_signal_effect [OF Cons.prems(2), of sg cfg F] by (simp split: if_splits)
  then show ?case
    using Cons.IH [of "on_signal F cfg sg s"] Cons.prems undo_part_eqD [of "on_signal F cfg sg s" s]
    by (simp split: if_splits)
qed simp

lemma one_push:
  "length (filter pushes sgs) = 1 \<Longrightarrow> current_index s < length (es_stack s) \<Longrightarrow>
   pushed cfg s (fold (on_signal F cfg) sgs s)"
proof (induction sgs arbitrary: s)
  case (Cons sg sgs)
  let ?s = "on_signal F cfg sg s"
  show ?case
  proof (cases "pushes sg")
    case True
    then have p: "pushed cfg s ?s" and "filter pushes sgs = []"
      using on_signal_effect [OF Cons.prems(2), of sg cfg F] Cons.prems(1) by simp_all
    then have "undo_part (fold (on_signal F cfg) sgs ?s) = undo_part ?s"
      using no_push [of sgs ?s] pushed_index [OF p Cons.prems(2)] by simp
    then show ?thesis
      using pushed_cong [OF refl _ p] by simp
  next
    case False
    then have u: "undo_part ?s = undo_part s"
      using on_signal_effect [OF Cons.prems(2), of sg cfg F] by simp
    then have "pushed cfg ?s (fold (on_signal F cfg) sgs ?s)"
      using Cons.IH Cons.prems False undo_part_eqD [OF u] by simp
    then show ?thesis
      using pushed_cong [OF u refl] by simp
  qed
qed simp

lemma pushed_instances:
  assumes "pushed cfg s s'" "current_index s < length (es_stack s)" "2 \<le> maxStackSize cfg"
  shows "0 < current_index s'" "fst (es_stack s' ! (current_index s' - 1)) = before_last_change s"
    "fst (es_stack s' ! current_index s') = fst (es_stack s ! current_index s)"
proof -
  obtain a b where st: "es_stack s' = (let st = take (current_index s) (es_stack s) @
        [(before_last_change s, a), (fst (es_stack s ! current_index s), b)]
      in if int (current_index s) + 2 > maxStackSize cfg then drop 1 st else st)"
    and i: "current_index s' = (if int (current_index s) + 2 > maxStackSize cfg then current_index s else current_index s + 1)"
    using assms(1) unfolding pushed_def Let_def by auto
  show "0 < current_index s'"
    using i assms(3) by (auto split: if_splits)
  then show "fst (es_stack s' ! (current_index s' - 1)) = before_last_change s"
    "fst (es_stack s' ! current_index s') = fst (es_stack s ! current_index s)"
    using assms(2) by (auto simp: st i Let_def nth_append split: if_splits)
qed

lemma onUndo_part:
  "es_stack (onUndo F cfg s) = es_stack s" "current_index (onUndo F cfg s) = current_index s - 1"
  "last_saved_index (onUndo F cfg s) = last_saved_index s" "es_counter (onUndo F cfg s) = es_counter s"
  "es_assigned (onUndo F cfg s) = es_assigned s" "before_last_change (onUndo F cfg s) = before_last_change s"
proof -
  have "undo_part (onUndo F cfg s) = undo_part (s\<lparr>current_index := current_index s - 1\<rparr>)"
    by (simp add: onUndo_def Let_def) (simp add: undo_part_def)
  from undo_part_eqD [OF this]
  show "es_stack (onUndo F cfg s) = es_stack s" "current_index (onUndo F cfg s) = current_index s - 1"
    "last_saved_index (onUndo F cfg s) = last_saved_index s" "es_counter (onUndo F cfg s) = es_counter s"
    "es_assigned (onUndo F cfg s) = es_assigned s" "before_last_change (onUndo F cfg s) = before_last_change s"
    by simp_all
qed

lemma onRedo_part:
  "es_stack (onRedo F cfg s) = es_stack s"
  "current_index (onRedo F cfg s) = (if current_index s + 1 < length (es_stack s) then current_index s + 1 else current_index s)"
  "es_counter (onRedo F cfg s) = es_counter s"
  "es_assigned (onRedo F cfg s) = es_assigned s" "before_last_change (onRedo F cfg s) = before_last_change s"
proof -
  have "undo_part (onRedo F cfg s) =
      undo_part (if current_index s + 1 < length (es_stack s) then s\<lparr>current_index := current_index s + 1\<rparr> else s)"
    by (simp add: onRedo_def Let_def)
  from undo_part_eqD [OF this]
  show "es_stack (onRedo F cfg s) = es_stack s"
    "current_index (onRedo F cfg s) = (if current_index s + 1 < length (es_stack s) then current_index s + 1 else current_index s)"
    "es_counter (onRedo F cfg s) = es_counter s"
    "es_assigned (onRedo F cfg s) = es_assigned s" "before_last_change (onRedo F cfg s) = before_last_change s"
    by (simp_all split: if_splits)
qed

lemma copy_of_simps [simp]:
  "copy_of (copy_of c) = copy_of c" "copy_of (c\<lparr>idCounter := n, assigned_values := a, signals := sg\<rparr>) = copy_of c"
  by (simp_all add: copy_of_def config_assign_def)

lemma copy_of_instance [simp]: "copy_of (instance_at i s) = copy_of (fst (es_stack s ! i))"
  by (simp add: instance_at_def)

text \<open>An action with one push, before the slots are called.\<close>

definition acted :: "(configuration \<Rightarrow> configuration) \<Rightarrow> 'doc estack \<Rightarrow> 'doc estack" where
  "acted f s = put_instance (current_index s) (f (current_conf s)) (s\<lparr>before_last_change := copy_of (current_conf s)\<rparr>)"

lemma modify_acted: "modify F cfg f s = fold (on_signal F cfg) (signals (f (current_conf s))) (acted f s)"
  by (simp add: modify_def currentForModifying_def acted_def Let_def)

lemma acted_part:
  assumes "current_index s < length (es_stack s)"
  shows "current_index (acted f s) = current_index s" "length (es_stack (acted f s)) = length (es_stack s)"
    "before_last_change (acted f s) = copy_of (current_conf s)" "last_saved_index (acted f s) = last_saved_index s"
    "fst (es_stack (acted f s) ! current_index s) = copy_of (f (current_conf s))"
    "es_counter (acted f s) = idCounter (f (current_conf s))"
  using assms by (simp_all add: acted_def put_instance_def)

lemma action_undone:
  assumes "current_index s < length (es_stack s)" "2 \<le> maxStackSize cfg"
    and "length (filter pushes (signals (f (current_conf s)))) = 1"
  shows "copy_of (current_conf (onUndo F cfg (modify F cfg f s))) = copy_of (current_conf s)"
    and "copy_of (current_conf (onRedo F cfg (onUndo F cfg (modify F cfg f s)))) = copy_of (f (current_conf s))"
proof -
  let ?m = "modify F cfg f s"
  note a = acted_part [OF assms(1), of f]
  have lt: "current_index (acted f s) < length (es_stack (acted f s))"
    using assms(1) a by simp
  have p: "pushed cfg (acted f s) ?m"
    unfolding modify_acted by (rule one_push [OF assms(3) lt])
  note i = pushed_instances [OF p lt assms(2)] and l = pushed_index [OF p lt]
  show "copy_of (current_conf (onUndo F cfg ?m)) = copy_of (current_conf s)"
    using i(2) by (simp add: current_conf_def onUndo_part a [unfolded current_conf_def])
  have "current_index (onRedo F cfg (onUndo F cfg ?m)) = current_index ?m"
    using i(1) l by (simp add: onRedo_part onUndo_part)
  then show "copy_of (current_conf (onRedo F cfg (onUndo F cfg ?m))) = copy_of (f (current_conf s))"
    using i(3) by (simp add: current_conf_def onUndo_part onRedo_part(1) a [unfolded current_conf_def])
qed

section \<open>Actions of the user\<close>

text \<open>What the operations of the configuration send: the quiet ones nothing, an action at most one signal that is pushed.\<close>

definition outside :: "configuration \<Rightarrow> signal list \<times> int" where
  "outside c = (signals c, idCounter c)"

lemma outside_updates [simp]:
  "outside (c\<lparr>cf_loops := L\<rparr>) = outside c" "outside (c\<lparr>cf_rules := R\<rparr>) = outside c"
  "outside (c\<lparr>domains := D\<rparr>) = outside c" "outside (c\<lparr>default_domain := d\<rparr>) = outside c"
  "outside (c\<lparr>programs := P\<rparr>) = outside c"
  by (simp_all add: outside_def)

lemma quiet_outside [simp]:
  "outside (addLoop l True c) = outside c" "outside (addRule r True c) = outside c"
  "outside (deleteLoop l True c) = outside c" "outside (deleteRule r True c) = outside c"
  "outside (updateLoop l True c) = outside c" "outside (updateRule r True c) = outside c"
  "outside (snd (deleteLoop_id i True c)) = outside c" "outside (snd (deleteRule_id i True c)) = outside c"
  by (simp_all add: addLoop_def addRule_def deleteLoop_def deleteRule_def updateLoop_def updateRule_def
      deleteLoop_id_def deleteRule_id_def split: prod.split option.split)

lemma passes_outside [simp]:
  "outside (snd (updateDomain_loops old_name d ls (u, c))) = outside c"
  "outside (snd (updateDomain_rules old_name d rs (u, c))) = outside c"
  "outside (snd (deleteDomain_loops name ls (u, c))) = outside c"
  "outside (snd (deleteDomain_rules name rs (u, c))) = outside c"
proof -
  show "outside (snd (updateDomain_loops old_name d ls (u, c))) = outside c"
    by (induction ls arbitrary: u c) (simp_all add: case_prod_beta)
  show "outside (snd (updateDomain_rules old_name d rs (u, c))) = outside c"
    by (induction rs arbitrary: u c) (simp_all add: case_prod_beta Let_def)
  show "outside (snd (deleteDomain_loops name ls (u, c))) = outside c"
    by (induction ls arbitrary: u c) (simp_all add: case_prod_beta)
  show "outside (snd (deleteDomain_rules name rs (u, c))) = outside c"
    by (induction rs arbitrary: u c) (simp_all add: case_prod_beta)
qed

definition sends :: "configuration \<Rightarrow> configuration \<Rightarrow> bool" where
  "sends c c' \<longleftrightarrow> idCounter c \<le> idCounter c' \<and>
     (\<exists>sgs. signals c' = signals c @ sgs \<and> length (filter pushes sgs) \<le> 1)"

lemma sends_outside: "outside c' = outside c \<Longrightarrow> sends c c'"
  by (simp add: sends_def outside_def)

lemma sends_emit: "outside c' = outside c \<Longrightarrow> sends c (emit sg c')"
  by (simp add: sends_def outside_def emit_def)

lemma sends_changes:
  assumes "outside c' = outside c"
  shows "sends c (emit (DomainChanged a b) (emit_changes l r c'))"
  using assms by (auto simp: sends_def outside_def emit_def emit_changes_def)

lemma sends_cleared:
  assumes "outside c' = outside c"
  shows "sends c (emit (DomainChanged a b) (emit_changes l r c'))"
    "sends c (emit (DomainChanged a b) (emit_changes l r c'\<lparr>default_domain := d\<rparr>))"
  using assms by (auto simp: sends_def outside_def emit_def emit_changes_def)

lemma perform_sends: "sends c (perform F a c)"
proof (cases a)
  case (NewLoop p n dialog)
  then show ?thesis
    by (simp add: newLoop_def addLoop_def Loop_def Let_def sends_def emit_def)
next
  case (NewRule p n dialog)
  then show ?thesis
    by (simp add: newRule_def addRule_def Rule_def Let_def sends_def emit_def)
next
  case (EditLoop i dialog)
  then show ?thesis
    by (auto simp: editLoop_def updateLoop_def addLoop_def deleteLoop_def Let_def intro: sends_outside sends_emit
        split: dialog_result.split)
next
  case (EditRule i dialog)
  then show ?thesis
    by (auto simp: editRule_def updateRule_def addRule_def deleteRule_def Let_def intro: sends_outside sends_emit
        split: dialog_result.split)
next
  case (DeleteLoop i)
  then show ?thesis
    by (auto simp: deleteLoop_id_def Let_def intro: sends_outside sends_emit split: prod.split option.split)
next
  case (DeleteRule i)
  then show ?thesis
    by (auto simp: deleteRule_id_def Let_def intro: sends_outside sends_emit split: prod.split option.split)
next
  case (DeleteAbstractRule i)
  then show ?thesis
    by (cases "findAbstractRule i c")
      (auto simp: deleteAbstractRule_id_def deleteLoop_def deleteRule_def Let_def intro: sends_outside sends_emit)
next
  case (SwapPriorities i j)
  then show ?thesis
    by (simp add: swapPriorities_def Let_def case_prod_beta sends_outside sends_emit)
next
  case (AddDomain d set_default)
  then show ?thesis
    by (simp add: addDomain_def Let_def sends_outside sends_emit)
next
  case (EditDomain name edited d set_default)
  then show ?thesis
    by (simp add: editDomain_def updateDomain_def Let_def case_prod_beta sends_outside sends_changes)
next
  case (DeleteDomain name choice)
  have "sends c (snd (deleteDomain name new_default c))" for new_default
    by (simp add: deleteDomain_def Let_def case_prod_beta sends_outside sends_cleared)
  with DeleteDomain show ?thesis
    by (simp add: onDomainDelete_def sends_outside split: option.split)
qed (simp_all add: addProgram_def updateProgram_def deleteProgram_def Let_def sends_outside sends_emit)

lemma edit_sends: "edit_step F c c' \<Longrightarrow> sends c c'"
  by (auto elim!: edit_step.cases simp: perform_sends)

section \<open>Every instance\<close>

text \<open>There is a current instance, and all instances and the copy from before the last change have a property, with the
  class-wide counter of identifiers.\<close>

definition stack_all :: "(configuration \<Rightarrow> bool) \<Rightarrow> 'doc estack \<Rightarrow> bool" where
  "stack_all P s \<longleftrightarrow> current_index s < length (es_stack s) \<and>
     (\<forall>c \<in> insert (before_last_change s) (fst ` set (es_stack s)). P (c\<lparr>idCounter := es_counter s\<rparr>))"

definition editor_wf :: "'doc estack \<Rightarrow> bool" where
  "editor_wf s \<longleftrightarrow> stack_all config_wf s"

lemma instance_counter [simp]: "idCounter (instance_at i s) = es_counter s" "signals (instance_at i s) = []"
  by (simp_all add: instance_at_def)

lemma stack_all_cong: "undo_part s = undo_part t \<Longrightarrow> stack_all P s = stack_all P t"
  using undo_part_eqD [of s t] by (simp add: stack_all_def)

lemma pushed_all:
  assumes "pushed cfg s s'" "stack_all P s"
  shows "stack_all P s'"
proof -
  have lt: "current_index s < length (es_stack s)"
    using assms(2) by (simp add: stack_all_def)
  obtain a b where st: "es_stack s' = (let st = take (current_index s) (es_stack s) @
        [(before_last_change s, a), (fst (es_stack s ! current_index s), b)]
      in if int (current_index s) + 2 > maxStackSize cfg then drop 1 st else st)"
    and "before_last_change s' = before_last_change s" "es_counter s' = es_counter s"
    using assms(1) unfolding pushed_def Let_def by auto
  moreover have "set (es_stack s') \<subseteq> set (es_stack s) \<union> {(before_last_change s, a), (fst (es_stack s ! current_index s), b)}"
    unfolding st Let_def using set_drop_subset set_take_subset by (fastforce split: if_splits)
  moreover have "fst (es_stack s ! current_index s) \<in> fst ` set (es_stack s)"
    using lt by simp
  ultimately show ?thesis
    using assms(2) pushed_index [OF assms(1) lt] unfolding stack_all_def by fastforce
qed

lemma on_signals_all:
  assumes "stack_all P s"
  shows "stack_all P (fold (on_signal F cfg) sgs s)"
  using assms
proof (induction sgs arbitrary: s)
  case (Cons sg sgs)
  then have "current_index s < length (es_stack s)"
    by (simp add: stack_all_def)
  from on_signal_effect [OF this, of sg cfg F] have "stack_all P (on_signal F cfg sg s)"
    using Cons.prems pushed_all stack_all_cong by (metis (full_types))
  then show ?case
    using Cons.IH by simp
qed simp

lemma onUndo_all: "stack_all P s \<Longrightarrow> stack_all P (onUndo F cfg s)"
  by (auto simp: stack_all_def onUndo_part)

lemma onRedo_all: "stack_all P s \<Longrightarrow> stack_all P (onRedo F cfg s)"
  by (auto simp: stack_all_def onRedo_part)

lemma undo_part_fields [simp]:
  "undo_part (s\<lparr>es_programs := x\<rparr>) = undo_part s" "undo_part (s\<lparr>es_written := y\<rparr>) = undo_part s"
  "undo_part (s\<lparr>es_path := z\<rparr>) = undo_part s" "undo_part (s\<lparr>hidden_domains := hd1\<rparr>) = undo_part s"
  "undo_part (s\<lparr>hidden_programs := hp\<rparr>) = undo_part s" "undo_part (s\<lparr>hidden_rules := hr\<rparr>) = undo_part s"
  by (simp_all add: undo_part_def)

lemma stack_all_fields [simp]:
  "stack_all P (s\<lparr>es_programs := x\<rparr>) = stack_all P s" "stack_all P (s\<lparr>es_written := y\<rparr>) = stack_all P s"
  "stack_all P (s\<lparr>es_path := z\<rparr>) = stack_all P s" "stack_all P (stack_emit sg s) = stack_all P s"
  "stack_all P (s\<lparr>hidden_domains := hd1\<rparr>) = stack_all P s" "stack_all P (s\<lparr>hidden_programs := hp\<rparr>) = stack_all P s"
  "stack_all P (s\<lparr>hidden_rules := hr\<rparr>) = stack_all P s"
  by (rule stack_all_cong, simp)+

lemma stack_all_saved [simp]: "stack_all P (s\<lparr>last_saved_index := k\<rparr>) = stack_all P s"
  "stack_all P (s\<lparr>es_path := z, last_saved_index := k\<rparr>) = stack_all P s"
  by (simp_all add: stack_all_def)

lemma saveTransitions_all: "stack_all P s \<Longrightarrow> stack_all P (snd (saveTransitions F X can_open bytes path s))"
  by (simp add: saveTransitions_def Let_def)

lemma save_first_all: "stack_all P s \<Longrightarrow> stack_all P (snd (save_first F X rp s))"
  by (simp add: save_first_def proposeSaveTransitions_def Let_def saveTransitions_all)

lemma initialise_slots_all: "stack_all P (initialise_slots F cfg s) = stack_all P s"
  by (simp add: initialise_slots_def stack_updateWarnings_def case_prod_beta stack_all_def stack_emit_def)

lemma fold_keeps:
  assumes "\<And>x r. P r \<Longrightarrow> P (f x r)" "P r"
  shows "P (fold f xs r)"
  using assms(2) by (induction xs arbitrary: r) (simp_all add: assms(1))

text \<open>A property of configurations that depends on their own members and the counter only, and stays true when the counter grows.\<close>

locale instance_invariant =
  fixes P :: "configuration \<Rightarrow> bool"
  assumes grows: "P c \<Longrightarrow> idCounter c \<le> n \<Longrightarrow> P (c\<lparr>idCounter := n\<rparr>)"
    and hidden: "P (c\<lparr>assigned_values := a, signals := sg\<rparr>) = P c"
    and copied: "P ((copy_of c)\<lparr>idCounter := n\<rparr>) = P (c\<lparr>idCounter := n\<rparr>)"
begin

lemma grows_at: "P (c\<lparr>idCounter := m\<rparr>) \<Longrightarrow> m \<le> n \<Longrightarrow> P (c\<lparr>idCounter := n\<rparr>)"
  using grows [of "c\<lparr>idCounter := m\<rparr>" n] by simp

lemma at_instance: "P (instance_at i s) = P ((fst (es_stack s ! i))\<lparr>idCounter := es_counter s\<rparr>)"
  using hidden [where c = "(fst (es_stack s ! i))\<lparr>idCounter := es_counter s\<rparr>"] by (simp add: instance_at_def)

lemma all_instance: "stack_all P s \<Longrightarrow> i < length (es_stack s) \<Longrightarrow> P (instance_at i s)"
  by (simp add: at_instance stack_all_def)

lemma all_current: "stack_all P s \<Longrightarrow> P (current_conf s)"
  unfolding current_conf_def by (rule all_instance) (simp_all add: stack_all_def)

lemma put_instance_all:
  assumes "stack_all P s" "i < length (es_stack s)" "P c" "es_counter s \<le> idCounter c"
  shows "stack_all P (put_instance i c s)"
proof -
  have old: "P (c'\<lparr>idCounter := idCounter c\<rparr>)" if "c' \<in> insert (before_last_change s) (fst ` set (es_stack s))" for c'
    using assms(1,4) that grows_at unfolding stack_all_def by blast
  have "P ((fst p)\<lparr>idCounter := idCounter c\<rparr>)" if "p \<in> set ((es_stack s)[i := (copy_of c, x)])" for p x
  proof -
    from that consider "p = (copy_of c, x)" | "p \<in> set (es_stack s)"
      using set_update_subset_insert [of "es_stack s" i "(copy_of c, x)"] by blast
    then show ?thesis
      using old [of "fst p"] assms(3) by cases (simp_all add: copied)
  qed
  then show ?thesis
    using assms(1) old [of "before_last_change s"] by (simp add: stack_all_def put_instance_def)
qed

lemma modify_all:
  assumes "stack_all P s" "P (f (current_conf s))" "es_counter s \<le> idCounter (f (current_conf s))"
  shows "stack_all P (modify F cfg f s)"
proof -
  let ?s = "s\<lparr>before_last_change := copy_of (current_conf s)\<rparr>"
  have "P ((current_conf s)\<lparr>idCounter := es_counter s\<rparr>)"
    using all_current [OF assms(1)] grows [of "current_conf s" "es_counter s"] by (simp add: current_conf_def)
  then have "stack_all P ?s"
    using assms(1) by (simp add: stack_all_def copied)
  then have "stack_all P (acted f s)"
    using assms unfolding acted_def by (intro put_instance_all) (simp_all add: stack_all_def)
  then show ?thesis
    unfolding modify_acted by (rule on_signals_all)
qed

lemma apply_at_all:
  assumes "\<And>c. P c \<Longrightarrow> P (op c)" "\<And>c. idCounter (op c) = idCounter c" "\<And>c. signals c = [] \<Longrightarrow> filter pushes (signals (op c)) = []"
    "stack_all P s" "i < length (es_stack s)"
  shows "stack_all P (apply_at F cfg op i s)" "length (es_stack (apply_at F cfg op i s)) = length (es_stack s)"
proof -
  let ?p = "put_instance i (op (instance_at i s)) s"
  have c: "P (op (instance_at i s))" "idCounter (op (instance_at i s)) = es_counter s"
    "filter pushes (signals (op (instance_at i s))) = []"
    using assms(1-3) all_instance [OF assms(4,5)] by simp_all
  have all: "stack_all P ?p"
    using put_instance_all [OF assms(4,5) c(1)] c(2) by simp
  then have lt: "current_index ?p < length (es_stack ?p)"
    by (simp add: stack_all_def)
  have "undo_part (if b then fold (on_signal F cfg) (signals (op (instance_at i s))) ?p else ?p) = undo_part ?p" for b
    using no_push [OF c(3) lt] by simp
  then have u: "undo_part (apply_at F cfg op i s) = undo_part ?p"
    unfolding apply_at_def Let_def .
  show "stack_all P (apply_at F cfg op i s)"
    using all stack_all_cong [OF u] by simp
  show "length (es_stack (apply_at F cfg op i s)) = length (es_stack s)"
    using undo_part_eqD(1) [OF u] by (simp add: put_instance_def)
qed

lemma apply_all_all:
  assumes "\<And>c. P c \<Longrightarrow> P (op c)" "\<And>c. idCounter (op c) = idCounter c" "\<And>c. signals c = [] \<Longrightarrow> filter pushes (signals (op c)) = []"
    "stack_all P s"
  shows "stack_all P (apply_all F cfg op s)"
proof -
  let ?s = "s\<lparr>before_last_change := copy_of (op (current_conf s))\<rparr>"
  have "P ((op (current_conf s))\<lparr>idCounter := es_counter s\<rparr>)"
    using assms(1) [OF all_current [OF assms(4)]] grows [of "op (current_conf s)" "es_counter s"] assms(2) [of "current_conf s"]
    by (simp add: current_conf_def)
  then have "stack_all P ?s"
    using assms(4) by (simp add: stack_all_def copied)
  moreover have step: "stack_all P (fold (apply_at F cfg op) is t)" if "stack_all P t" "\<forall>i \<in> set is. i < length (es_stack t)" for "is" t
    using that by (induction "is" arbitrary: t) (simp_all add: apply_at_all [OF assms(1-3)])
  ultimately show ?thesis
    using step [of ?s "[0..<length (es_stack s)]"] by (simp add: apply_all_def Let_def)
qed

end

section \<open>Actions on the stack\<close>

text \<open>The actions of the editor: those on the current configuration, undo and redo, files, programs and hidden objects.  What the
  dialogs and files give is part of the action.\<close>

datatype 'doc editor_action =
    Act edit_action
  | Undo
  | Redo
  | New "'doc disk" replies
  | Open "'doc disk" replies
  | OpenFile "'doc disk" replies string
  | OpenTmp "'doc disk" replies string
  | Save replies
  | SaveAs replies
  | SaveToTmp bool string int
  | AddStackProgram string bool bool bool program string
  | ImportPrograms string bool bool bool "(string \<times> 'doc option) list"
  | UpdateStackProgram bool string string program
  | DeleteStackProgram string
  | HideDomain string
  | HideProgram string
  | HideRule int
  | ShowDomain string
  | ShowProgram string
  | ShowRule int

fun editor_perform ::
    "framework \<Rightarrow> 'doc xml \<Rightarrow> editor_config \<Rightarrow> 'doc editor_action \<Rightarrow> 'doc estack \<Rightarrow> fault + 'doc estack" where
  "editor_perform F X cfg (Act a) s = Inr (modify F cfg (perform F a) s)"
| "editor_perform F X cfg Undo s = Inr (onUndo F cfg s)"
| "editor_perform F X cfg Redo s = Inr (onRedo F cfg s)"
| "editor_perform F X cfg (New disk rp) s = Inr (onNew F X disk cfg rp s)"
| "editor_perform F X cfg (Open disk rp) s = Inr (onOpen F X disk cfg rp s)"
| "editor_perform F X cfg (OpenFile disk rp path) s = Inr (openTransitionsFile F X disk cfg rp path s)"
| "editor_perform F X cfg (OpenTmp disk rp path) s = Inr (openTmpTransitions F X disk cfg rp path s)"
| "editor_perform F X cfg (Save rp) s = Inr (onSave F X rp s)"
| "editor_perform F X cfg (SaveAs rp) s = Inr (onSaveAs F X rp s)"
| "editor_perform F X cfg (SaveToTmp can_open dataLoc pid) s = Inr (onSaveToTmp F X can_open dataLoc pid s)"
| "editor_perform F X cfg (AddStackProgram dataLoc replace reload can_open p path) s =
     stack_addProgram F X cfg dataLoc replace reload can_open p path s"
| "editor_perform F X cfg (ImportPrograms dataLoc replace reload can_open paths) s =
     addProgramsFromFiles F X cfg dataLoc replace reload can_open paths s"
| "editor_perform F X cfg (UpdateStackProgram can_open freed old_name p) s =
     Inr (stack_updateProgram F X cfg can_open freed old_name p s)"
| "editor_perform F X cfg (DeleteStackProgram name) s = Inr (stack_deleteProgram F cfg name s)"
| "editor_perform F X cfg (HideDomain name) s = Inr (addHiddenDomain name s)"
| "editor_perform F X cfg (HideProgram name) s = Inr (addHiddenProgram name s)"
| "editor_perform F X cfg (HideRule i) s = Inr (addHiddenRule i s)"
| "editor_perform F X cfg (ShowDomain name) s = Inr (removeHiddenDomain name s)"
| "editor_perform F X cfg (ShowProgram name) s = Inr (removeHiddenProgram name s)"
| "editor_perform F X cfg (ShowRule i) s = Inr (removeHiddenRule i s)"

text \<open>A session with the settings at each action, up to its first fault, and a condition on all its actions.\<close>

fun editor_run ::
    "framework \<Rightarrow> 'doc xml \<Rightarrow> (editor_config \<times> 'doc editor_action) list \<Rightarrow> 'doc estack \<Rightarrow> fault + 'doc estack" where
  "editor_run F X [] s = Inr s"
| "editor_run F X ((cfg, a) # as) s = bind_fault (editor_perform F X cfg a s) (editor_run F X as)"

fun editor_all ::
    "('doc estack \<Rightarrow> 'doc editor_action \<Rightarrow> bool) \<Rightarrow> framework \<Rightarrow> 'doc xml \<Rightarrow> (editor_config \<times> 'doc editor_action) list \<Rightarrow> 'doc estack \<Rightarrow> bool" where
  "editor_all Q F X [] s \<longleftrightarrow> True"
| "editor_all Q F X ((cfg, a) # as) s \<longleftrightarrow>
     Q s a \<and> (case editor_perform F X cfg a s of Inl e \<Rightarrow> True | Inr s' \<Rightarrow> editor_all Q F X as s')"

text \<open>A condition on the actions on configurations, as one on the actions of the editor; a file that is opened declares the domains that
  its rules lead to.\<close>

fun editor_allowed ::
    "(configuration \<Rightarrow> edit_action \<Rightarrow> bool) \<Rightarrow> 'doc xml \<Rightarrow> 'doc estack \<Rightarrow> 'doc editor_action \<Rightarrow> bool" where
  "editor_allowed al X s (Act a) \<longleftrightarrow> al (current_conf s) a"
| "editor_allowed al X s (UpdateStackProgram can_open freed old_name p) \<longleftrightarrow> al (current_conf s) (UpdateProgram old_name p)"
| "editor_allowed al X s (Open disk rp) \<longleftrightarrow> file_declares_targets X disk (open_path rp)"
| "editor_allowed al X s (OpenFile disk rp path) \<longleftrightarrow> file_declares_targets X disk path"
| "editor_allowed al X s (OpenTmp disk rp path) \<longleftrightarrow> file_declares_targets X disk path"
| "editor_allowed al X s _ \<longleftrightarrow> True"

lemma program_ops_sent:
  "idCounter (snd (addProgram F p q c)) = idCounter c" "idCounter (snd (deleteProgram F name c)) = idCounter c"
  "idCounter (snd (updateProgram F old p c)) = idCounter c"
  "signals c = [] \<Longrightarrow> filter pushes (signals (snd (addProgram F p q c))) = []"
  "signals c = [] \<Longrightarrow> filter pushes (signals (snd (deleteProgram F name c))) = []"
  "signals c = [] \<Longrightarrow> filter pushes (signals (snd (updateProgram F old p c))) = []"
  by (simp_all add: addProgram_def deleteProgram_def updateProgram_def Let_def emit_def)

text \<open>An invariant that the allowed actions on configurations keep, and that new configurations have.\<close>

locale editor_invariant = instance_invariant P for P +
  fixes F :: framework and X :: "'doc xml" and allowed :: "configuration \<Rightarrow> edit_action \<Rightarrow> bool"
  assumes kept: "P c \<Longrightarrow> allowed c a \<Longrightarrow> P (perform F a c)"
    and programs_allowed: "allowed c (AddProgram p q)" "allowed c (DeleteProgram name)"
    and renaming_allowed: "allowed c (UpdateProgram old p) \<Longrightarrow> allowed c' (UpdateProgram old p)"
    and counts: "P c \<Longrightarrow> InvalidId \<le> idCounter c"
    and made: "InvalidId \<le> n \<Longrightarrow> path = [] \<or> file_declares_targets X disk path \<Longrightarrow>
      P (Configuration F X disk path False ps n av)"
begin

lemma programs_kept:
  "P c \<Longrightarrow> P (snd (addProgram F p q c))" "P c \<Longrightarrow> P (snd (deleteProgram F name c))"
  "P c \<Longrightarrow> allowed c' (UpdateProgram old p) \<Longrightarrow> P (snd (updateProgram F old p c))"
  using kept [of c "AddProgram p q"] kept [of c "DeleteProgram name"] kept [of c "UpdateProgram old p"]
    programs_allowed renaming_allowed by simp_all

lemma deleteProgram_all: "stack_all P s \<Longrightarrow> stack_all P (stack_deleteProgram F cfg name s)"
  by (simp add: stack_deleteProgram_def apply_all_all programs_kept program_ops_sent split: option.split)

lemma updateProgram_all:
  "stack_all P s \<Longrightarrow> allowed c (UpdateProgram old p) \<Longrightarrow> stack_all P (stack_updateProgram F X cfg can_open freed old p s)"
  by (simp add: stack_updateProgram_def apply_all_all programs_kept(3) [of _ c] program_ops_sent Let_def split: option.split)

lemma addProgram_all:
  assumes "stack_addProgram F X cfg dataLoc replace reload can_open p path s = Inr s'" "stack_all P s"
  shows "stack_all P s'"
proof -
  have new: "stack_all P t'" if "add_new_program F X cfg dataLoc reload can_open p path t = Inr t'" "stack_all P t" for t t'
    using that by (auto simp: add_new_program_def Let_def apply_all_all programs_kept program_ops_sent split: if_splits)
  show ?thesis
    using assms new [of s s'] new [of "stack_deleteProgram F cfg (app_name p) s" s'] deleteProgram_all [OF assms(2)]
    by (auto simp: stack_addProgram_def split: if_splits)
qed

lemma addProgramsFromFiles_all:
  assumes "addProgramsFromFiles F X cfg dataLoc replace reload can_open paths s = Inr s'" "stack_all P s"
  shows "stack_all P s'"
proof -
  let ?step = "\<lambda>(path, doc) r. bind_fault r (\<lambda>s. case doc of None \<Rightarrow> Inr s
    | Some d \<Rightarrow> let p = Program_file F X (Some d)
        in if program_isValid F p then stack_addProgram F X cfg dataLoc replace reload can_open p path s else Inr s)"
  have step: "\<forall>t. ?step x r = Inr t \<longrightarrow> stack_all P t" if "\<forall>t. r = Inr t \<longrightarrow> stack_all P t" for x r
  proof -
    obtain path doc where x: "x = (path, doc)"
      by fastforce
    show ?thesis
    proof (intro allI impI)
      fix t
      assume "?step x r = Inr t"
      then obtain t0 where t0: "r = Inr t0" "(case doc of None \<Rightarrow> Inr t0
          | Some d \<Rightarrow> let p = Program_file F X (Some d)
              in if program_isValid F p then stack_addProgram F X cfg dataLoc replace reload can_open p path t0 else Inr t0) = Inr t"
        unfolding x prod.case bind_fault_Inr_iff by blast
      then show "stack_all P t"
        using that addProgram_all by (auto simp: Let_def split: option.splits if_splits)
    qed
  qed
  have "\<forall>t. fold ?step paths (Inr s) = Inr t \<longrightarrow> stack_all P t"
    by (rule fold_keeps [where P = "\<lambda>r. \<forall>t. r = Inr t \<longrightarrow> stack_all P t", OF step]) (use assms(2) in simp_all)
  then show ?thesis
    using assms(1) unfolding addProgramsFromFiles_def by blast
qed

lemma initialise_instance_all:
  assumes "InvalidId \<le> es_counter s" "es_path s = [] \<or> file_declares_targets X disk (es_path s)"
  shows "stack_all P (initialise_instance F X disk s)"
proof -
  have "P (Configuration F X disk (es_path s) False ps (es_counter s) a)" for ps a
    by (rule made [OF assms])
  then show ?thesis
    by (simp add: initialise_instance_def Let_def stack_all_def clearOnDemandWarnings_def clearARPCache_def stack_emit_def copied)
qed

lemma reinitialise_all:
  assumes "stack_all P s" "path = [] \<or> file_declares_targets X disk path"
  shows "stack_all P (reinitialise F X disk cfg path s)"
  using initialise_instance_all [of "s\<lparr>es_path := path\<rparr>" disk] counts [OF all_current [OF assms(1)]] assms(2)
  by (simp add: reinitialise_def initialise_def initialise_slots_all current_conf_def)

lemma perform_all:
  assumes "stack_all P s" "editor_perform F X cfg a s = Inr s'" "editor_allowed allowed X s a"
  shows "stack_all P s'"
proof (cases a)
  case (Act e)
  have "es_counter s \<le> idCounter (perform F e (current_conf s))"
    using perform_sends [of "current_conf s" F e] by (simp add: sends_def current_conf_def)
  then show ?thesis
    using assms Act kept [OF all_current [OF assms(1)]] modify_all [of s "perform F e"] by auto
next
  case (New disk rp)
  then show ?thesis
    using assms save_first_all [OF assms(1), of F X rp] by (auto simp: onNew_def case_prod_beta reinitialise_all)
next
  case (Open disk rp)
  then show ?thesis
    using assms save_first_all [OF assms(1), of F X rp] by (auto simp: onOpen_def case_prod_beta reinitialise_all)
next
  case (OpenFile disk rp path)
  then show ?thesis
    using assms save_first_all [OF assms(1), of F X rp]
    by (auto simp: openTransitionsFile_def case_prod_beta Let_def reinitialise_all)
next
  case (OpenTmp disk rp path)
  then show ?thesis
    using assms save_first_all [OF assms(1), of F X rp]
    by (auto simp: openTmpTransitions_def openTransitionsFile_def case_prod_beta Let_def reinitialise_all)
next
  case (AddStackProgram dataLoc replace reload can_open p path)
  then show ?thesis using addProgram_all assms by simp
next
  case (ImportPrograms dataLoc replace reload can_open paths)
  then show ?thesis using addProgramsFromFiles_all assms by simp
next
  case (UpdateStackProgram can_open freed old p)
  then show ?thesis using updateProgram_all [OF assms(1)] assms(2,3) by auto
next
  case (DeleteStackProgram name)
  then show ?thesis using deleteProgram_all [OF assms(1)] assms(2) by auto
qed (use assms(1,2) in \<open>auto simp: onUndo_all onRedo_all onSave_def onSaveAs_def onSaveToTmp_def saveTransitions_all
    addHiddenDomain_def addHiddenProgram_def addHiddenRule_def removeHiddenDomain_def removeHiddenProgram_def removeHiddenRule_def\<close>)

lemma run_all:
  "stack_all P s \<Longrightarrow> editor_run F X as s = Inr s' \<Longrightarrow> editor_all (editor_allowed allowed X) F X as s \<Longrightarrow> stack_all P s'"
proof (induction as arbitrary: s)
  case (Cons ca as)
  obtain cfg a where ca: "ca = (cfg, a)" by fastforce
  from Cons.prems(2) obtain t where t: "editor_perform F X cfg a s = Inr t" "editor_run F X as t = Inr s'"
    by (auto simp: ca bind_fault_Inr_iff)
  with Cons.prems(3) have q: "editor_allowed allowed X s a" "editor_all (editor_allowed allowed X) F X as t"
    by (simp_all add: ca)
  show ?case
    by (rule Cons.IH [OF perform_all [OF Cons.prems(1) t(1) q(1)] t(2) q(2)])
qed simp

lemma start_all:
  assumes "ConfigurationStack F X disk cfg dataLoc replace reload can_open known n a = Inr s" "InvalidId \<le> n"
  shows "stack_all P s"
proof -
  obtain s1 where s1: "addProgramsFromFiles F X cfg dataLoc replace reload can_open known (initialise_instance F X disk (empty_stack n a)) = Inr s1"
    "s = initialise_slots F cfg s1"
    using assms(1) by (auto simp: ConfigurationStack_def bind_fault_Inr_iff)
  have "stack_all P (initialise_instance F X disk (empty_stack n a))"
    using assms(2) by (intro initialise_instance_all) (simp_all add: empty_stack_def)
  then show ?thesis
    using addProgramsFromFiles_all [OF s1(1)] by (simp add: s1(2) initialise_slots_all)
qed

end

lemma Configuration_without_file:
  "Configuration F X disk [] False ps n a = Configuration F X \<lparr>transitions_file = (\<lambda>_. None), program_files = []\<rparr> [] False ps n a"
  by (simp add: Configuration_def readConf_def parseTransitionsFile_def)

lemma new_configuration_wf:
  assumes "InvalidId \<le> n" "path = [] \<or> file_declares_targets X disk path"
  shows "config_wf (Configuration F X disk path False ps n a)"
proof (cases "path = []")
  case True
  show ?thesis
    unfolding True Configuration_without_file [of F X disk] using assms(1)
    by (intro Configuration_wf) (simp_all add: file_declares_targets_def)
qed (use assms Configuration_wf in blast)

lemma invariants_hidden:
  "config_wf (c\<lparr>assigned_values := a, signals := sg\<rparr>) = config_wf c"
  "config_wf ((copy_of c)\<lparr>idCounter := n\<rparr>) = config_wf (c\<lparr>idCounter := n\<rparr>)"
  "config_ordered (c\<lparr>assigned_values := a, signals := sg\<rparr>) = config_ordered c"
  "config_ordered ((copy_of c)\<lparr>idCounter := n\<rparr>) = config_ordered (c\<lparr>idCounter := n\<rparr>)"
  by (simp_all add: config_wf_def config_ordered_def copy_of_def config_assign_def)

lemma invariants_counter:
  "config_wf c \<Longrightarrow> InvalidId \<le> idCounter c" "config_ordered c \<Longrightarrow> InvalidId \<le> idCounter c"
  by (simp_all add: config_wf_def config_ordered_def)

interpretation wfi: editor_invariant config_wf F X "\<lambda>c a. offered c a \<and> in_place F c a" for F and X :: "'doc xml"
proof unfold_locales
  fix c :: configuration and n :: int
  assume "config_wf c" "idCounter c \<le> n"
  moreover from this have "\<forall>i \<in> ids (cf_loops c) \<union> ids (cf_rules c). InvalidId < i \<and> i \<le> n"
    unfolding config_wf_def stores_wf_def using order_trans by blast
  ultimately show "config_wf (c\<lparr>idCounter := n\<rparr>)" by (simp add: config_wf_def stores_wf_def)
qed (use new_configuration_wf in \<open>simp_all add: invariants_hidden invariants_counter perform_wf\<close>)

interpretation ordi: editor_invariant config_ordered F X offered for F and X :: "'doc xml"
proof unfold_locales
  fix c :: configuration and n :: int
  assume "config_ordered c" "idCounter c \<le> n"
  moreover from this have "\<forall>i \<in> ids (cf_loops c) \<union> ids (cf_rules c). InvalidId < i \<and> i \<le> n"
    unfolding config_ordered_def using order_trans by blast
  ultimately show "config_ordered (c\<lparr>idCounter := n\<rparr>)" by (simp add: config_ordered_def)
qed (use config_wf_ordered [OF new_configuration_wf] in \<open>simp_all add: invariants_hidden invariants_counter perform_ordered\<close>)

lemma editor_allowed_both:
  "editor_allowed al X s a \<and> editor_allowed bl X s a \<longleftrightarrow> editor_allowed (\<lambda>c a. al c a \<and> bl c a) X s a"
  by (cases a) auto

lemma editor_all_both:
  "editor_all Q F X as s \<and> editor_all R F X as s \<longleftrightarrow> editor_all (\<lambda>s a. Q s a \<and> R s a) F X as s"
  by (induction Q F X as s rule: editor_all.induct) (auto split: sum.split)

section \<open>Properties\<close>

definition no_files :: "dnode disk" where
  "no_files = \<lparr>transitions_file = (\<lambda>_. None), program_files = []\<rparr>"

definition sample_stack :: "dnode estack" where
  "sample_stack = initialise simple_framework tree_xml no_files all_warnings (empty_stack 0 clearAssignedValues)"

lemma sample_stack_start:
  "ConfigurationStack simple_framework tree_xml no_files all_warnings ''/data'' False False True [] 0 clearAssignedValues =
     Inr sample_stack"
  by (simp add: ConfigurationStack_def addProgramsFromFiles_def sample_stack_def initialise_def)

text \<open>
  C16: an action of the user on the current configuration that announces a change of domains, loops or rules is undone by one
  undo, which restores all members of the configuration, and done again by one redo; this holds as long as the stack may hold
  two configurations, also when the action removes the oldest one from the stack.  (Changes of programs are not pushed on
  the stack.)
\<close>

theorem undo_reverts_action:
  assumes "current_index s < length (es_stack s)" and "2 \<le> maxStackSize cfg"
    and "edit_step F (current_conf s) (f (current_conf s))" and "\<exists>sg \<in> set (signals (f (current_conf s))). pushes sg"
  shows "copy_of (current_conf (onUndo F cfg (modify F cfg f s))) = copy_of (current_conf s) \<and>
    copy_of (current_conf (onRedo F cfg (onUndo F cfg (modify F cfg f s)))) = copy_of (f (current_conf s))"
proof -
  have "length (filter pushes (signals (f (current_conf s)))) \<le> 1"
    using edit_sends [OF assms(3)] by (auto simp: sends_def current_conf_def)
  moreover have "filter pushes (signals (f (current_conf s))) \<noteq> []"
    using assms(4) by (simp add: filter_empty_conv)
  ultimately have "length (filter pushes (signals (f (current_conf s)))) = 1"
    by (simp add: le_Suc_eq)
  then show ?thesis
    using action_undone [OF assms(1,2), of f F] by blast
qed

theorem undo_reverts_action_witness:
  "copy_of (current_conf (onUndo simple_framework all_warnings
     (modify simple_framework all_warnings (addDomain (sample_domain ''web'') True) sample_stack))) = copy_of (current_conf sample_stack)"
proof -
  have "current_index sample_stack < length (es_stack sample_stack)" "2 \<le> maxStackSize all_warnings"
    "\<exists>sg \<in> set (signals (addDomain (sample_domain ''web'') True (current_conf sample_stack))). pushes sg"
    by code_simp+
  then show ?thesis
    using undo_reverts_action [of sample_stack all_warnings simple_framework "addDomain (sample_domain ''web'') True"]
      edit_step.edit [of "current_conf sample_stack" "AddDomain (sample_domain ''web'') True" simple_framework] by simp
qed

text \<open>
  C17: what holds of all configurations on the editor's stack, whatever the user does from its start: actions on the
  current configuration (all of C6), undo, redo, new files, opening, saving, autosaving, adding, importing, editing, renaming
  and deleting programs, and hiding, with any files and settings at every action.  After every session without the use of freed
  memory that adding a program can make, there is a current configuration, and every one on the stack has
  domains and programs filed under their names, the loops and rules under a name in order of priority, and valid
  identifiers that no loop shares with a rule.  If moreover no loop or rule is given another valid program in its dialog, no
  program is renamed and no rule is created without a target, all are well-formed.  The files that are opened
  declare the domains that their rules lead to, and a loop or rule that is edited is one of the current configuration; the path
  that renaming a program reads from freed memory is any.
\<close>

theorem undo_stack_well_formed:
  assumes "ConfigurationStack F X disk cfg dataLoc replace reload can_open known n a = Inr s0" and "InvalidId \<le> n"
    and "editor_run F X acts s0 = Inr s" and "editor_all (editor_allowed offered X) F X acts s0"
  shows "current_index s < length (es_stack s) \<and>
    (\<forall>i < length (es_stack s). config_ordered (instance_at i s)) \<and>
    (editor_all (editor_allowed (in_place F) X) F X acts s0 \<longrightarrow> (\<forall>i < length (es_stack s). config_wf (instance_at i s)))"
proof -
  have ord: "stack_all config_ordered s"
    by (rule ordi.run_all [OF ordi.start_all [OF assms(1,2)] assms(3,4)])
  have "stack_all config_wf s" if "editor_all (editor_allowed (in_place F) X) F X acts s0"
  proof -
    have "editor_all (editor_allowed (\<lambda>c a. offered c a \<and> in_place F c a) X) F X acts s0"
      using assms(4) that unfolding editor_allowed_both [symmetric] editor_all_both [symmetric] by blast
    then show ?thesis
      by (rule wfi.run_all [OF wfi.start_all [OF assms(1,2)] assms(3)])
  qed
  moreover have "current_index s < length (es_stack s)"
    using ord by (simp add: stack_all_def)
  ultimately show ?thesis
    using ordi.all_instance [OF ord] wfi.all_instance by blast
qed

theorem undo_stack_well_formed_witness:
  "config_wf (current_conf (onUndo simple_framework all_warnings
     (modify simple_framework all_warnings (addDomain (sample_domain ''web'') True) sample_stack)))"
proof -
  let ?acts = "[(all_warnings, Act (AddDomain (sample_domain ''web'') True)), (all_warnings, Undo)] :: (editor_config \<times> dnode editor_action) list"
  let ?s = "onUndo simple_framework all_warnings (modify simple_framework all_warnings (addDomain (sample_domain ''web'') True) sample_stack)"
  have run: "editor_run simple_framework tree_xml ?acts sample_stack = Inr ?s"
    by (simp add: perform.simps(9) [abs_def])
  have "editor_all (editor_allowed offered tree_xml) simple_framework tree_xml ?acts sample_stack"
    "editor_all (editor_allowed (in_place simple_framework) tree_xml) simple_framework tree_xml ?acts sample_stack"
    by simp_all
  from undo_stack_well_formed [OF sample_stack_start _ run this(1)] this(2)
  show ?thesis by (simp add: current_conf_def InvalidId_def)
qed

text \<open>
  C39: the editor forgets unsaved changes: after saving, an undo and a different action bring the index back to the one that was saved,
  so the editor takes the configuration for saved, and a new file replaces it without a question.
\<close>

theorem unsaved_action_missed:
  assumes "editor_wf s" and "0 < current_index s" and "int (current_index s) + 1 \<le> maxStackSize cfg" and "0 < bytes"
    and "undone = onUndo F cfg (snd (saveTransitions F X True bytes path s))"
    and "length (filter pushes (signals (f (current_conf undone)))) = 1"
  shows "\<not> hasChanges (modify F cfg f undone) \<and>
    onNew F X disk cfg rp (modify F cfg f undone) = reinitialise F X disk cfg [] (modify F cfg f undone)"
proof -
  have part: "current_index undone = current_index s - 1" "last_saved_index undone = int (current_index s)"
    "es_stack undone = es_stack s"
    using assms(4) by (simp_all add: assms(5) onUndo_part saveTransitions_def Let_def stack_emit_def)
  then have lt: "current_index undone < length (es_stack undone)"
    using assms(1) by (auto simp: editor_wf_def stack_all_def)
  note a = acted_part [OF lt, of f]
  have "pushed cfg (acted f undone) (modify F cfg f undone)"
    unfolding modify_acted using a lt by (intro one_push assms(6)) simp
  then have "current_index (modify F cfg f undone) = current_index s"
    "last_saved_index (modify F cfg f undone) = int (current_index s)"
    using assms(2,3) a part unfolding pushed_def Let_def by auto
  then have "\<not> hasChanges (modify F cfg f undone)"
    by (simp add: hasChanges_def)
  then show ?thesis
    by (simp add: onNew_def save_first_def)
qed

theorem unsaved_action_missed_witness:
  "\<not> hasChanges (modify simple_framework all_warnings (addDomain (sample_domain ''mail'') False)
     (onUndo simple_framework all_warnings (snd (saveTransitions simple_framework tree_xml True 1 ''t.xml''
       (modify simple_framework all_warnings (addDomain (sample_domain ''web'') True) sample_stack)))))"
proof -
  let ?f = "addDomain (sample_domain ''web'') True"
  let ?m = "modify simple_framework all_warnings ?f sample_stack"
  have sent: "length (filter pushes (signals (addDomain (sample_domain (x # xs)) b (current_conf s)))) = 1"
    for x xs b and s :: "dnode estack"
    by (simp add: addDomain_def sample_domain_def Domain_def Domain0_def Let_def emit_def current_conf_def)
  have "stack_all config_wf sample_stack"
    by (rule wfi.start_all [OF sample_stack_start]) (simp add: InvalidId_def)
  then have wf: "editor_wf ?m"
    unfolding editor_wf_def
    by (rule wfi.modify_all) (use wfi.all_current [OF \<open>stack_all config_wf sample_stack\<close>] in
      \<open>simp_all add: addDomain_wf, simp add: addDomain_def Let_def current_conf_def\<close>)
  have start: "current_index sample_stack = 0" "length (es_stack sample_stack) = 1"
    by (simp_all add: sample_stack_def initialise_def initialise_slots_def initialise_instance_def stack_updateWarnings_def
        case_prod_beta stack_emit_def Let_def)
  note a = acted_part [of sample_stack ?f]
  have "pushed all_warnings (acted ?f sample_stack) ?m"
    unfolding modify_acted using a start by (intro one_push sent) simp
  then have "current_index ?m = 1"
    using a start unfolding pushed_def Let_def by (auto simp: all_warnings_def)
  then have "0 < current_index ?m" "int (current_index ?m) + 1 \<le> maxStackSize all_warnings"
    by (simp_all add: all_warnings_def)
  from unsaved_action_missed [where f = "addDomain (sample_domain ''mail'') False" and F = simple_framework and X = tree_xml,
      OF wf this zero_less_one refl sent]
  show ?thesis
    by (rule conjunct1)
qed

end
