(* ===== verification/Spec2Isabelle.thy ===== *)
theory Spec2Isabelle
  imports System Semaphores Configuration_Roundtrip Firewall_Theorems Plugins_Theorems Editor_Theorems
begin

text \<open>
  Context-aware access control: a Linux security module that asks a daemon before it lets monitored programs
  act, the daemon \<open>contextd\<close> that decides by the rules of its configuration in which domain the system is, the library with which
  applications tell the daemon what they do, the plugins of the daemon and the editor for its configuration.

  \<^bold>\<open>How the parts interact.\<close>  A hook of the module (\<open>security/auditsec/hooks.c\<close>) that sees a monitored program create a
  directory, access a file or use a socket writes a description of it into shared memory, wakes the daemon and waits.  The
  kernel thread of the daemon (\<open>auditsec_lsm/kthread.cpp\<close>) fetches it with a system call, turns it into an XML document
  of names and values and hands it to \<open>ContextClient::updateState\<close>; applications send such documents themselves over the
  message bus.  The configuration (\<open>configuration.cpp\<close>) finds the first loop or rule that matches; if it leads to another
  domain, the daemon moves there and tells its plugins, which end programs, open the firewall, load security modules and
  write the log.  The answer goes back to the kernel, and the hook allows or forbids the action.  The editor creates the
  configuration and reports rules and domains that cannot be reached.

  \<^bold>\<open>Theories.\<close>
  \<^item> \<open>Prelude\<close>: faults, C strings, decimal numbers, ordered maps (the interface \<open>ordered_map\<close>).  \<open>Text_Functions\<close>: strings, and
    the record \<open>framework\<close> of what is taken from Qt.
  \<^item> \<open>Prog_Registry\<close>: the list of monitored programs of \<open>share.c\<close> (\<open>register_prog\<close>, \<open>prog_is_monitored\<close>, ...), its
    interface \<open>program_table\<close>, and the text that \<open>prog_liste\<close> prints into a buffer.  \<open>Auditsec_Paths\<close>: \<open>calculate_path\<close>, \<open>dir_path\<close>,
    \<open>file_path\<close>.  \<open>Auditsec_Kernel\<close>: the shared state \<open>kstate\<close>, the hooks, the system calls of \<open>syscall.c\<close>, the files under
    \<open>/proc\<close> and the initialisation.  \<open>Auditsec_Protocol\<close>: all interleavings of any number of hooks with the daemon, as a step
    relation whose steps are the code between two blocking calls.  \<open>Semaphores\<close>: \<open>kernel/semaphore.c\<close> with its list of waiters, and
    the counter that it implements.
  \<^item> \<open>Program_Data\<close>, \<open>Rules\<close>: domains, programs with actions and variables, matching rules, transition rules, loops and
    rules.  \<open>Rule_Table\<close>, \<open>Table_Pass\<close>: the tables of rules, with the interfaces \<open>id_table\<close> and \<open>table_pass\<close>.  \<open>Configuration_Model\<close>:
    the state and the operations of \<open>configuration.cpp\<close>.  \<open>Configuration_Invariant\<close>, \<open>Configuration_Edits\<close>,
    \<open>Configuration_Sessions\<close>, \<open>Configuration_Theorems\<close>: the invariant \<open>config_wf\<close>, the handlers of the editor, sessions of all actions
    with the part \<open>config_ordered\<close> of the invariant that all of them keep, and what the operations do.
  \<^item> \<open>Dom_Tree\<close>, \<open>Program_XML\<close>, \<open>Configuration_XML\<close>, \<open>Configuration_Roundtrip\<close>: reading and writing programs and transitions.
    \<open>Xmlsp\<close>, \<open>Xml_Reading\<close>: the stream parser of \<open>xmlsp.cpp\<close>, and what it reports for a document.
  \<^item> \<open>Context_Client\<close>: the client library (\<open>libcontext_src\<close>).  \<open>Daemon\<close>, \<open>Daemon_Contexts\<close>: the dispatch of events, \<open>updateState\<close>,
    the PIGA monitor, the requests from the bus and from the kernel, the registration of programs, the cleaner and the start of
    the process (\<open>contextd_src\<close>).  \<open>Daemon_Effects\<close>, \<open>Daemon_Theorems\<close>: what they do to the part \<open>core\<close> of the state.
  \<^item> \<open>Killer\<close>, \<open>Firewall\<close>, \<open>Firewall_Theorems\<close>, \<open>Plugins\<close>, \<open>Plugins_Theorems\<close>: the plugins \<open>killer\<close>, \<open>iptable-blocker\<close>, \<open>selinux\<close>,
    \<open>logger\<close> and \<open>xorg\<close>, as functions of the events that the dispatcher delivers.
  \<^item> \<open>Editor_Warnings\<close>, \<open>Editor_Stack\<close>, \<open>Editor_Theorems\<close>: the warnings and the undo stack of the editor
    (\<open>configurationstack.cpp\<close>).
  \<^item> \<open>System\<close>: a hook, the protocol, the thread of the daemon and the rules together.

  \<^bold>\<open>How code is represented.\<close>  Classes and structures are records, enumerations are datatypes, pointers to objects that
  are never shared are the objects.  Operations take and return the state; the name of a definition is that of the function, with a
  suffix where two classes share it.  Undefined behaviour and panics are values of \<open>fault\<close>; errors the code
  handles are results.  What the code gets from outside is an argument: allocation failures, signals, time-outs, the process file
  system, the answers of the user, name resolution, the contents of files and uninitialised memory.  The framework appears as a
  record of functions (\<open>framework\<close>, \<open>xml\<close>, \<open>net\<close>) with what the code relies on as the hypotheses \<open>numbers_ok\<close> and \<open>xml_ok\<close>, which state documented behaviour (numbers are read back
  as far as they are values of the type \<open>int\<close>) and which \<open>simple_framework\<close> and \<open>tree_xml\<close> satisfy.  Commands that are started, signals that are sent, lines of the log and events are
  lists in the state, in order.

  \<^bold>\<open>What is shown.\<close>
  \<^item> Kernel: a hook allows an action only if the daemon decided so for the very request (\<open>hooks_enforce_policy\<close>), with mutual exclusion
    and progress of the exchange; every failure on the way forbids the action; the state stays consistent; only the daemon may use the
    system calls; the semaphores neither lose nor duplicate units.  A time-out can hand an answer to the wrong request.
  \<^item> Configuration: the transition that is found is the first by priority, loops before rules; every editing session keeps a part of the invariant, and all of it
    unless a rule is moved, a program renamed or a rule created without a target; deleting and changing a domain changes exactly what mentions
    it by name; the transitions file and program files are read back, up to what the files cannot hold.
  \<^item> Daemon: the domain changes exactly when a request is granted, to the target of the transition that was found; each question
    is answered once; registrations need an entry of the configuration; reloading leaves the kernel with the programs of the
    configuration.  A call on the bus and a question of the kernel can interleave so that a stale transition is taken.
  \<^item> Library and parser: a context arrives as it was sent, up to the character that is escaped wrongly and for names that need no
    escaping; a document is
    reported element by element.
  \<^item> Plugins: which processes a change of domain ends; the rules that the firewall plugin remembers are those in the chain, and a change of domain
    leaves those of the new domain; loaded security modules belong to current ones.
  \<^item> Editor: the warnings about unreachable domains and rules are exact, and the daemon never gets where they say it does not; an action
    is undone by one undo; all configurations on the stack are in order, and well-formed as far as single ones are.
  \<^item> System: what a hook answers is what the rules say about the state of the daemon (\<open>hooks_follow_rules\<close>).

  The properties carry the numbers C1 to C40.  Each theorem with hypotheses is followed by one that applies it to concrete data.

  \<^bold>\<open>Bounds and termination.\<close>  No definition has fuel.  The loops that are not structural, \<open>clean_clients\<close> and the scan of
  the editor (\<open>scan\<close>), are total functions with measures: the clients left to look at, and the domains not yet reached together with
  those still to scan.  The threads of the daemon, which run until they are stopped, are functions of the list of rounds that
  they make.  Names have 16 bytes and paths 4096 as in the sources; integers are unbounded where the code does not come near the
  limits of its types, bounded by \<open>c_int\<close> where they are read from files, and words where they wrap around.

  \<^bold>\<open>Not modelled.\<close>
  \<^item> The rest of the vendored Linux kernel, which is unmodified.  The spin lock and the scheduler enter as the atomicity of steps.
  \<^item> Widgets, drawing and layout of the editor, the notification client and the glue of the application plugins: they only present the
    state or forward calls.  The texts and icons of warnings.
  \<^item> Qt itself (regular expressions, number formats, the document classes, the bus), the resolver, iptables and semodule: they are
    parameters, or specified by the meaning of the commands.
  \<^item> The comparison of regular expressions (\<open>librecompare_src\<close>), which no other part of the sources calls.
  \<^item> Debugging output, messages about the syntax of documents, and the locks of the daemon, except where its two threads interleave (\<open>thread_step\<close>).
\<close>

end
